(* ===== verification/Prelude.thy ===== *)
theory Prelude
  imports Main "HOL-Library.Sublist"
begin

text \<open>
  Shared vocabulary of the development: fallible results as sums, the fault-aware sequencing
  of effectful calls, and generic list lemmas. A Go function that returns a value and an
  error is a function into \<open>'e + 'a\<close> (\<open>Inl\<close> carries the error); an operation that also
  changes state is a function from the state to a result and the next state.
\<close>

section \<open>Named collections\<close>

named_theorems string_consts "the program's string constants, unfolded"
named_theorems result_simps "rewriting of fallible results"
named_theorems trace_intros "introduction rules for facts about logs of external calls"

section \<open>Results\<close>

type_synonym ('e, 'a) result = "'e + 'a"

text \<open>\<open>check b e k\<close> is \<open>if b { return e }\<close> followed by \<open>k\<close>.\<close>

definition check :: "bool \<Rightarrow> 'e \<Rightarrow> ('e, 'a) result \<Rightarrow> ('e, 'a) result" where
  "check b e k = (if b then Inl e else k)"

definition rbind :: "('e, 'a) result \<Rightarrow> ('a \<Rightarrow> ('e, 'b) result) \<Rightarrow> ('e, 'b) result" where
  "rbind m f = (case m of Inl e \<Rightarrow> Inl e | Inr x \<Rightarrow> f x)"

lemma check_Inr_iff [simp]: "check b e k = Inr x \<longleftrightarrow> \<not> b \<and> k = Inr x"
  by (simp add: check_def)

lemma check_Inl_iff: "check b e k = Inl e' \<longleftrightarrow> (b \<and> e' = e) \<or> (\<not> b \<and> k = Inl e')"
  by (auto simp: check_def)

lemma check_True [result_simps]: "b \<Longrightarrow> check b e k = Inl e"
  by (simp add: check_def)

lemma check_False [result_simps]: "\<not> b \<Longrightarrow> check b e k = k"
  by (simp add: check_def)

lemma rbind_simps [simp]:
  "rbind (Inl e) f = Inl e"
  "rbind (Inr x) f = f x"
  by (simp_all add: rbind_def)

lemma rbind_Inr_iff [simp]: "rbind m f = Inr y \<longleftrightarrow> (\<exists>x. m = Inr x \<and> f x = Inr y)"
  by (cases m) auto

lemma rbind_cong [fundef_cong]:
  assumes "m = m'" and "\<And>x. m' = Inr x \<Longrightarrow> f x = g x"
  shows "rbind m f = rbind m' g"
  using assms by (cases m') auto

text \<open>A Go loop over a slice that rewrites each element and returns at the first error.\<close>

fun rmap :: "('a \<Rightarrow> ('e, 'b) result) \<Rightarrow> 'a list \<Rightarrow> ('e, 'b list) result" where
  "rmap f [] = Inr []"
| "rmap f (x # xs) = rbind (f x) (\<lambda>y. rbind (rmap f xs) (\<lambda>ys. Inr (y # ys)))"

lemma rmap_Inr_length: "rmap f xs = Inr ys \<Longrightarrow> length ys = length xs"
  by (induction xs arbitrary: ys) auto

lemma rmap_Inr_all: "rmap f xs = Inr ys \<Longrightarrow> y \<in> set ys \<Longrightarrow> \<exists>x \<in> set xs. f x = Inr y"
  by (induction xs arbitrary: ys) auto

lemma rmap_Inr_nth: "rmap f xs = Inr ys \<Longrightarrow> i < length xs \<Longrightarrow> f (xs ! i) = Inr (ys ! i)"
  by (induction xs arbitrary: ys i) (auto simp: nth_Cons split: nat.splits)

lemma rmap_map: "(\<And>x. x \<in> set xs \<Longrightarrow> f x = Inr (g x)) \<Longrightarrow> rmap f xs = Inr (map g xs)"
  by (induction xs) auto

section \<open>Effectful calls: state passing with errors\<close>

type_synonym ('s, 'e, 'a) eff = "'s \<Rightarrow> ('e, 'a) result \<times> 's"

definition ebind :: "('s, 'e, 'a) eff \<Rightarrow> ('a \<Rightarrow> ('s, 'e, 'b) eff) \<Rightarrow> ('s, 'e, 'b) eff" where
  "ebind m f s = (case m s of (Inl e, t) \<Rightarrow> (Inl e, t) | (Inr x, t) \<Rightarrow> f x t)"

definition eret :: "'a \<Rightarrow> ('s, 'e, 'a) eff" where
  "eret x s = (Inr x, s)"

definition efail :: "'e \<Rightarrow> ('s, 'e, 'a) eff" where
  "efail e s = (Inl e, s)"

definition elift :: "('e, 'a) result \<Rightarrow> ('s, 'e, 'a) eff" where
  "elift r s = (r, s)"

text \<open>\<open>if err != nil { return fmt.Errorf("...: %w", err) }\<close>: the call's error, wrapped.\<close>

definition ewrap :: "('e \<Rightarrow> 'f) \<Rightarrow> ('s, 'e, 'a) eff \<Rightarrow> ('s, 'f, 'a) eff" where
  "ewrap w m s = (case m s of (Inl e, t) \<Rightarrow> (Inl (w e), t) | (Inr x, t) \<Rightarrow> (Inr x, t))"

text \<open>\<open>_ = call()\<close>: the call's error is dropped, its effect is kept.\<close>

definition eignore :: "('s, 'e, 'a) eff \<Rightarrow> ('s, 'f, unit) eff" where
  "eignore m s = (Inr (), snd (m s))"

text \<open>The call's result, error or not, handed on as a value.\<close>

definition etry :: "('s, 'e, 'a) eff \<Rightarrow> ('s, 'f, ('e, 'a) result) eff" where
  "etry m s = (case m s of (r, t) \<Rightarrow> (Inr r, t))"

lemma ebind_Inr_iff:
  "ebind m f s = (Inr y, u) \<longleftrightarrow> (\<exists>x t. m s = (Inr x, t) \<and> f x t = (Inr y, u))"
  by (auto simp: ebind_def split: prod.splits sum.splits)

lemma ebind_Inl_iff:
  "ebind m f s = (Inl e, u) \<longleftrightarrow>
     m s = (Inl e, u) \<or> (\<exists>x t. m s = (Inr x, t) \<and> f x t = (Inl e, u))"
  by (auto simp: ebind_def split: prod.splits sum.splits)

lemma eret_eq [simp]: "eret x s = (r, t) \<longleftrightarrow> r = Inr x \<and> t = s"
  by (auto simp: eret_def)

lemma efail_eq [simp]: "efail e s = (r, t) \<longleftrightarrow> r = Inl e \<and> t = s"
  by (auto simp: efail_def)

lemma elift_eq [simp]: "elift x s = (r, t) \<longleftrightarrow> r = x \<and> t = s"
  by (auto simp: elift_def)

lemma ewrap_Inr_iff: "ewrap w m s = (Inr x, t) \<longleftrightarrow> m s = (Inr x, t)"
  by (auto simp: ewrap_def split: prod.splits sum.splits)

lemma ewrap_Inl_iff: "ewrap w m s = (Inl e, t) \<longleftrightarrow> (\<exists>e'. m s = (Inl e', t) \<and> e = w e')"
  by (auto simp: ewrap_def split: prod.splits sum.splits)

lemma eignore_eq: "eignore m s = (r, t) \<longleftrightarrow> r = Inr () \<and> t = snd (m s)"
  by (auto simp: eignore_def)

lemma etry_eq: "etry m s = (r, t) \<longleftrightarrow> (\<exists>q. m s = (q, t) \<and> r = Inr q)"
  by (auto simp: etry_def split: prod.splits)

lemmas eff_iffs = ebind_Inr_iff ebind_Inl_iff ewrap_Inr_iff ewrap_Inl_iff eignore_eq etry_eq

text \<open>
  A relation between the state before and the state after that every call keeps is kept by
  their composition: \<open>keeps R m\<close> with a reflexive and transitive \<open>R\<close>.
\<close>

definition keeps :: "('s \<Rightarrow> 's \<Rightarrow> bool) \<Rightarrow> ('s, 'e, 'a) eff \<Rightarrow> bool" where
  "keeps R m \<longleftrightarrow> (\<forall>s. R s (snd (m s)))"

lemma keepsI: "(\<And>s r t. m s = (r, t) \<Longrightarrow> R s t) \<Longrightarrow> keeps R m"
  by (metis keeps_def prod.collapse)

lemma keepsD: "keeps R m \<Longrightarrow> m s = (r, t) \<Longrightarrow> R s t"
  by (metis keeps_def snd_conv)

lemma keeps_ebind:
  assumes "\<And>x y z. R x y \<Longrightarrow> R y z \<Longrightarrow> R x z"
    and "keeps R m" and "\<And>x. keeps R (f x)"
  shows "keeps R (ebind m f)"
proof (rule keepsI)
  fix s r t
  assume "ebind m f s = (r, t)"
  then consider e where "m s = (Inl e, t)" | x u where "m s = (Inr x, u)" "f x u = (r, t)"
    by (auto simp: ebind_def split: prod.splits sum.splits)
  then show "R s t"
  proof cases
    case 1
    then show ?thesis by (rule keepsD [OF assms(2)])
  next
    case 2
    then show ?thesis using assms(1) keepsD [OF assms(2)] keepsD [OF assms(3)] by blast
  qed
qed

lemma keeps_eret: "(\<And>x. R x x) \<Longrightarrow> keeps R (eret x)"
  by (simp add: keeps_def eret_def)

lemma keeps_efail: "(\<And>x. R x x) \<Longrightarrow> keeps R (efail e)"
  by (simp add: keeps_def efail_def)

lemma keeps_elift: "(\<And>x. R x x) \<Longrightarrow> keeps R (elift r)"
  by (simp add: keeps_def elift_def)

lemma keeps_ewrap: "keeps R m \<Longrightarrow> keeps R (ewrap w m)"
  by (auto simp: keeps_def ewrap_def split: prod.splits sum.splits) (metis snd_conv)+

lemma keeps_eignore: "keeps R m \<Longrightarrow> keeps R (eignore m)"
  by (simp add: keeps_def eignore_def)

lemma keeps_etry: "keeps R m \<Longrightarrow> keeps R (etry m)"
  by (auto simp: keeps_def etry_def split: prod.splits) (metis snd_conv)

section \<open>Lists\<close>

text \<open>Splitting at every element that satisfies a predicate, as \<open>strings.Split\<close> does.\<close>

fun split_when :: "('a \<Rightarrow> bool) \<Rightarrow> 'a list \<Rightarrow> 'a list list" where
  "split_when p [] = [[]]"
| "split_when p (x # xs) =
     (if p x then [] # split_when p xs
      else (case split_when p xs of [] \<Rightarrow> [[x]] | y # ys \<Rightarrow> (x # y) # ys))"

lemma split_when_not_Nil [simp]: "split_when p xs \<noteq> []"
  by (cases xs) (auto split: list.splits)

lemma split_when_no_sep: "ys \<in> set (split_when p xs) \<Longrightarrow> x \<in> set ys \<Longrightarrow> \<not> p x"
  by (induction xs arbitrary: ys) (fastforce split: list.splits if_splits)+

lemma split_when_subset: "ys \<in> set (split_when p xs) \<Longrightarrow> set ys \<subseteq> set xs"
  by (induction xs arbitrary: ys) (fastforce split: list.splits if_splits)+

lemma split_when_none: "(\<And>x. x \<in> set xs \<Longrightarrow> \<not> p x) \<Longrightarrow> split_when p xs = [xs]"
  by (induction xs) auto

text \<open>\<open>strings.Join\<close>.\<close>

fun join :: "'a list \<Rightarrow> 'a list list \<Rightarrow> 'a list" where
  "join sep [] = []"
| "join sep [x] = x"
| "join sep (x # y # xs) = x @ sep @ join sep (y # xs)"

lemma join_Cons: "xs \<noteq> [] \<Longrightarrow> join sep (x # xs) = x @ sep @ join sep xs"
  by (cases xs) auto

lemma join_head: "xs \<noteq> [] \<Longrightarrow> hd xs = c # cs \<Longrightarrow> \<exists>ds. join sep xs = c # ds"
  by (cases xs; cases "tl xs") auto

lemma join_split_when: "join [c] (split_when (\<lambda>x. x = c) xs) = xs"
proof (induction xs)
  case Nil
  then show ?case by simp
next
  case (Cons x xs)
  then show ?case
    by (cases "split_when (\<lambda>x. x = c) xs"; cases "tl (split_when (\<lambda>x. x = c) xs)")
       (auto simp: join_Cons)
qed

lemma set_join: "set (join sep xss) \<subseteq> set sep \<union> (\<Union>xs \<in> set xss. set xs)"
  by (induction sep xss rule: join.induct) auto

text \<open>The first element of a list that a predicate accepts.\<close>

lemma find_Some_set: "List.find p xs = Some x \<Longrightarrow> x \<in> set xs \<and> p x"
  by (induction xs) (auto split: if_splits)

lemma filter_idem: "filter p (filter p xs) = filter p xs"
  by (simp add: filter_id_conv)

lemma prefix_take_append: "length p \<le> n \<Longrightarrow> take n (p @ xs) = p @ take (n - length p) xs"
  by simp

text \<open>A list splits in one way into a front where a predicate holds and a rest that starts without it.\<close>

lemma takeWhile_exact:
  "\<forall>x \<in> set a. P x \<Longrightarrow> b = [] \<or> \<not> P (hd b) \<Longrightarrow> takeWhile P (a @ b) = a"
  by (induction a; cases b) auto

lemma front_unique:
  assumes "a @ b = c @ d" "\<forall>x \<in> set a. P x" "\<forall>x \<in> set c. P x"
    and "b = [] \<or> \<not> P (hd b)" "d = [] \<or> \<not> P (hd d)"
  shows "a = c \<and> b = d"
  using assms takeWhile_exact [of a P b] takeWhile_exact [of c P d] by (metis same_append_eq)

text \<open>Where the shorter of two fronts of a list ends, the longer one goes on with the rest's first element.\<close>

lemma append_inside:
  assumes "u @ v = a @ x # b" "length a < length u"
  obtains d where "u = a @ x # d" "d @ v = b"
proof -
  have "take (length a) (u @ v) = take (length a) (a @ x # b)" using assms(1) by simp
  then have "take (length a) u = a" using assms(2) by simp
  then have u: "u = a @ drop (length a) u" by (metis append_take_drop_id)
  then have e: "drop (length a) u @ v = x # b" using assms(1) by (metis append.assoc same_append_eq)
  have "drop (length a) u \<noteq> []" using assms(2) by simp
  then obtain d where "drop (length a) u = x # d" "d @ v = b" using e by (cases "drop (length a) u") auto
  then show ?thesis using that u by metis
qed

lemma append_beyond:
  assumes "u @ v = a @ b" "length u \<le> length a"
  obtains c where "a = u @ c" "v = c @ b"
  using assms by (metis append_eq_append_conv_if append_take_drop_id)

end
