(* ===== verification/GoText.thy ===== *)
theory GoText
  imports Prelude
begin

text \<open>
  What the program uses of Go's \<open>unicode/utf8\<close>, \<open>unicode\<close>, \<open>strings\<close>, \<open>strconv\<close> and
  \<open>html\<close> packages. A Go string is a list of bytes (\<open>string\<close>: a HOL \<open>char\<close> is a byte); a
  rune is a code point (\<open>nat\<close>). Decoding follows \<open>utf8.DecodeRune\<close>: an invalid byte reads as
  the replacement character and has width 1.

  Case folding is exact wherever one side is ASCII text (the only way the program uses it):
  besides A-Z the two code points that fold onto ASCII letters (U+017F and U+212A) are folded.
\<close>

section \<open>Bytes and runes\<close>

type_synonym rune = nat

definition bytes :: "string \<Rightarrow> nat list" where
  "bytes s = map of_char s"

definition unbytes :: "nat list \<Rightarrow> string" where
  "unbytes ns = map char_of ns"

definition rune_error :: rune where
  "rune_error = 65533"

definition cont :: "nat \<Rightarrow> bool" where
  "cont b \<longleftrightarrow> 128 \<le> b \<and> b \<le> 191"

text \<open>\<open>utf8.DecodeRune\<close>: the rune at the head of a byte list and its width.\<close>

definition decode_rune2 :: "nat \<Rightarrow> nat list \<Rightarrow> rune \<times> nat" where
  "decode_rune2 b0 rest =
     (case rest of
        b1 # _ \<Rightarrow> if cont b1 then ((b0 - 192) * 64 + (b1 - 128), 2) else (rune_error, 1)
      | [] \<Rightarrow> (rune_error, 1))"

definition decode_rune3 :: "nat \<Rightarrow> nat list \<Rightarrow> rune \<times> nat" where
  "decode_rune3 b0 rest =
     (case rest of
        b1 # b2 # _ \<Rightarrow>
          (if cont b1 \<and> cont b2 \<and> (b0 = 224 \<longrightarrow> 160 \<le> b1) \<and> (b0 = 237 \<longrightarrow> b1 \<le> 159)
           then ((b0 - 224) * 4096 + (b1 - 128) * 64 + (b2 - 128), 3) else (rune_error, 1))
      | _ \<Rightarrow> (rune_error, 1))"

definition decode_rune4 :: "nat \<Rightarrow> nat list \<Rightarrow> rune \<times> nat" where
  "decode_rune4 b0 rest =
     (case rest of
        b1 # b2 # b3 # _ \<Rightarrow>
          (if cont b1 \<and> cont b2 \<and> cont b3 \<and> (b0 = 240 \<longrightarrow> 144 \<le> b1) \<and> (b0 = 244 \<longrightarrow> b1 \<le> 143)
           then ((b0 - 240) * 262144 + (b1 - 128) * 4096 + (b2 - 128) * 64 + (b3 - 128), 4)
           else (rune_error, 1))
      | _ \<Rightarrow> (rune_error, 1))"

definition decode_rune :: "nat \<Rightarrow> nat list \<Rightarrow> rune \<times> nat" where
  "decode_rune b0 rest =
     (if b0 < 128 then (b0, 1)
      else if 194 \<le> b0 \<and> b0 \<le> 223 then decode_rune2 b0 rest
      else if 224 \<le> b0 \<and> b0 \<le> 239 then decode_rune3 b0 rest
      else if 240 \<le> b0 \<and> b0 \<le> 244 then decode_rune4 b0 rest
      else (rune_error, 1))"

lemmas decode_rune_defs = decode_rune_def decode_rune2_def decode_rune3_def decode_rune4_def

text \<open>\<open>utf8.AppendRune\<close>.\<close>

definition valid_rune :: "rune \<Rightarrow> bool" where
  "valid_rune r \<longleftrightarrow> r < 55296 \<or> (57344 \<le> r \<and> r \<le> 1114111)"

definition encode_rune :: "rune \<Rightarrow> nat list" where
  "encode_rune r =
     (if r < 128 then [r]
      else if r < 2048 then [192 + r div 64, 128 + r mod 64]
      else if \<not> valid_rune r then [239, 191, 189]
      else if r < 65536 then [224 + r div 4096, 128 + r div 64 mod 64, 128 + r mod 64]
      else [240 + r div 262144, 128 + r div 4096 mod 64, 128 + r div 64 mod 64, 128 + r mod 64])"

text \<open>\<open>for _, r := range s\<close>: each rune with the bytes it was read from.\<close>

function rune_chunks :: "nat list \<Rightarrow> (rune \<times> nat list) list" where
  "rune_chunks [] = []"
| "rune_chunks (b # bs) =
     (case decode_rune b bs of (r, w) \<Rightarrow>
        (r, take w (b # bs)) # rune_chunks (drop (w - 1) bs))"
  by pat_completeness auto
termination
  by (relation "measure length") auto

definition to_runes :: "string \<Rightarrow> rune list" where
  "to_runes s = map fst (rune_chunks (bytes s))"

definition of_runes :: "rune list \<Rightarrow> string" where
  "of_runes rs = unbytes (concat (map encode_rune rs))"

definition valid_utf8 :: "string \<Rightarrow> bool" where
  "valid_utf8 s \<longleftrightarrow> of_runes (to_runes s) = s"

text \<open>ASCII text as runes, for the literals of patterns and of JSON.\<close>

definition asc :: "string \<Rightarrow> rune list" where
  "asc s = map of_char s"

subsection \<open>Decoding is the inverse of encoding\<close>

lemma of_char_less_256 [simp]: "of_char c < (256 :: nat)"
  using of_char_of [where ?'a = nat] by (metis char_of_mod_256 mod_less_divisor of_char_mod_256 zero_less_numeral)

lemma unbytes_bytes [simp]: "unbytes (bytes s) = s"
  by (simp add: unbytes_def bytes_def comp_def)

lemma bytes_unbytes: "(\<And>n. n \<in> set ns \<Longrightarrow> n < 256) \<Longrightarrow> bytes (unbytes ns) = ns"
  by (simp add: unbytes_def bytes_def comp_def map_idI)

lemma length_bytes [simp]: "length (bytes s) = length s"
  by (simp add: bytes_def)

lemma length_unbytes [simp]: "length (unbytes ns) = length ns"
  by (simp add: unbytes_def)

lemma decode_rune_width: "decode_rune b bs = (r, w) \<Longrightarrow> 1 \<le> w \<and> w \<le> Suc (length bs) \<and> w \<le> 4"
  by (auto simp: decode_rune_defs split: list.splits if_splits)

lemma decode_rune3_valid:
  assumes "decode_rune3 b bs = (r, w)" "224 \<le> b" "b \<le> 239"
  shows "valid_rune r"
proof -
  have *: "valid_rune (x * 4096 + y * 64 + z)"
    if "x \<le> 15" "y \<le> 63" "z \<le> 63" "x = 13 \<Longrightarrow> y \<le> 31" for x y z :: nat
  proof (cases "x \<le> 13")
    case True
    then have "x * 4096 + y * 64 + z < 55296" using that by (cases "x = 13") auto
    then show ?thesis by (simp add: valid_rune_def)
  qed (use that in \<open>auto simp: valid_rune_def\<close>)
  have "valid_rune ((b - 224) * 4096 + (b1 - 128) * 64 + (b2 - 128))"
    if "cont b1" "cont b2" "b = 237 \<longrightarrow> b1 \<le> 159" for b1 b2
    by (rule *) (use that [unfolded cont_def] assms(2,3) in arith)+
  moreover have "valid_rune rune_error" by (simp add: valid_rune_def rune_error_def)
  ultimately show ?thesis
    using assms(1) unfolding decode_rune3_def by (fastforce split: list.splits if_splits)
qed

lemma decode_rune4_valid:
  assumes "decode_rune4 b bs = (r, w)" "240 \<le> b" "b \<le> 244"
  shows "valid_rune r"
proof -
  have *: "valid_rune (x * 262144 + v * 4096 + y * 64 + z)"
    if "x \<le> 4" "v \<le> 63" "y \<le> 63" "z \<le> 63" "x = 0 \<Longrightarrow> 16 \<le> v" "x = 4 \<Longrightarrow> v \<le> 15" for x v y z :: nat
  proof -
    have "65536 \<le> x * 262144 + v * 4096" using that by (cases "x = 0") auto
    moreover have "x * 262144 + v * 4096 \<le> 1110016" using that by (cases "x = 4") auto
    ultimately show ?thesis using that by (auto simp: valid_rune_def)
  qed
  have "valid_rune ((b - 240) * 262144 + (b1 - 128) * 4096 + (b2 - 128) * 64 + (b3 - 128))"
    if "cont b1" "cont b2" "cont b3" "b = 240 \<longrightarrow> 144 \<le> b1" "b = 244 \<longrightarrow> b1 \<le> 143" for b1 b2 b3
    by (rule *) (use that [unfolded cont_def] assms(2,3) in arith)+
  moreover have "valid_rune rune_error" by (simp add: valid_rune_def rune_error_def)
  ultimately show ?thesis
    using assms(1) unfolding decode_rune4_def by (fastforce split: list.splits if_splits)
qed

lemma decode_rune_valid:
  assumes "decode_rune b bs = (r, w)" shows "valid_rune r"
  using assms
  by (auto simp: decode_rune_def decode_rune2_def cont_def valid_rune_def [of 65533] rune_error_def
      split: if_splits list.splits intro: decode_rune3_valid decode_rune4_valid)
    (auto simp: valid_rune_def)

lemma rune_chunks_valid: "p \<in> set (rune_chunks bs) \<Longrightarrow> valid_rune (fst p)"
proof (induction bs rule: rune_chunks.induct)
  case (2 b bs)
  obtain r w where d: "decode_rune b bs = (r, w)" by (cases "decode_rune b bs")
  show ?case
    using 2 by (auto simp: d decode_rune_valid [OF d])
qed simp

lemma to_runes_valid: "r \<in> set (to_runes s) \<Longrightarrow> valid_rune r"
  by (auto simp: to_runes_def dest: rune_chunks_valid)

lemma encode_rune_bytes: "n \<in> set (encode_rune r) \<Longrightarrow> n < 256"
  by (auto simp: encode_rune_def valid_rune_def split: if_splits)

lemma encode_rune_not_Nil [simp]: "encode_rune r \<noteq> []"
  by (simp add: encode_rune_def)

lemma decode_encode_2:
  assumes "128 \<le> r" "r < 2048"
  shows "decode_rune (192 + r div 64) ((128 + r mod 64) # bs) = (r, 2)"
proof -
  have "194 \<le> 192 + r div 64" "192 + r div 64 \<le> 223" "r mod 64 < 64"
    using assms by auto
  then show ?thesis
    by (simp add: decode_rune_def decode_rune2_def cont_def)
qed

lemma decode_encode_3:
  assumes "2048 \<le> r" "r < 65536" "valid_rune r"
  shows "decode_rune (224 + r div 4096) ((128 + r div 64 mod 64) # (128 + r mod 64) # bs) = (r, 3)"
proof -
  define q where "q = r div 64"
  have r: "r = q * 64 + r mod 64" by (simp add: q_def)
  have q: "q = q div 64 * 64 + q mod 64" by simp
  have e: "r div 4096 = q div 64" by (simp add: q_def div_mult2_eq [symmetric])
  have lim: "q div 64 \<le> 15" "r mod 64 < 64" "q mod 64 < 64" "32 \<le> q"
    using assms by (auto simp: q_def)
  have b: "q div 64 = 0 \<Longrightarrow> 32 \<le> q mod 64"
    using lim q by simp
  have c: "q div 64 = 13 \<Longrightarrow> q mod 64 \<le> 31"
    using assms(3) r q lim by (auto simp: valid_rune_def)
  have d: "q div 64 * 4096 + q mod 64 * 64 + r mod 64 = r"
    using r q by linarith
  show ?thesis
    unfolding e q_def [symmetric]
    using lim b c d by (auto simp: decode_rune_def decode_rune3_def cont_def)
qed

lemma decode_encode_4:
  assumes "65536 \<le> r" "r \<le> 1114111"
  shows "decode_rune (240 + r div 262144)
           ((128 + r div 4096 mod 64) # (128 + r div 64 mod 64) # (128 + r mod 64) # bs) = (r, 4)"
proof -
  define q where "q = r div 64"
  define p where "p = q div 64"
  have r: "r = q * 64 + r mod 64" by (simp add: q_def)
  have q: "q = p * 64 + q mod 64" by (simp add: p_def)
  have p: "p = p div 64 * 64 + p mod 64" by simp
  have e: "r div 4096 = p" "r div 262144 = p div 64"
    by (simp_all add: p_def q_def div_mult2_eq [symmetric])
  have lim: "p div 64 \<le> 4" "r mod 64 < 64" "q mod 64 < 64" "p mod 64 < 64" "16 \<le> p" "p \<le> 271"
    using assms by (auto simp: p_def q_def div_mult2_eq [symmetric])
  have b: "p div 64 = 0 \<Longrightarrow> 16 \<le> p mod 64" "p div 64 = 4 \<Longrightarrow> p mod 64 \<le> 15"
    using lim p by linarith+
  have d: "p div 64 * 262144 + p mod 64 * 4096 + q mod 64 * 64 + r mod 64 = r"
    using r q p by linarith
  show ?thesis
    unfolding e q_def [symmetric]
    using lim b d by (auto simp: decode_rune_def decode_rune4_def cont_def)
qed

lemma rune_chunks_encode:
  assumes "valid_rune r"
  shows "rune_chunks (encode_rune r @ bs) = (r, encode_rune r) # rune_chunks bs"
proof -
  consider "r < 128" | "128 \<le> r" "r < 2048" | "2048 \<le> r" "r < 65536"
    | "65536 \<le> r" "r \<le> 1114111"
    using assms by (force simp: valid_rune_def)
  then show ?thesis
  proof cases
    case 1
    then show ?thesis by (simp add: encode_rune_def decode_rune_def)
  next
    case 2
    then have "encode_rune r = [192 + r div 64, 128 + r mod 64]"
      by (simp add: encode_rune_def)
    moreover note decode_encode_2 [OF 2]
    ultimately show ?thesis by (simp only: append.simps rune_chunks.simps) simp
  next
    case 3
    then have "encode_rune r = [224 + r div 4096, 128 + r div 64 mod 64, 128 + r mod 64]"
      using assms by (simp add: encode_rune_def)
    moreover note decode_encode_3 [OF 3 assms]
    ultimately show ?thesis by (simp only: append.simps rune_chunks.simps) simp
  next
    case 4
    then have "encode_rune r = [240 + r div 262144, 128 + r div 4096 mod 64,
        128 + r div 64 mod 64, 128 + r mod 64]"
      using assms by (simp add: encode_rune_def)
    moreover note decode_encode_4 [OF 4]
    ultimately show ?thesis by (simp only: append.simps rune_chunks.simps) simp
  qed
qed

lemma rune_chunks_encodes:
  assumes "\<forall>r \<in> set rs. valid_rune r"
  shows "rune_chunks (concat (map encode_rune rs)) = map (\<lambda>r. (r, encode_rune r)) rs"
  using assms by (induction rs) (auto simp: rune_chunks_encode)

lemma bytes_of_runes: "bytes (of_runes rs) = concat (map encode_rune rs)"
  unfolding of_runes_def by (rule bytes_unbytes) (auto dest: encode_rune_bytes)

lemma to_runes_of_runes: "\<forall>r \<in> set rs. valid_rune r \<Longrightarrow> to_runes (of_runes rs) = rs"
  by (simp add: to_runes_def bytes_of_runes rune_chunks_encodes comp_def)

lemma valid_utf8_of_runes: "\<forall>r \<in> set rs. valid_rune r \<Longrightarrow> valid_utf8 (of_runes rs)"
  by (simp add: valid_utf8_def to_runes_of_runes)

lemma of_runes_append: "of_runes (xs @ ys) = of_runes xs @ of_runes ys"
  by (simp add: of_runes_def unbytes_def)

lemma of_runes_Nil [simp]: "of_runes [] = []"
  by (simp add: of_runes_def unbytes_def)

lemma of_runes_Nil_iff: "of_runes rs = [] \<longleftrightarrow> rs = []"
  by (cases rs) (simp_all add: of_runes_def unbytes_def)

lemma of_runes_single: "of_char c < (128 :: nat) \<Longrightarrow> of_runes [of_char c] = [c]"
  by (simp add: of_runes_def unbytes_def encode_rune_def)

lemma rune_chunks_concat: "concat (map snd (rune_chunks bs)) = bs"
proof (induction bs rule: rune_chunks.induct)
  case 1
  then show ?case by simp
next
  case (2 b bs)
  obtain r w where d: "decode_rune b bs = (r, w)" by (cases "decode_rune b bs")
  have IH: "concat (map snd (rune_chunks (drop (w - 1) bs))) = drop (w - 1) bs"
    using "2.IH" [OF d [symmetric]] by simp
  have "Suc (w - 1) = w" using decode_rune_width [OF d] by simp
  then have "take w (b # bs) @ drop (w - 1) bs = b # bs"
    by (metis append_take_drop_id drop_Suc_Cons)
  with IH show ?case by (simp add: d)
qed

text \<open>ASCII text reads back as itself.\<close>

definition ascii :: "string \<Rightarrow> bool" where
  "ascii s \<longleftrightarrow> (\<forall>c \<in> set s. of_char c < (128 :: nat))"

lemma rune_chunks_ascii: "(\<forall>b \<in> set bs. b < 128) \<Longrightarrow> rune_chunks bs = map (\<lambda>b. (b, [b])) bs"
  by (induction bs) (auto simp: decode_rune_def)

lemma to_runes_ascii: "ascii s \<Longrightarrow> to_runes s = asc s"
  by (simp add: to_runes_def asc_def ascii_def rune_chunks_ascii bytes_def comp_def)

lemma of_runes_asc: "ascii s \<Longrightarrow> of_runes (asc s) = s"
proof -
  assume "ascii s"
  then have "concat (map encode_rune (asc s)) = bytes s"
    by (induction s) (auto simp: ascii_def asc_def bytes_def encode_rune_def)
  then show ?thesis by (simp add: of_runes_def)
qed

lemma valid_utf8_ascii: "ascii s \<Longrightarrow> valid_utf8 s"
  by (simp add: valid_utf8_def to_runes_ascii of_runes_asc)

text \<open>An ASCII byte of an encoded text is an ASCII rune of the text.\<close>

lemma encode_rune_high: "128 \<le> r \<Longrightarrow> n \<in> set (encode_rune r) \<Longrightarrow> 128 \<le> n"
  by (auto simp: encode_rune_def split: if_splits)

lemma utf8_ascii_at:
  "concat (map encode_rune rs) = a @ x # b \<Longrightarrow> x < 128 \<Longrightarrow>
   \<exists>ra rb. rs = ra @ x # rb \<and> a = concat (map encode_rune ra) \<and> b = concat (map encode_rune rb)"
proof (induction rs arbitrary: a)
  case Nil
  then show ?case by simp
next
  case (Cons r rs)
  let ?e = "encode_rune r"
  show ?case
  proof (cases "a = [] \<and> r < 128")
    case True
    then have "?e = [r]" by (simp add: encode_rune_def [of r])
    then have "r = x \<and> b = concat (map encode_rune rs)" using Cons.prems True by simp
    then have "r # rs = [] @ x # rs \<and> a = concat (map encode_rune []) \<and> b = concat (map encode_rune rs)"
      using True by simp
    then show ?thesis by blast
  next
    case False
    have "length ?e \<le> length a"
    proof (rule ccontr)
      assume "\<not> length ?e \<le> length a"
      then have "x \<in> set ?e"
        using Cons.prems(1) by (auto simp: append_eq_append_conv2 append_eq_Cons_conv Cons_eq_append_conv)
      then have "r < 128" using encode_rune_high [of r x] Cons.prems(2) by (meson leD leI)
      then have "length ?e = 1" by (simp add: encode_rune_def [of r])
      then show False using False \<open>r < 128\<close> \<open>\<not> length ?e \<le> length a\<close> by (cases a) simp_all
    qed
    then obtain a' where a': "a = ?e @ a'" "concat (map encode_rune rs) = a' @ x # b"
      using Cons.prems(1) by (auto simp: append_eq_append_conv2)
    then obtain ra rb where "rs = ra @ x # rb" "a' = concat (map encode_rune ra)"
      "b = concat (map encode_rune rb)" using Cons.IH Cons.prems(2) by blast
    then have "r # rs = (r # ra) @ x # rb \<and> a = concat (map encode_rune (r # ra))
      \<and> b = concat (map encode_rune rb)" using a' by simp
    then show ?thesis by blast
  qed
qed

lemma of_runes_ascii_at:
  assumes "of_runes rs = a @ c # b" "of_char c < (128 :: nat)"
  obtains ra rb where "rs = ra @ of_char c # rb" "a = of_runes ra" "b = of_runes rb"
proof -
  have "concat (map encode_rune rs) = bytes a @ of_char c # bytes b"
    using arg_cong [OF assms(1), of bytes] unfolding bytes_of_runes by (simp add: bytes_def)
  then obtain ra rb where "rs = ra @ of_char c # rb" "bytes a = concat (map encode_rune ra)"
    "bytes b = concat (map encode_rune rb)" using utf8_ascii_at assms(2) by blast
  then show ?thesis using that by (metis of_runes_def unbytes_bytes)
qed

section \<open>Character classes\<close>

definition is_digit :: "rune \<Rightarrow> bool" where
  "is_digit r \<longleftrightarrow> 48 \<le> r \<and> r \<le> 57"

definition is_upper :: "rune \<Rightarrow> bool" where
  "is_upper r \<longleftrightarrow> 65 \<le> r \<and> r \<le> 90"

definition is_lower :: "rune \<Rightarrow> bool" where
  "is_lower r \<longleftrightarrow> 97 \<le> r \<and> r \<le> 122"

definition is_alnum :: "rune \<Rightarrow> bool" where
  "is_alnum r \<longleftrightarrow> is_digit r \<or> is_upper r \<or> is_lower r"

text \<open>\<open>unicode.IsSpace\<close> and \<open>unicode.IsControl\<close>.\<close>

definition is_space :: "rune \<Rightarrow> bool" where
  "is_space r \<longleftrightarrow> (9 \<le> r \<and> r \<le> 13) \<or> r = 32 \<or> r = 133 \<or> r = 160 \<or> r = 5760
     \<or> (8192 \<le> r \<and> r \<le> 8202) \<or> r = 8232 \<or> r = 8233 \<or> r = 8239 \<or> r = 8287 \<or> r = 12288"

definition is_control :: "rune \<Rightarrow> bool" where
  "is_control r \<longleftrightarrow> r < 32 \<or> (127 \<le> r \<and> r \<le> 159)"

text \<open>
  Simple folding onto ASCII (\<open>strings.EqualFold\<close> against ASCII text, the \<open>(?i)\<close> flag on ASCII
  letters), and \<open>unicode.ToLower\<close> for ASCII, Latin-1 and the two code points beyond it whose
  lower case is ASCII.
\<close>

definition fold_rune :: "rune \<Rightarrow> rune" where
  "fold_rune r = (if is_upper r then r + 32 else if r = 383 then 115 else if r = 8490 then 107 else r)"

definition lower_rune :: "rune \<Rightarrow> rune" where
  "lower_rune r =
     (if is_upper r \<or> (192 \<le> r \<and> r \<le> 222 \<and> r \<noteq> 215) then r + 32
      else if r = 304 then 105 else if r = 8490 then 107 else r)"

definition equal_fold :: "string \<Rightarrow> string \<Rightarrow> bool" where
  "equal_fold s t \<longleftrightarrow> map fold_rune (to_runes s) = map fold_rune (to_runes t)"

definition to_lower :: "string \<Rightarrow> string" where
  "to_lower s = of_runes (map lower_rune (to_runes s))"

section \<open>The strings package\<close>

definition has_prefix :: "string \<Rightarrow> string \<Rightarrow> bool" where
  "has_prefix s p \<longleftrightarrow> prefix p s"

definition has_suffix :: "string \<Rightarrow> string \<Rightarrow> bool" where
  "has_suffix s p \<longleftrightarrow> suffix p s"

definition trim_prefix :: "string \<Rightarrow> string \<Rightarrow> string" where
  "trim_prefix s p = (if has_prefix s p then drop (length p) s else s)"

definition trim_suffix :: "string \<Rightarrow> string \<Rightarrow> string" where
  "trim_suffix s p = (if has_suffix s p then take (length s - length p) s else s)"

fun contains :: "string \<Rightarrow> string \<Rightarrow> bool" where
  "contains [] sub = (sub = [])"
| "contains (c # cs) sub = (has_prefix (c # cs) sub \<or> contains cs sub)"

text \<open>\<open>strings.SplitN(s, sep, 2)[0]\<close> and \<open>strings.Cut\<close>: around the first occurrence.\<close>

fun cut :: "string \<Rightarrow> string \<Rightarrow> string \<times> string \<times> bool" where
  "cut [] sep = (if sep = [] then ([], [], True) else ([], [], False))"
| "cut (c # cs) sep =
     (if has_prefix (c # cs) sep then ([], drop (length sep) (c # cs), True)
      else (case cut cs sep of (b, a, f) \<Rightarrow> (c # b, a, f)))"

definition before :: "string \<Rightarrow> string \<Rightarrow> string" where
  "before s sep = fst (cut s sep)"

definition lines :: "string \<Rightarrow> string list" where
  "lines s = split_when (\<lambda>c. c = CHR 0x0A) s"

definition chunk_bytes :: "(rune \<times> nat list) list \<Rightarrow> string" where
  "chunk_bytes cs = unbytes (concat (map snd cs))"

definition str_fields :: "string \<Rightarrow> string list" where
  "str_fields s = filter (\<lambda>w. w \<noteq> [])
     (map chunk_bytes (split_when (\<lambda>c. is_space (fst c)) (rune_chunks (bytes s))))"

definition trim_space :: "string \<Rightarrow> string" where
  "trim_space s =
     chunk_bytes (rev (dropWhile (\<lambda>c. is_space (fst c))
       (rev (dropWhile (\<lambda>c. is_space (fst c)) (rune_chunks (bytes s))))))"

text \<open>\<open>strings.ReplaceAll\<close> of a single byte.\<close>

definition replace_byte :: "char \<Rightarrow> string \<Rightarrow> string \<Rightarrow> string" where
  "replace_byte c new s = concat (map (\<lambda>x. if x = c then new else [x]) s)"

text \<open>\<open>html.EscapeString\<close>.\<close>

definition html_escape :: "string \<Rightarrow> string" where
  "html_escape s = concat (map (\<lambda>c.
     if c = CHR ''&'' then ''&amp;''
     else if c = CHR 0x27 then ''&#39;''
     else if c = CHR ''<'' then ''&lt;''
     else if c = CHR ''>'' then ''&gt;''
     else if c = CHR 0x22 then ''&#34;''
     else [c]) s)"

section \<open>The strconv package\<close>

definition digit :: "nat \<Rightarrow> char" where
  "digit d = char_of (48 + d)"

fun show_nat :: "nat \<Rightarrow> string" where
  "show_nat n = (if n < 10 then [digit n] else show_nat (n div 10) @ [digit (n mod 10)])"

declare show_nat.simps [simp del]

definition itoa :: "int \<Rightarrow> string" where
  "itoa i = (if i < 0 then CHR ''-'' # show_nat (nat (- i)) else show_nat (nat i))"

definition digit_val :: "char \<Rightarrow> nat option" where
  "digit_val c = (if is_digit (of_char c) then Some (of_char c - 48) else None)"

fun read_nat :: "nat \<Rightarrow> string \<Rightarrow> nat option" where
  "read_nat acc [] = Some acc"
| "read_nat acc (c # cs) =
     (case digit_val c of None \<Rightarrow> None | Some d \<Rightarrow> read_nat (10 * acc + d) cs)"

text \<open>\<open>int\<close> is 64 bits wide on the platforms the program is built for.\<close>

definition int_ok :: "int \<Rightarrow> bool" where
  "int_ok i \<longleftrightarrow> - (2 ^ 63) \<le> i \<and> i < 2 ^ 63"

definition wrap64 :: "int \<Rightarrow> int" where
  "wrap64 i = (i + 2 ^ 63) mod 2 ^ 64 - 2 ^ 63"

text \<open>\<open>strconv.Atoi\<close>: an optional sign, decimal digits, and the range check.\<close>

definition atoi :: "string \<Rightarrow> int option" where
  "atoi s =
     (let (neg, ds) = (case s of [] \<Rightarrow> (False, [])
            | c # cs \<Rightarrow> if c = CHR ''-'' then (True, cs) else if c = CHR ''+'' then (False, cs)
                        else (False, s))
      in if ds = [] then None
         else case read_nat 0 ds of None \<Rightarrow> None
              | Some n \<Rightarrow> (let i = (if neg then - int n else int n) in if int_ok i then Some i else None))"

subsection \<open>Numbers read back\<close>

lemma of_char_digit: "d < 10 \<Longrightarrow> of_char (digit d) = 48 + d"
  by (simp add: digit_def)

lemma digit_val_digit: "d < 10 \<Longrightarrow> digit_val (digit d) = Some d"
  by (simp add: digit_val_def of_char_digit is_digit_def)

lemma read_nat_append:
  "read_nat acc (xs @ ys) = (case read_nat acc xs of None \<Rightarrow> None | Some n \<Rightarrow> read_nat n ys)"
  by (induction xs arbitrary: acc) (auto split: option.splits)

lemma read_show_nat: "read_nat 0 (show_nat n) = Some n"
proof (induction n rule: show_nat.induct)
  case (1 n)
  show ?case
  proof (cases "n < 10")
    case True
    then show ?thesis by (simp add: show_nat.simps [of n] digit_val_digit)
  next
    case False
    then show ?thesis using 1 by (simp add: show_nat.simps [of n] read_nat_append digit_val_digit)
  qed
qed

lemma show_nat_not_Nil [simp]: "show_nat n \<noteq> []"
  by (subst show_nat.simps) simp

lemma show_nat_digits: "c \<in> set (show_nat n) \<Longrightarrow> is_digit (of_char c)"
proof (induction n rule: show_nat.induct)
  case (1 n)
  then show ?case
    by (cases "n < 10") (auto simp: show_nat.simps [of n] of_char_digit is_digit_def)
qed

lemma hd_show_nat: "hd (show_nat n) = digit 0 \<Longrightarrow> n = 0"
proof (induction n rule: show_nat.induct)
  case (1 n)
  show ?case
  proof (cases "n < 10")
    case True
    then have "of_char (digit n) = (of_char (digit 0) :: nat)" using 1 by (simp add: show_nat.simps [of n])
    then show ?thesis using True by (simp add: of_char_digit)
  next
    case False
    then have "hd (show_nat (n div 10)) = digit 0" using 1(2) by (simp add: show_nat.simps [of n])
    then have "n div 10 = 0" using 1(1) False by blast
    then show ?thesis using False by simp
  qed
qed

lemma atoi_itoa:
  assumes "int_ok i"
  shows "atoi (itoa i) = Some i"
proof (cases "i < 0")
  case True
  then show ?thesis using assms by (simp add: itoa_def atoi_def read_show_nat Let_def)
next
  case False
  obtain c cs where c: "show_nat (nat i) = c # cs" by (cases "show_nat (nat i)") simp_all
  then have "is_digit (of_char c)" using show_nat_digits [of c "nat i"] by simp
  then have "c \<noteq> CHR ''-''" "c \<noteq> CHR ''+''" by (auto simp: is_digit_def)
  then show ?thesis using False assms c read_show_nat [of "nat i"] by (simp add: itoa_def atoi_def Let_def)
qed

lemma atoi_itoa_only: "atoi (itoa i) = Some j \<Longrightarrow> j = i"
proof (cases "i < 0")
  case True
  moreover assume "atoi (itoa i) = Some j"
  ultimately show ?thesis by (simp add: itoa_def atoi_def read_show_nat Let_def split: if_splits)
next
  case False
  assume j: "atoi (itoa i) = Some j"
  obtain c cs where c: "show_nat (nat i) = c # cs" by (cases "show_nat (nat i)") simp_all
  then have "is_digit (of_char c)" using show_nat_digits [of c "nat i"] by simp
  then have "c \<noteq> CHR ''-''" "c \<noteq> CHR ''+''" by (auto simp: is_digit_def)
  then show ?thesis using False j c read_show_nat [of "nat i"]
    by (simp add: itoa_def atoi_def Let_def split: if_splits)
qed

lemma itoa_inj: "itoa i = itoa j \<Longrightarrow> i = j"
proof -
  have neg: "show_nat n \<noteq> CHR ''-'' # cs" for n cs
    using show_nat_digits [of "CHR ''-''" n] by (auto simp: is_digit_def)
  have inj: "show_nat m = show_nat n \<Longrightarrow> m = n" for m n
    by (metis option.inject read_show_nat)
  assume "itoa i = itoa j"
  then show "i = j"
    using inj [of "nat (- i)" "nat (- j)"] inj [of "nat i" "nat j"] neg neg [symmetric]
    by (auto simp: itoa_def split: if_splits)
qed

lemma itoa_ascii: "ascii (itoa i)"
  using show_nat_digits by (fastforce simp: itoa_def ascii_def is_digit_def)

end
