(* ===== verification/GoJson.thy ===== *)
theory GoJson
  imports GoText
begin

text \<open>
  What the program uses of Go's \<open>encoding/json\<close>: the scanner and its stack of open arrays
  and objects (one rune per step, as \<open>scanner.go\<close> reads one byte per step), string escaping
  and unescaping, encoding of values, field lookup, and the decoding of values into Go
  variables. Texts are rune lists: the scanner treats every byte from 0x80 on alike and
  string literals are decoded to runes in any case.
\<close>

section \<open>Values\<close>

datatype json =
    JNull
  | JBool bool
  | JNum "rune list"                     \<comment> \<open>the literal, as written\<close>
  | JStr "rune list"
  | JArr "json list"
  | JObj "(rune list \<times> json) list"       \<comment> \<open>members in order, duplicates kept\<close>

section \<open>String literals\<close>

definition hex_digit :: "nat \<Rightarrow> rune" where
  "hex_digit n = (if n < 10 then 48 + n else 87 + n)"

definition hex_val :: "rune \<Rightarrow> nat option" where
  "hex_val r =
     (if 48 \<le> r \<and> r \<le> 57 then Some (r - 48)
      else if 97 \<le> r \<and> r \<le> 102 then Some (r - 87)
      else if 65 \<le> r \<and> r \<le> 70 then Some (r - 55) else None)"

definition u_escape :: "rune \<Rightarrow> rune list" where
  "u_escape r = [92, 117, hex_digit (r div 4096 mod 16), hex_digit (r div 256 mod 16),
                 hex_digit (r div 16 mod 16), hex_digit (r mod 16)]"

text \<open>\<open>appendString\<close> with HTML escaping, which \<open>json.Marshal\<close> always uses.\<close>

definition esc_rune :: "rune \<Rightarrow> rune list" where
  "esc_rune r =
     (if r = 34 \<or> r = 92 then [92, r]
      else if r = 8 then [92, 98] else if r = 12 then [92, 102]
      else if r = 10 then [92, 110] else if r = 13 then [92, 114] else if r = 9 then [92, 116]
      else if r < 32 \<or> r = 60 \<or> r = 62 \<or> r = 38 \<or> r = 8232 \<or> r = 8233 then u_escape r
      else [r])"

definition quote :: "rune list \<Rightarrow> rune list" where
  "quote rs = 34 # concat (map esc_rune rs) @ [34]"

text \<open>\<open>getu4\<close>: four hexadecimal digits after a backslash and a u.\<close>

definition getu4 :: "rune list \<Rightarrow> nat option" where
  "getu4 rs =
     (case rs of a # b # c # d # _ \<Rightarrow>
        (case (hex_val a, hex_val b, hex_val c, hex_val d) of
           (Some w, Some x, Some y, Some z) \<Rightarrow> Some (w * 4096 + x * 256 + y * 16 + z)
         | _ \<Rightarrow> None)
      | _ \<Rightarrow> None)"

definition surrogate :: "nat \<Rightarrow> bool" where
  "surrogate n \<longleftrightarrow> 55296 \<le> n \<and> n < 57344"

text \<open>The low half of a surrogate pair, when the text goes on with one.\<close>

definition low_half :: "nat \<Rightarrow> rune list \<Rightarrow> rune option" where
  "low_half hi rs =
     (case rs of b # u # rs' \<Rightarrow>
        (if b = 92 \<and> u = 117 then
           (case getu4 rs' of
              Some lo \<Rightarrow> (if hi < 56320 \<and> 56320 \<le> lo \<and> lo < 57344
                then Some ((hi - 55296) * 1024 + (lo - 56320) + 65536) else None)
            | None \<Rightarrow> None)
         else None)
      | _ \<Rightarrow> None)"

definition simple_escape :: "rune \<Rightarrow> rune option" where
  "simple_escape c =
     (if c = 34 \<or> c = 92 \<or> c = 47 then Some c
      else if c = 98 then Some 8 else if c = 102 then Some 12 else if c = 110 then Some 10
      else if c = 114 then Some 13 else if c = 116 then Some 9 else None)"

text \<open>\<open>unquote\<close>: what a literal (without its quotes) stands for.\<close>

function unquote :: "rune list \<Rightarrow> rune list option" where
  "unquote [] = Some []"
| "unquote (r # rs) =
     (if r \<noteq> 92 then map_option ((#) r) (unquote rs)
      else case rs of [] \<Rightarrow> None
        | c # rs1 \<Rightarrow>
          (if c = 117 then
             (case getu4 rs1 of None \<Rightarrow> None
              | Some n \<Rightarrow>
                (if surrogate n then
                   (case low_half n (drop 4 rs1) of
                      Some m \<Rightarrow> map_option ((#) m) (unquote (drop 10 rs1))
                    | None \<Rightarrow> map_option ((#) rune_error) (unquote (drop 4 rs1)))
                 else map_option ((#) n) (unquote (drop 4 rs1))))
           else case simple_escape c of None \<Rightarrow> None
             | Some m \<Rightarrow> map_option ((#) m) (unquote rs1)))"
  by pat_completeness auto
termination
  by (relation "measure length") auto

section \<open>The scanner\<close>

datatype frame =
    FArr "json list"                            \<comment> \<open>open array, elements so far, last first\<close>
  | FObj "(rune list \<times> json) list"              \<comment> \<open>open object, between members\<close>
  | FMem "(rune list \<times> json) list" "rune list"  \<comment> \<open>open object, in the value of this key\<close>

datatype num_state = NNeg | NZero | NInt | NDot | NFrac | NExp | NSign | NDigits

datatype lex =
    BeginValue
  | BeginValueOrEmpty       \<comment> \<open>after \<open>[\<close>\<close>
  | BeginKey                \<comment> \<open>after a comma in an object\<close>
  | BeginKeyOrEmpty         \<comment> \<open>after \<open>{\<close>\<close>
  | EndKey                  \<comment> \<open>a colon is due\<close>
  | EndValue
  | InString bool "rune list"           \<comment> \<open>is it a key; the runes so far, last first\<close>
  | InEscape bool "rune list"
  | InHex bool "rune list" nat          \<comment> \<open>hexadecimal digits still due\<close>
  | InLiteral "rune list" json          \<comment> \<open>what is left of \<open>true\<close>, \<open>false\<close> or \<open>null\<close>\<close>
  | InNumber num_state "rune list"

datatype step =
    Next lex "frame list"
  | Done json bool          \<comment> \<open>the value is complete; was the rune part of it?\<close>
  | Bad

definition json_space :: "rune \<Rightarrow> bool" where
  "json_space r \<longleftrightarrow> r = 32 \<or> r = 9 \<or> r = 13 \<or> r = 10"

definition max_nesting_depth :: nat where
  "max_nesting_depth = 10000"

definition push :: "frame \<Rightarrow> lex \<Rightarrow> frame list \<Rightarrow> step" where
  "push f l stk = (if length stk < max_nesting_depth then Next l (f # stk) else Bad)"

definition complete :: "json \<Rightarrow> frame list \<Rightarrow> step" where
  "complete v stk =
     (case stk of [] \<Rightarrow> Done v True
      | FArr vs # fs \<Rightarrow> Next EndValue (FArr (v # vs) # fs)
      | FMem ms k # fs \<Rightarrow> Next EndValue (FObj ((k, v) # ms) # fs)
      | FObj ms # fs \<Rightarrow> Bad)"

definition begin_value :: "rune \<Rightarrow> frame list \<Rightarrow> step" where
  "begin_value c stk =
     (if json_space c then Next BeginValue stk
      else if c = 123 then push (FObj []) BeginKeyOrEmpty stk
      else if c = 91 then push (FArr []) BeginValueOrEmpty stk
      else if c = 34 then Next (InString False []) stk
      else if c = 45 then Next (InNumber NNeg [c]) stk
      else if c = 48 then Next (InNumber NZero [c]) stk
      else if is_digit c then Next (InNumber NInt [c]) stk
      else if c = 116 then Next (InLiteral (asc ''rue'') (JBool True)) stk
      else if c = 102 then Next (InLiteral (asc ''alse'') (JBool False)) stk
      else if c = 110 then Next (InLiteral (asc ''ull'') JNull) stk
      else Bad)"

definition begin_key :: "lex \<Rightarrow> rune \<Rightarrow> frame list \<Rightarrow> step" where
  "begin_key l c stk =
     (if json_space c then Next l stk
      else if c = 34 then Next (InString True []) stk else Bad)"

definition end_value :: "rune \<Rightarrow> frame list \<Rightarrow> step" where
  "end_value c stk =
     (if json_space c then Next EndValue stk
      else case stk of
        FArr vs # fs \<Rightarrow>
          (if c = 44 then Next BeginValue stk
           else if c = 93 then complete (JArr (rev vs)) fs else Bad)
      | FObj ms # fs \<Rightarrow>
          (if c = 44 then Next BeginKey stk
           else if c = 125 then complete (JObj (rev ms)) fs else Bad)
      | _ \<Rightarrow> Bad)"

definition end_string :: "bool \<Rightarrow> rune list \<Rightarrow> frame list \<Rightarrow> step" where
  "end_string key acc stk =
     (case unquote (rev acc) of None \<Rightarrow> Bad
      | Some s \<Rightarrow>
        (if key then (case stk of FObj ms # fs \<Rightarrow> Next EndKey (FMem ms s # fs) | _ \<Rightarrow> Bad)
         else complete (JStr s) stk))"

text \<open>Where a number may stop, the rune after it is read in the state behind the number.\<close>

definition end_number :: "rune list \<Rightarrow> rune \<Rightarrow> frame list \<Rightarrow> step" where
  "end_number acc c stk =
     (case complete (JNum (rev acc)) stk of
        Done v _ \<Rightarrow> Done v False
      | Next _ stk' \<Rightarrow> end_value c stk'
      | Bad \<Rightarrow> Bad)"

definition number_step :: "num_state \<Rightarrow> rune list \<Rightarrow> rune \<Rightarrow> frame list \<Rightarrow> step" where
  "number_step n acc c stk =
     (case n of
        NNeg \<Rightarrow> (if c = 48 then Next (InNumber NZero (c # acc)) stk
                 else if is_digit c then Next (InNumber NInt (c # acc)) stk else Bad)
      | NInt \<Rightarrow> (if is_digit c then Next (InNumber NInt (c # acc)) stk
                 else if c = 46 then Next (InNumber NDot (c # acc)) stk
                 else if c = 101 \<or> c = 69 then Next (InNumber NExp (c # acc)) stk
                 else end_number acc c stk)
      | NZero \<Rightarrow> (if c = 46 then Next (InNumber NDot (c # acc)) stk
                  else if c = 101 \<or> c = 69 then Next (InNumber NExp (c # acc)) stk
                  else end_number acc c stk)
      | NDot \<Rightarrow> (if is_digit c then Next (InNumber NFrac (c # acc)) stk else Bad)
      | NFrac \<Rightarrow> (if is_digit c then Next (InNumber NFrac (c # acc)) stk
                  else if c = 101 \<or> c = 69 then Next (InNumber NExp (c # acc)) stk
                  else end_number acc c stk)
      | NExp \<Rightarrow> (if c = 43 \<or> c = 45 then Next (InNumber NSign (c # acc)) stk
                 else if is_digit c then Next (InNumber NDigits (c # acc)) stk else Bad)
      | NSign \<Rightarrow> (if is_digit c then Next (InNumber NDigits (c # acc)) stk else Bad)
      | NDigits \<Rightarrow> (if is_digit c then Next (InNumber NDigits (c # acc)) stk
                    else end_number acc c stk))"

fun scan_step :: "lex \<Rightarrow> rune \<Rightarrow> frame list \<Rightarrow> step" where
  "scan_step BeginValue c stk = begin_value c stk"
| "scan_step BeginValueOrEmpty c stk =
     (if json_space c then Next BeginValueOrEmpty stk
      else if c = 93 then end_value c stk else begin_value c stk)"
| "scan_step BeginKey c stk = begin_key BeginKey c stk"
| "scan_step BeginKeyOrEmpty c stk =
     (if c = 125 then end_value c stk else begin_key BeginKeyOrEmpty c stk)"
| "scan_step EndKey c stk =
     (if json_space c then Next EndKey stk else if c = 58 then Next BeginValue stk else Bad)"
| "scan_step EndValue c stk = end_value c stk"
| "scan_step (InString key acc) c stk =
     (if c = 34 then end_string key acc stk
      else if c = 92 then Next (InEscape key (c # acc)) stk
      else if c < 32 then Bad
      else Next (InString key (c # acc)) stk)"
| "scan_step (InEscape key acc) c stk =
     (if c = 117 then Next (InHex key (c # acc) 4) stk
      else if simple_escape c \<noteq> None then Next (InString key (c # acc)) stk else Bad)"
| "scan_step (InHex key acc n) c stk =
     (if hex_val c = None then Bad
      else if n \<le> 1 then Next (InString key (c # acc)) stk
      else Next (InHex key (c # acc) (n - 1)) stk)"
| "scan_step (InLiteral l v) c stk =
     (case l of [] \<Rightarrow> Bad
      | x # xs \<Rightarrow> if c \<noteq> x then Bad else if xs = [] then complete v stk else Next (InLiteral xs v) stk)"
| "scan_step (InNumber n acc) c stk = number_step n acc c stk"

text \<open>
  \<open>Decoder.Decode\<close> reads the first complete value and leaves the rest of the text; at the end
  of the text a number may still be closed, as if by a space.
\<close>

fun scan :: "lex \<Rightarrow> frame list \<Rightarrow> rune list \<Rightarrow> (json \<times> rune list) option" where
  "scan l stk [] = (case scan_step l 32 stk of Done v _ \<Rightarrow> Some (v, []) | _ \<Rightarrow> None)"
| "scan l stk (c # cs) =
     (case scan_step l c stk of
        Next l' stk' \<Rightarrow> scan l' stk' cs
      | Done v used \<Rightarrow> Some (v, if used then cs else c # cs)
      | Bad \<Rightarrow> None)"

definition decode_first :: "rune list \<Rightarrow> (json \<times> rune list) option" where
  "decode_first rs = scan BeginValue [] rs"

text \<open>\<open>json.Unmarshal\<close> (and \<open>json.Valid\<close>) want one value and nothing but space around it.\<close>

definition parse_json :: "rune list \<Rightarrow> json option" where
  "parse_json rs =
     (case decode_first rs of
        Some (v, rest) \<Rightarrow> if list_all json_space rest then Some v else None
      | None \<Rightarrow> None)"

section \<open>Encoding\<close>

fun print_json :: "json \<Rightarrow> rune list" where
  "print_json JNull = asc ''null''"
| "print_json (JBool b) = (if b then asc ''true'' else asc ''false'')"
| "print_json (JNum n) = n"
| "print_json (JStr s) = quote s"
| "print_json (JArr vs) = 91 # join [44] (map print_json vs) @ [93]"
| "print_json (JObj ms) =
     123 # join [44] (map (\<lambda>(k, v). quote k @ 58 # print_json v) ms) @ [125]"

section \<open>Decoding into Go variables\<close>

text \<open>
  Field names are compared exactly or up to folding. All names are ASCII. The decoder stops
  at nothing: it records the first mismatch and goes on, and returns it at the end, so any
  mismatch makes the whole decoding fail and its effects are dropped.
\<close>

definition field_is :: "string \<Rightarrow> rune list \<Rightarrow> bool" where
  "field_is name k \<longleftrightarrow> map fold_rune k = map fold_rune (asc name)"

definition dec_string :: "json \<Rightarrow> string \<Rightarrow> string option" where
  "dec_string v old = (case v of JNull \<Rightarrow> Some old | JStr s \<Rightarrow> Some (of_runes s) | _ \<Rightarrow> None)"

definition dec_bool :: "json \<Rightarrow> bool \<Rightarrow> bool option" where
  "dec_bool v old = (case v of JNull \<Rightarrow> Some old | JBool b \<Rightarrow> Some b | _ \<Rightarrow> None)"

definition dec_int :: "json \<Rightarrow> int \<Rightarrow> int option" where
  "dec_int v old = (case v of JNull \<Rightarrow> Some old | JNum n \<Rightarrow> atoi (of_runes n) | _ \<Rightarrow> None)"

definition dec_ptr :: "(json \<Rightarrow> 'a \<Rightarrow> 'a option) \<Rightarrow> 'a \<Rightarrow> json \<Rightarrow> 'a option \<Rightarrow> 'a option option" where
  "dec_ptr d zero v old =
     (case v of JNull \<Rightarrow> Some None
      | _ \<Rightarrow> map_option Some (d v (case old of None \<Rightarrow> zero | Some x \<Rightarrow> x)))"

text \<open>
  A slice: its length and every element its backing array has held. A second array for the
  same field is decoded over the elements of the first.
\<close>

type_synonym 'a slice = "'a list \<times> nat"

definition slice_list :: "'a slice \<Rightarrow> 'a list" where
  "slice_list s = take (snd s) (fst s)"

fun dec_elems :: "(json \<Rightarrow> 'a \<Rightarrow> 'a option) \<Rightarrow> 'a \<Rightarrow> json list \<Rightarrow> 'a list \<Rightarrow> 'a list option" where
  "dec_elems d zero [] old = Some old"
| "dec_elems d zero (v # vs) old =
     (case d v (case old of [] \<Rightarrow> zero | x # _ \<Rightarrow> x) of None \<Rightarrow> None
      | Some y \<Rightarrow> map_option ((#) y) (dec_elems d zero vs (tl old)))"

definition dec_slice :: "(json \<Rightarrow> 'a \<Rightarrow> 'a option) \<Rightarrow> 'a \<Rightarrow> json \<Rightarrow> 'a slice \<Rightarrow> 'a slice option" where
  "dec_slice d zero v old =
     (case v of JNull \<Rightarrow> Some ([], 0)
      | JArr vs \<Rightarrow> (if vs = [] then Some ([], 0)
          else map_option (\<lambda>ys. (ys, length vs)) (dec_elems d zero vs (fst old)))
      | _ \<Rightarrow> None)"

text \<open>
  A struct: the members in order, each handed to the field it names. \<open>set\<close> gives the field's
  decoder, or none for a name the struct does not have, which \<open>DisallowUnknownFields\<close> makes
  an error (\<open>strict\<close>).
\<close>

fun dec_members :: "bool \<Rightarrow> (rune list \<Rightarrow> (json \<Rightarrow> 'a \<Rightarrow> 'a option) option) \<Rightarrow>
    (rune list \<times> json) list \<Rightarrow> 'a \<Rightarrow> 'a option" where
  "dec_members strict fld [] x = Some x"
| "dec_members strict fld ((k, v) # ms) x =
     (case fld k of
        None \<Rightarrow> if strict then None else dec_members strict fld ms x
      | Some d \<Rightarrow> (case d v x of None \<Rightarrow> None | Some y \<Rightarrow> dec_members strict fld ms y))"

definition dec_struct :: "bool \<Rightarrow> (rune list \<Rightarrow> (json \<Rightarrow> 'a \<Rightarrow> 'a option) option) \<Rightarrow>
    json \<Rightarrow> 'a \<Rightarrow> 'a option" where
  "dec_struct strict fld v x =
     (case v of JNull \<Rightarrow> Some x | JObj ms \<Rightarrow> dec_members strict fld ms x | _ \<Rightarrow> None)"

section \<open>Round trip: what is printed scans back\<close>

subsection \<open>Strings\<close>

lemma hex_val_digit: "n < 16 \<Longrightarrow> hex_val (hex_digit n) = Some n"
  by (auto simp: hex_val_def hex_digit_def)

lemma hex_digit_bounds: "n < 16 \<Longrightarrow> 48 \<le> hex_digit n \<and> hex_digit n \<le> 102"
  by (auto simp: hex_digit_def)

lemma getu4_hex:
  assumes "r < 65536"
  shows "getu4 (hex_digit (r div 4096 mod 16) # hex_digit (r div 256 mod 16) #
           hex_digit (r div 16 mod 16) # hex_digit (r mod 16) # xs) = Some r"
proof -
  define q where "q = r div 16"
  define p where "p = q div 16"
  have e: "r div 256 = p" "r div 4096 = p div 16"
    by (simp_all add: p_def q_def div_mult2_eq [symmetric])
  have lt: "p div 16 < 16" using assms by (simp add: e(2) [symmetric])
  have "r = q * 16 + r mod 16" "q = p * 16 + q mod 16" "p = p div 16 * 16 + p mod 16"
    by (simp_all add: p_def q_def)
  then have "p div 16 * 4096 + p mod 16 * 256 + q mod 16 * 16 + r mod 16 = r"
    by linarith
  then show ?thesis
    unfolding e q_def [symmetric] using lt by (simp add: getu4_def hex_val_digit)
qed

lemma unquote_esc_rune:
  assumes "valid_rune r"
  shows "unquote (esc_rune r @ xs) = map_option ((#) r) (unquote xs)"
proof (cases "esc_rune r = u_escape r")
  case True
  then have lt: "r < 65536" "\<not> surrogate r"
    by (auto simp: esc_rune_def u_escape_def surrogate_def split: if_splits)
  show ?thesis
    unfolding True using lt getu4_hex [OF lt(1), of xs] by (simp add: u_escape_def)
next
  case False
  then show ?thesis
    by (auto simp: esc_rune_def simple_escape_def)
qed

lemma unquote_escaped:
  "\<forall>r \<in> set rs. valid_rune r \<Longrightarrow> unquote (concat (map esc_rune rs)) = Some rs"
  by (induction rs) (simp_all add: unquote_esc_rune)

lemma scan_esc_rune:
  "scan (InString key acc) stk (esc_rune r @ xs) =
   scan (InString key (rev (esc_rune r) @ acc)) stk xs"
proof (cases "esc_rune r = u_escape r")
  case True
  then show ?thesis
    by (simp add: u_escape_def hex_val_digit)
next
  case False
  then show ?thesis
    by (auto simp: esc_rune_def simple_escape_def)
qed

lemma scan_escaped:
  "scan (InString key acc) stk (concat (map esc_rune rs) @ xs) =
   scan (InString key (rev (concat (map esc_rune rs)) @ acc)) stk xs"
proof (induction rs arbitrary: acc)
  case (Cons r rs)
  then show ?case by (simp add: scan_esc_rune)
qed simp

fun resume :: "step \<Rightarrow> rune list \<Rightarrow> (json \<times> rune list) option" where
  "resume (Next l stk) rest = scan l stk rest"
| "resume (Done v _) rest = Some (v, rest)"
| "resume Bad rest = None"

lemma complete_not_unused: "complete v stk \<noteq> Done v' False"
  by (auto simp: complete_def split: list.splits frame.splits)

lemma scan_string_end:
  assumes "\<forall>r \<in> set rs. valid_rune r"
  shows "scan (InString False []) stk (concat (map esc_rune rs) @ 34 # xs) =
         resume (complete (JStr rs) stk) xs"
proof -
  have "end_string False (rev (concat (map esc_rune rs))) stk = complete (JStr rs) stk"
    using unquote_escaped [OF assms] by (simp add: end_string_def)
  then show ?thesis
    using complete_not_unused [of "JStr rs" stk]
    by (auto simp: scan_escaped split: step.splits)
qed

lemma scan_key_end:
  assumes "\<forall>r \<in> set rs. valid_rune r"
  shows "scan (InString True []) (FObj ms # stk) (concat (map esc_rune rs) @ 34 # 58 # xs) =
         scan BeginValue (FMem ms rs # stk) xs"
  using unquote_escaped [OF assms]
  by (simp add: scan_escaped end_string_def json_space_def)

subsection \<open>Numbers\<close>

text \<open>The literals \<open>strconv.AppendInt\<close> writes.\<close>

definition nat_literal :: "rune list \<Rightarrow> bool" where
  "nat_literal ds \<longleftrightarrow> ds \<noteq> [] \<and> list_all is_digit ds \<and> (hd ds = 48 \<longrightarrow> tl ds = [])"

definition int_literal :: "rune list \<Rightarrow> bool" where
  "int_literal ds \<longleftrightarrow> nat_literal ds \<or> (\<exists>ns. ds = 45 # ns \<and> nat_literal ns)"

text \<open>What may follow a number so that it ends there.\<close>

definition delimited :: "rune list \<Rightarrow> bool" where
  "delimited rest \<longleftrightarrow>
     (case rest of [] \<Rightarrow> True
      | c # _ \<Rightarrow> \<not> is_digit c \<and> c \<noteq> 46 \<and> c \<noteq> 101 \<and> c \<noteq> 69)"

lemma complete_Next: "complete v stk = Next l stk' \<Longrightarrow> l = EndValue"
  by (auto simp: complete_def split: list.splits frame.splits)

lemma end_number_scan:
  assumes "delimited rest" "n = NInt \<or> n = NZero"
  shows "scan (InNumber n acc) stk rest = resume (complete (JNum (rev acc)) stk) rest"
proof -
  have stop: "number_step n acc c stk = end_number acc c stk"
    if "\<not> is_digit c" "c \<noteq> 46" "c \<noteq> 101" "c \<noteq> 69" for c
    using that assms(2) by (auto simp: number_step_def)
  have sp: "\<not> is_digit 32" "json_space 32" by (simp_all add: is_digit_def json_space_def)
  show ?thesis
  proof (cases "complete (JNum (rev acc)) stk")
    case (Next l stk')
    with assms(1) sp show ?thesis
      by (cases rest) (simp_all add: stop end_number_def complete_Next [OF Next] end_value_def
          delimited_def)
  next
    case (Done v u)
    with assms(1) sp show ?thesis
      by (cases rest) (simp_all add: stop end_number_def delimited_def)
  next
    case Bad
    with assms(1) sp show ?thesis
      by (cases rest) (simp_all add: stop end_number_def delimited_def)
  qed
qed

lemma scan_digits:
  "list_all is_digit ds \<Longrightarrow>
   scan (InNumber NInt acc) stk (ds @ rest) = scan (InNumber NInt (rev ds @ acc)) stk rest"
  by (induction ds arbitrary: acc) (auto simp: number_step_def)

lemma scan_nat_literal:
  assumes "nat_literal ds" "delimited rest"
  shows "scan BeginValue stk (ds @ rest) = resume (complete (JNum ds) stk) rest"
    and "scan (InNumber NNeg acc) stk (ds @ rest) = resume (complete (JNum (rev acc @ ds)) stk) rest"
proof -
  obtain d ds' where d: "ds = d # ds'" "is_digit d" "list_all is_digit ds'" "d = 48 \<Longrightarrow> ds' = []"
    using assms(1) by (cases ds) (auto simp: nat_literal_def)
  show "scan BeginValue stk (ds @ rest) = resume (complete (JNum ds) stk) rest"
    using d end_number_scan [OF assms(2)]
    by (cases "d = 48") (auto simp: begin_value_def json_space_def scan_digits is_digit_def)
  show "scan (InNumber NNeg acc) stk (ds @ rest) = resume (complete (JNum (rev acc @ ds)) stk) rest"
    using d end_number_scan [OF assms(2)]
    by (cases "d = 48") (auto simp: number_step_def scan_digits)
qed

lemma scan_int_literal:
  assumes "int_literal ds" "delimited rest"
  shows "scan BeginValue stk (ds @ rest) = resume (complete (JNum ds) stk) rest"
  using assms scan_nat_literal [of _ rest]
  by (auto simp: int_literal_def begin_value_def json_space_def)

subsection \<open>Values\<close>

text \<open>
  The values \<open>json.Marshal\<close> produces from the program's structs: integer literals, valid runes,
  nested at most \<open>n\<close> deep.
\<close>

fun printable :: "nat \<Rightarrow> json \<Rightarrow> bool" where
  "printable n JNull = True"
| "printable n (JBool b) = True"
| "printable n (JNum ds) = int_literal ds"
| "printable n (JStr s) = (\<forall>r \<in> set s. valid_rune r)"
| "printable n (JArr vs) = (0 < n \<and> (\<forall>v \<in> set vs. printable (n - 1) v))"
| "printable n (JObj ms) =
     (0 < n \<and> (\<forall>(k, v) \<in> set ms. (\<forall>r \<in> set k. valid_rune r) \<and> printable (n - 1) v))"

lemma printable_mono: "printable n v \<Longrightarrow> n \<le> m \<Longrightarrow> printable m v"
proof (induction n v arbitrary: m rule: printable.induct)
  case (5 n vs)
  then show ?case by (auto intro: "5.IH")
next
  case (6 n ms)
  have "printable (m - 1) v" if "(k, v) \<in> set ms" for k v
    using 6 that by fastforce
  then show ?case using 6 by auto
qed auto

definition scans_back :: "json \<Rightarrow> bool" where
  "scans_back v \<longleftrightarrow> (\<forall>n stk rest. printable n v \<longrightarrow> length stk + n \<le> max_nesting_depth \<longrightarrow>
     delimited rest \<longrightarrow> scan BeginValue stk (print_json v @ rest) = resume (complete v stk) rest)"

lemma scans_backD:
  "scans_back v \<Longrightarrow> printable n v \<Longrightarrow> length stk + n \<le> max_nesting_depth \<Longrightarrow> delimited rest \<Longrightarrow>
   scan BeginValue stk (print_json v @ rest) = resume (complete v stk) rest"
  by (simp add: scans_back_def)

text \<open>A printed value starts with neither space nor a closing bracket.\<close>

lemma print_json_head:
  assumes "printable n v"
  obtains c cs where "print_json v = c # cs" "\<not> json_space c" "c \<noteq> 93" "c \<noteq> 125"
proof -
  have "\<exists>c cs. print_json v = c # cs \<and> \<not> json_space c \<and> c \<noteq> 93 \<and> c \<noteq> 125"
    using assms
    by (cases v) (auto simp: asc_def quote_def json_space_def int_literal_def nat_literal_def
        is_digit_def neq_Nil_conv)
  then show ?thesis using that by blast
qed

lemma delimited_sep: "delimited (44 # xs)" "delimited (93 # xs)" "delimited (125 # xs)" "delimited []"
  by (simp_all add: delimited_def is_digit_def)

text \<open>The elements of an array, after its opening bracket and after each comma.\<close>

lemma scan_elements:
  assumes "vs \<noteq> []" "\<forall>v \<in> set vs. scans_back v \<and> printable n v"
    and "length (FArr acc # stk) + n \<le> max_nesting_depth"
  shows "scan BeginValue (FArr acc # stk) (join [44] (map print_json vs) @ 93 # rest) =
         resume (complete (JArr (rev acc @ vs)) stk) rest"
  using assms
proof (induction vs arbitrary: acc rule: list_nonempty_induct)
  case (single v)
  have "scan BeginValue (FArr acc # stk) (print_json v @ 93 # rest) =
      scan EndValue (FArr (v # acc) # stk) (93 # rest)"
    using scans_backD [of v n "FArr acc # stk" "93 # rest"] single
    by (simp add: delimited_sep complete_def)
  then show ?case
    using complete_not_unused [of "JArr (rev acc @ [v])" stk]
    by (auto simp: end_value_def json_space_def split: step.splits)
next
  case (cons v vs)
  have "scan BeginValue (FArr acc # stk) (print_json v @ 44 # join [44] (map print_json vs) @ 93 # rest) =
      scan BeginValue (FArr (v # acc) # stk) (join [44] (map print_json vs) @ 93 # rest)"
    using scans_backD [of v n "FArr acc # stk" "44 # join [44] (map print_json vs) @ 93 # rest"] cons.prems
    by (simp add: delimited_sep complete_def end_value_def json_space_def)
  then show ?case
    using cons.IH [of "v # acc"] cons by (simp add: join_Cons)
qed

abbreviation print_member :: "rune list \<times> json \<Rightarrow> rune list" where
  "print_member \<equiv> \<lambda>(k, v). quote k @ 58 # print_json v"

lemma scan_members:
  assumes "ms \<noteq> []" "\<forall>(k, v) \<in> set ms. (\<forall>r \<in> set k. valid_rune r) \<and> scans_back v \<and> printable n v"
    and "length (FObj acc # stk) + n \<le> max_nesting_depth" "l = BeginKey \<or> l = BeginKeyOrEmpty"
  shows "scan l (FObj acc # stk) (join [44] (map print_member ms) @ 125 # rest) =
         resume (complete (JObj (rev acc @ ms)) stk) rest"
  using assms
proof (induction ms arbitrary: acc l rule: list_nonempty_induct)
  case (single m)
  obtain k v where m: "m = (k, v)" by (cases m)
  have "scan l (FObj acc # stk) (print_member m @ 125 # rest) =
      scan BeginValue (FMem acc k # stk) (print_json v @ 125 # rest)"
    using single.prems scan_key_end [of k acc stk "print_json v @ 125 # rest"]
    by (auto simp: m quote_def begin_key_def json_space_def)
  also have "\<dots> = scan EndValue (FObj ((k, v) # acc) # stk) (125 # rest)"
    using scans_backD [of v n "FMem acc k # stk" "125 # rest"] single.prems
    by (simp add: m delimited_sep complete_def)
  finally show ?case
    using complete_not_unused [of "JObj (rev acc @ [m])" stk]
    by (auto simp: m end_value_def json_space_def split: step.splits)
next
  case (cons m ms)
  obtain k v where m: "m = (k, v)" by (cases m)
  let ?rest = "44 # join [44] (map print_member ms) @ 125 # rest"
  have "scan l (FObj acc # stk) (print_member m @ ?rest) =
      scan BeginValue (FMem acc k # stk) (print_json v @ ?rest)"
    using cons.prems scan_key_end [of k acc stk "print_json v @ ?rest"]
    by (auto simp: m quote_def begin_key_def json_space_def)
  also have "\<dots> = scan BeginKey (FObj ((k, v) # acc) # stk) (join [44] (map print_member ms) @ 125 # rest)"
    using scans_backD [of v n "FMem acc k # stk" ?rest] cons.prems
    by (simp add: m delimited_sep complete_def end_value_def json_space_def)
  finally show ?case
    using cons.IH [of "(k, v) # acc" BeginKey] cons m by (simp add: join_Cons)
qed

lemma complete_resume_done:
  "(case complete v stk of Next l' stk' \<Rightarrow> scan l' stk' cs
      | Done v' used \<Rightarrow> Some (v', if used then cs else c # cs) | Bad \<Rightarrow> None) = resume (complete v stk) cs"
  using complete_not_unused [of v stk] by (auto split: step.splits)

theorem print_scans_back: "scans_back v"
proof (induction v)
  case JNull
  show ?case
    by (simp add: scans_back_def asc_def begin_value_def json_space_def is_digit_def complete_resume_done)
next
  case (JBool b)
  show ?case
    by (simp add: scans_back_def asc_def begin_value_def json_space_def is_digit_def complete_resume_done)
next
  case (JNum ds)
  show ?case by (simp add: scans_back_def scan_int_literal)
next
  case (JStr s)
  show ?case
    by (simp add: scans_back_def quote_def begin_value_def json_space_def scan_string_end)
next
  case (JArr vs)
  show ?case
    unfolding scans_back_def
  proof (intro allI impI)
    fix n and stk :: "frame list" and rest
    assume p: "printable n (JArr vs)" and d: "length stk + n \<le> max_nesting_depth"
    then have n: "0 < n" "length stk < max_nesting_depth" by auto
    have open_bracket: "begin_value 91 stk = Next BeginValueOrEmpty (FArr [] # stk)"
      using n by (simp add: begin_value_def json_space_def push_def)
    show "scan BeginValue stk (print_json (JArr vs) @ rest) = resume (complete (JArr vs) stk) rest"
    proof (cases "vs = []")
      case True
      then show ?thesis
        by (simp add: open_bracket json_space_def end_value_def complete_resume_done)
    next
      case False
      then have "printable (n - 1) (hd vs)" using p by simp
      then obtain c cs where "print_json (hd vs) = c # cs" "\<not> json_space c" "c \<noteq> 93"
        by (rule print_json_head)
      moreover from this(1) obtain ds where "join [44] (map print_json vs) = c # ds"
        using join_head [of "map print_json vs"] False by (auto simp: hd_map)
      ultimately have "scan BeginValueOrEmpty (FArr [] # stk) (join [44] (map print_json vs) @ 93 # rest) =
          scan BeginValue (FArr [] # stk) (join [44] (map print_json vs) @ 93 # rest)"
        by simp
      then show ?thesis
        using False JArr p d n scan_elements [of vs "n - 1" "[]" stk rest] by (simp add: open_bracket)
    qed
  qed
next
  case (JObj ms)
  have IH: "scans_back v" if "(k, v) \<in> set ms" for k v
    using JObj [of "(k, v)" v] that by simp
  show ?case
    unfolding scans_back_def
  proof (intro allI impI)
    fix n and stk :: "frame list" and rest
    assume p: "printable n (JObj ms)" and d: "length stk + n \<le> max_nesting_depth"
    then have n: "0 < n" "length stk < max_nesting_depth" by auto
    have open_brace: "begin_value 123 stk = Next BeginKeyOrEmpty (FObj [] # stk)"
      using n by (simp add: begin_value_def json_space_def push_def)
    show "scan BeginValue stk (print_json (JObj ms) @ rest) = resume (complete (JObj ms) stk) rest"
    proof (cases "ms = []")
      case True
      then show ?thesis
        by (simp add: open_brace json_space_def end_value_def complete_resume_done)
    next
      case False
      have "\<forall>(k, v) \<in> set ms. (\<forall>r \<in> set k. valid_rune r) \<and> scans_back v \<and> printable (n - 1) v"
        using p IH by auto
      then show ?thesis
        using False d n scan_members [of ms "n - 1" "[]" stk BeginKeyOrEmpty rest]
        by (simp add: open_brace)
    qed
  qed
qed

corollary decode_first_print:
  "printable max_nesting_depth v \<Longrightarrow> delimited rest \<Longrightarrow> decode_first (print_json v @ rest) = Some (v, rest)"
  using scans_backD [OF print_scans_back, of max_nesting_depth v "[]" rest]
  by (simp add: decode_first_def complete_def)

corollary parse_print:
  "printable max_nesting_depth v \<Longrightarrow> parse_json (print_json v) = Some v"
  using decode_first_print [of v "[]"] by (simp add: parse_json_def delimited_sep)

lemma itoa_literal: "int_literal (asc (itoa i))"
proof -
  have nat: "nat_literal (asc (show_nat n))" for n
  proof -
    have "list_all is_digit (asc (show_nat n))"
      using show_nat_digits by (auto simp: asc_def list_all_iff)
    moreover have "tl (asc (show_nat n)) = []" if h: "hd (asc (show_nat n)) = 48"
    proof -
      have "hd (asc (show_nat n)) = of_char (hd (show_nat n))" by (simp add: asc_def hd_map)
      then have "(of_char (hd (show_nat n)) :: nat) = of_char (digit 0)" using h by (simp add: of_char_digit)
      then have "n = 0" using hd_show_nat by simp
      then show ?thesis by (simp add: asc_def show_nat.simps [of 0])
    qed
    ultimately show ?thesis by (simp add: nat_literal_def asc_def)
  qed
  show ?thesis
  proof (cases "i < 0")
    case True
    then have "asc (itoa i) = 45 # asc (show_nat (nat (- i)))" by (simp add: asc_def itoa_def)
    then show ?thesis using nat by (auto simp: int_literal_def)
  next
    case False
    then show ?thesis using nat by (simp add: int_literal_def itoa_def)
  qed
qed

section \<open>Marshalling\<close>

definition marshal :: "json \<Rightarrow> string" where
  "marshal v = of_runes (print_json v)"

lemma small_valid: "r < 55296 \<Longrightarrow> valid_rune r"
  by (simp add: valid_rune_def)

lemma u_escape_valid: "x \<in> set (u_escape r) \<Longrightarrow> valid_rune x"
proof -
  have "hex_digit (k mod 16) < 55296" for k
    using hex_digit_bounds [of "k mod 16"] by simp
  then show "x \<in> set (u_escape r) \<Longrightarrow> valid_rune x"
    unfolding u_escape_def by (auto intro!: small_valid simp del: One_nat_def)
qed

lemma esc_rune_valid: "valid_rune r \<Longrightarrow> x \<in> set (esc_rune r) \<Longrightarrow> valid_rune x"
  unfolding esc_rune_def by (auto split: if_splits intro: small_valid dest: u_escape_valid)

lemma quote_valid: "\<forall>r \<in> set rs. valid_rune r \<Longrightarrow> \<forall>r \<in> set (quote rs). valid_rune r"
  using esc_rune_valid by (auto simp: quote_def valid_rune_def)

lemma asc_valid: "\<forall>r \<in> set (asc s). valid_rune r"
proof
  fix r
  assume "r \<in> set (asc s)"
  then obtain c where "r = of_char c" by (auto simp: asc_def)
  then show "valid_rune r" using of_char_less_256 [of c] by (intro small_valid) linarith
qed

lemma digits_valid: "list_all is_digit ds \<Longrightarrow> \<forall>r \<in> set ds. valid_rune r"
  by (auto simp: list_all_iff is_digit_def intro!: small_valid)

lemma literal_valid: "int_literal ds \<Longrightarrow> \<forall>r \<in> set ds. valid_rune r"
  using digits_valid small_valid [of 45] by (auto simp: int_literal_def nat_literal_def)

lemma join_all: "\<forall>x \<in> set sep. Q x \<Longrightarrow> \<forall>xs \<in> set xss. \<forall>x \<in> set xs. Q x \<Longrightarrow> \<forall>x \<in> set (join sep xss). Q x"
  using set_join [of sep xss] by fastforce

lemma print_json_valid: "printable n v \<Longrightarrow> \<forall>r \<in> set (print_json v). valid_rune r"
proof (induction n v rule: printable.induct)
  case (5 n vs)
  then have "\<forall>xs \<in> set (map print_json vs). \<forall>x \<in> set xs. valid_rune x" by auto
  then have "\<forall>x \<in> set (join [44] (map print_json vs)). valid_rune x"
    by (intro join_all) (simp_all add: valid_rune_def)
  then show ?case by (auto simp: valid_rune_def)
next
  case (6 n ms)
  have "\<forall>x \<in> set (quote k @ 58 # print_json v). valid_rune x" if "(k, v) \<in> set ms" for k v
    using 6 that quote_valid [of k] by (fastforce simp: valid_rune_def)
  then have "\<forall>xs \<in> set (map (\<lambda>(k, v). quote k @ 58 # print_json v) ms). \<forall>x \<in> set xs. valid_rune x"
    by auto
  then have "\<forall>x \<in> set (join [44] (map (\<lambda>(k, v). quote k @ 58 # print_json v) ms)). valid_rune x"
    by (intro join_all) (simp_all add: valid_rune_def)
  then show ?case by (auto simp: valid_rune_def)
qed (simp_all add: asc_valid literal_valid quote_valid)

lemma to_runes_marshal: "printable n v \<Longrightarrow> to_runes (marshal v) = print_json v"
  unfolding marshal_def by (intro to_runes_of_runes print_json_valid)

lemma decode_first_marshal:
  "printable max_nesting_depth v \<Longrightarrow> decode_first (to_runes (marshal v)) = Some (v, [])"
  using decode_first_print [of v "[]"] by (simp add: to_runes_marshal delimited_sep)

lemma parse_marshal: "printable max_nesting_depth v \<Longrightarrow> parse_json (to_runes (marshal v)) = Some v"
  by (simp add: to_runes_marshal parse_print)

text \<open>What is decoded where it was encoded.\<close>

lemma dec_string_str: "valid_utf8 s \<Longrightarrow> dec_string (JStr (to_runes s)) old = Some s"
  by (simp add: dec_string_def valid_utf8_def)

lemma dec_int_num: "int_ok i \<Longrightarrow> dec_int (JNum (asc (itoa i))) old = Some i"
  by (simp add: dec_int_def of_runes_asc itoa_ascii atoi_itoa)

lemma dec_elems_map:
  "\<forall>x \<in> set xs. d (e x) zero = Some x \<Longrightarrow> dec_elems d zero (map e xs) [] = Some xs"
  by (induction xs) auto

lemma dec_slice_map:
  "\<forall>x \<in> set xs. d (e x) zero = Some x \<Longrightarrow> dec_slice d zero (JArr (map e xs)) ([], 0) = Some (xs, length xs)"
  by (cases xs) (auto simp: dec_slice_def dec_elems_map)

lemma dec_elems_only:
  assumes "\<And>x y. d (e x) zero = Some y \<Longrightarrow> y = h x"
  shows "dec_elems d zero (map e xs) [] = Some ys \<Longrightarrow> ys = map h xs"
  using assms by (induction xs arbitrary: ys) (auto split: option.splits)

lemma dec_slice_only:
  assumes "dec_slice d zero (JArr (map e xs)) ([], 0) = Some ys" "\<And>x y. d (e x) zero = Some y \<Longrightarrow> y = h x"
  shows "slice_list ys = map h xs"
proof (cases "xs = []")
  case True
  then show ?thesis using assms(1) by (auto simp: dec_slice_def slice_list_def)
next
  case False
  then obtain zs where zs: "ys = (zs, length xs)" "dec_elems d zero (map e xs) [] = Some zs"
    using assms(1) by (auto simp: dec_slice_def)
  have "zs = map h xs" using zs(2) by (rule dec_elems_only [rotated]) (rule assms(2))
  then show ?thesis using zs(1) by (simp add: slice_list_def)
qed

end
