(* ===== verification/Intent.thy ===== *)
theory Intent
  imports GoJson
begin

text \<open>
  The contract between the agent and the executor (\<open>internal/intent/intent.go\<close>): envelopes and
  their payloads, which carry content, and grants, which carry the targeting. Kinds, scopes,
  verdicts and token scopes are strings in the source, so any string can arrive; the constants
  keep the source's names. A time is the number of nanoseconds since the epoch.
\<close>

type_synonym go_time = int

section \<open>Kinds, verdicts, scopes\<close>

definition SchemaVersion :: int where
  "SchemaVersion = 2"

definition KindOpenPR :: string where [string_consts]: "KindOpenPR = ''open_pr''"
definition KindUpdatePR :: string where [string_consts]: "KindUpdatePR = ''update_pr''"
definition KindPostReview :: string where [string_consts]: "KindPostReview = ''post_review''"
definition KindPostComment :: string where [string_consts]: "KindPostComment = ''post_comment''"
definition KindSetLabels :: string where [string_consts]: "KindSetLabels = ''set_labels''"

definition AllKinds :: "string list" where
  "AllKinds = [KindOpenPR, KindUpdatePR, KindPostReview, KindPostComment, KindSetLabels]"

definition VerdictComment :: string where [string_consts]: "VerdictComment = ''comment''"
definition VerdictRequestChanges :: string where
  [string_consts]: "VerdictRequestChanges = ''request_changes''"

definition ScopeIssue :: string where [string_consts]: "ScopeIssue = ''issue''"
definition ScopePullRequest :: string where [string_consts]: "ScopePullRequest = ''pull_request''"
definition ScopeScheduled :: string where [string_consts]: "ScopeScheduled = ''scheduled''"

definition TokenReadOnly :: string where [string_consts]: "TokenReadOnly = ''read_only''"
definition TokenIssuesWrite :: string where [string_consts]: "TokenIssuesWrite = ''issues_write''"
definition TokenContentsWrite :: string where
  [string_consts]: "TokenContentsWrite = ''contents_write''"

section \<open>Envelopes\<close>

record source =
  src_type :: string
  src_ref :: string

record envelope =
  env_schema :: int
  env_run :: string
  env_kind :: string
  env_payload :: string
  env_sources :: "source list"

section \<open>Payloads\<close>

record open_pr =
  op_title :: string
  op_body :: string
  op_draft :: bool

record update_pr =
  up_body :: "string option"
  up_draft :: "bool option"

record review_comment =
  rc_path :: string
  rc_line :: int
  rc_side :: string
  rc_body :: string
  rc_verified :: bool
  rc_evidence :: string

record post_review =
  pr_verdict :: string
  pr_summary :: string
  pr_comments :: "review_comment slice"

record post_comment =
  pc_body :: string

record set_labels =
  sl_add :: "string slice"
  sl_remove :: "string slice"

text \<open>What \<open>Validate\<close> hands on as \<open>any\<close> and the executor switches on.\<close>

datatype payload =
    POpenPR open_pr
  | PUpdatePR update_pr
  | PPostReview post_review
  | PPostComment post_comment
  | PSetLabels set_labels

definition zero_comment :: review_comment where
  "zero_comment = \<lparr>rc_path = [], rc_line = 0, rc_side = [], rc_body = [], rc_verified = False,
     rc_evidence = []\<rparr>"

definition review_comments :: "post_review \<Rightarrow> review_comment list" where
  "review_comments p = slice_list (pr_comments p)"

section \<open>Grants\<close>

record repo =
  repo_owner :: string
  repo_name :: string
  repo_account :: string

record scope =
  sc_kind :: string
  sc_number :: int
  sc_base_ref :: string
  sc_base_sha :: string
  sc_head_sha :: string

record limits =
  lim_intents :: int
  lim_files :: int
  lim_diff_lines :: int
  lim_body_bytes :: int
  lim_comments :: int
  lim_labels :: int

record grant =
  g_run :: string
  g_repo :: repo
  g_scope :: scope
  g_kinds :: "string list"
  g_token :: string
  g_limits :: limits
  g_manual :: bool
  g_denied :: "string list"
  g_issued :: go_time
  g_expires :: go_time

definition DefaultLimits :: limits where
  "DefaultLimits = \<lparr>lim_intents = 8, lim_files = 40, lim_diff_lines = 2000,
     lim_body_bytes = 16 * 2 ^ 10, lim_comments = 25, lim_labels = 5\<rparr>"

section \<open>Field decoders\<close>

text \<open>A struct field: decode into it, keep the other fields.\<close>

definition into :: "('a \<Rightarrow> 'f) \<Rightarrow> ('f \<Rightarrow> 'a \<Rightarrow> 'a) \<Rightarrow> (json \<Rightarrow> 'f \<Rightarrow> 'f option) \<Rightarrow>
    json \<Rightarrow> 'a \<Rightarrow> 'a option" where
  "into sel upd d v x = map_option (\<lambda>f. upd f x) (d v (sel x))"

definition open_pr_field :: "rune list \<Rightarrow> (json \<Rightarrow> open_pr \<Rightarrow> open_pr option) option" where
  "open_pr_field k =
     (if field_is ''title'' k then Some (into op_title (\<lambda>f. op_title_update (\<lambda>_. f)) dec_string)
      else if field_is ''body'' k then Some (into op_body (\<lambda>f. op_body_update (\<lambda>_. f)) dec_string)
      else if field_is ''draft'' k then Some (into op_draft (\<lambda>f. op_draft_update (\<lambda>_. f)) dec_bool)
      else None)"

definition update_pr_field :: "rune list \<Rightarrow> (json \<Rightarrow> update_pr \<Rightarrow> update_pr option) option" where
  "update_pr_field k =
     (if field_is ''body'' k then
        Some (into up_body (\<lambda>f. up_body_update (\<lambda>_. f)) (dec_ptr dec_string []))
      else if field_is ''draft'' k then
        Some (into up_draft (\<lambda>f. up_draft_update (\<lambda>_. f)) (dec_ptr dec_bool False))
      else None)"

definition comment_field :: "rune list \<Rightarrow> (json \<Rightarrow> review_comment \<Rightarrow> review_comment option) option" where
  "comment_field k =
     (if field_is ''path'' k then Some (into rc_path (\<lambda>f. rc_path_update (\<lambda>_. f)) dec_string)
      else if field_is ''line'' k then Some (into rc_line (\<lambda>f. rc_line_update (\<lambda>_. f)) dec_int)
      else if field_is ''side'' k then Some (into rc_side (\<lambda>f. rc_side_update (\<lambda>_. f)) dec_string)
      else if field_is ''body'' k then Some (into rc_body (\<lambda>f. rc_body_update (\<lambda>_. f)) dec_string)
      else if field_is ''verified'' k then
        Some (into rc_verified (\<lambda>f. rc_verified_update (\<lambda>_. f)) dec_bool)
      else if field_is ''evidence'' k then
        Some (into rc_evidence (\<lambda>f. rc_evidence_update (\<lambda>_. f)) dec_string)
      else None)"

definition post_review_field :: "rune list \<Rightarrow> (json \<Rightarrow> post_review \<Rightarrow> post_review option) option" where
  "post_review_field k =
     (if field_is ''verdict'' k then Some (into pr_verdict (\<lambda>f. pr_verdict_update (\<lambda>_. f)) dec_string)
      else if field_is ''summary'' k then
        Some (into pr_summary (\<lambda>f. pr_summary_update (\<lambda>_. f)) dec_string)
      else if field_is ''comments'' k then
        Some (into pr_comments (\<lambda>f. pr_comments_update (\<lambda>_. f))
          (dec_slice (dec_struct True comment_field) zero_comment))
      else None)"

definition post_comment_field :: "rune list \<Rightarrow> (json \<Rightarrow> post_comment \<Rightarrow> post_comment option) option" where
  "post_comment_field k =
     (if field_is ''body'' k then Some (into pc_body (\<lambda>f. pc_body_update (\<lambda>_. f)) dec_string)
      else None)"

definition set_labels_field :: "rune list \<Rightarrow> (json \<Rightarrow> set_labels \<Rightarrow> set_labels option) option" where
  "set_labels_field k =
     (if field_is ''add'' k then
        Some (into sl_add (\<lambda>f. sl_add_update (\<lambda>_. f)) (dec_slice dec_string []))
      else if field_is ''remove'' k then
        Some (into sl_remove (\<lambda>f. sl_remove_update (\<lambda>_. f)) (dec_slice dec_string []))
      else None)"

section \<open>Encoders\<close>

text \<open>
  \<open>json.Marshal\<close> of the payload structs: fields in order under their tags. Bytes that are not
  valid UTF-8 are encoded as the replacement rune.
\<close>

definition jstr :: "string \<Rightarrow> json" where
  "jstr s = JStr (to_runes s)"

definition jint :: "int \<Rightarrow> json" where
  "jint i = JNum (asc (itoa i))"

definition jstrs :: "string list \<Rightarrow> json" where
  "jstrs xs = JArr (map jstr xs)"

definition enc_open_pr :: "open_pr \<Rightarrow> json" where
  "enc_open_pr p = JObj [(asc ''title'', jstr (op_title p)), (asc ''body'', jstr (op_body p)),
     (asc ''draft'', JBool (op_draft p))]"

definition enc_comment :: "review_comment \<Rightarrow> json" where
  "enc_comment c = JObj ([(asc ''path'', jstr (rc_path c)), (asc ''line'', jint (rc_line c)),
     (asc ''side'', jstr (rc_side c)), (asc ''body'', jstr (rc_body c)),
     (asc ''verified'', JBool (rc_verified c))]
     @ (if rc_evidence c = [] then [] else [(asc ''evidence'', jstr (rc_evidence c))]))"

definition enc_post_review :: "post_review \<Rightarrow> json" where
  "enc_post_review p = JObj [(asc ''verdict'', jstr (pr_verdict p)),
     (asc ''summary'', jstr (pr_summary p)),
     (asc ''comments'', JArr (map enc_comment (review_comments p)))]"

definition enc_post_comment :: "post_comment \<Rightarrow> json" where
  "enc_post_comment p = JObj [(asc ''body'', jstr (pc_body p))]"

definition enc_repo :: "repo \<Rightarrow> json" where
  "enc_repo r = JObj [(asc ''owner'', jstr (repo_owner r)), (asc ''name'', jstr (repo_name r)),
     (asc ''account_id'', jstr (repo_account r))]"

definition enc_scope :: "scope \<Rightarrow> json" where
  "enc_scope s = JObj ([(asc ''kind'', jstr (sc_kind s))]
     @ (if sc_number s = 0 then [] else [(asc ''number'', jint (sc_number s))])
     @ [(asc ''base_ref'', jstr (sc_base_ref s)), (asc ''base_sha'', jstr (sc_base_sha s)),
        (asc ''head_sha'', jstr (sc_head_sha s))])"

end
