(* ===== verification/GoRegex.thy ===== *)
theory GoRegex
  imports GoText
begin

text \<open>
  The fragment of Go's \<open>regexp\<close> package that the program's nine patterns use, over runes.
  \<open>regexp\<close> documents its matches as the ones a backtracking engine would have found
  (leftmost, then first in the order of alternatives and greedy repetitions), so \<open>mt\<close> lists
  the ways a pattern can match at a position in exactly that order and the match is the head
  of the list. Repetition is over a character class, which is all the patterns need.
\<close>

section \<open>Patterns\<close>

datatype rx =
    Eps
  | Cls "rune \<Rightarrow> bool"
  | Seq rx rx
  | Alt rx rx
  | Rep "rune \<Rightarrow> bool" nat "nat option"   \<comment> \<open>\<open>[class]{lo,hi}\<close>, greedy\<close>
  | WordB                                  \<comment> \<open>\<open>\b\<close>, ASCII word boundary\<close>
  | BeginText
  | EndText
  | Grp nat rx                             \<comment> \<open>a numbered capture group\<close>

definition opt :: "rx \<Rightarrow> rx" where
  "opt r = Alt r Eps"

fun seqs :: "rx list \<Rightarrow> rx" where
  "seqs [] = Eps"
| "seqs (r # rs) = Seq r (seqs rs)"

definition lit :: "string \<Rightarrow> rx" where
  "lit s = seqs (map (\<lambda>c. Cls (\<lambda>r. r = of_char c)) s)"

text \<open>A literal under the \<open>(?i)\<close> flag.\<close>

definition ilit :: "string \<Rightarrow> rx" where
  "ilit s = seqs (map (\<lambda>c. Cls (\<lambda>r. fold_rune r = fold_rune (of_char c))) s)"

definition word_rune :: "rune \<Rightarrow> bool" where
  "word_rune r \<longleftrightarrow> is_alnum r \<or> r = 95"

text \<open>Go's \<open>\s\<close>.\<close>

definition rx_space :: "rune \<Rightarrow> bool" where
  "rx_space r \<longleftrightarrow> r = 9 \<or> r = 10 \<or> r = 12 \<or> r = 13 \<or> r = 32"

section \<open>Matching\<close>

text \<open>
  A position: the rune before it (none at the start of the text), the text after it, and the
  groups captured so far, the latest first.
\<close>

type_synonym captures = "(nat \<times> rune list) list"
type_synonym position = "rune option \<times> rune list \<times> captures"

definition is_word :: "rune option \<Rightarrow> bool" where
  "is_word pv = (case pv of None \<Rightarrow> False | Some r \<Rightarrow> word_rune r)"

definition head :: "rune list \<Rightarrow> rune option" where
  "head rs = (case rs of [] \<Rightarrow> None | r # _ \<Rightarrow> Some r)"

fun advance :: "nat \<Rightarrow> position \<Rightarrow> position" where
  "advance k (pv, rs, cs) =
     ((if take k rs = [] then pv else Some (last (take k rs))), drop k rs, cs)"

fun mt :: "rx \<Rightarrow> position \<Rightarrow> position list" where
  "mt Eps p = [p]"
| "mt (Cls c) (pv, rs, cs) =
     (case rs of [] \<Rightarrow> [] | r # rs' \<Rightarrow> if c r then [(Some r, rs', cs)] else [])"
| "mt (Seq a b) p = concat (map (mt b) (mt a p))"
| "mt (Alt a b) p = mt a p @ mt b p"
| "mt (Rep c lo hi) (pv, rs, cs) =
     (let n = length (takeWhile c rs); m = (case hi of None \<Rightarrow> n | Some h \<Rightarrow> min n h)
      in map (\<lambda>k. advance k (pv, rs, cs)) (rev [lo..<Suc m]))"
| "mt WordB (pv, rs, cs) = (if is_word pv \<noteq> is_word (head rs) then [(pv, rs, cs)] else [])"
| "mt BeginText (pv, rs, cs) = (if pv = None then [(pv, rs, cs)] else [])"
| "mt EndText (pv, rs, cs) = (if rs = [] then [(pv, rs, cs)] else [])"
| "mt (Grp i a) (pv, rs, cs) =
     map (\<lambda>(pv', rs', cs'). (pv', rs', (i, take (length rs - length rs') rs) # cs'))
       (mt a (pv, rs, cs))"

definition find_here :: "rx \<Rightarrow> rune option \<Rightarrow> rune list \<Rightarrow> position option" where
  "find_here r pv rs = (case mt r (pv, rs, []) of [] \<Rightarrow> None | p # _ \<Rightarrow> Some p)"

text \<open>\<open>MatchString\<close>: is there a match anywhere in the text?\<close>

fun match_from :: "rx \<Rightarrow> rune option \<Rightarrow> rune list \<Rightarrow> bool" where
  "match_from r pv [] = (find_here r pv [] \<noteq> None)"
| "match_from r pv (x # xs) = (find_here r pv (x # xs) \<noteq> None \<or> match_from r (Some x) xs)"

definition match_string :: "rx \<Rightarrow> string \<Rightarrow> bool" where
  "match_string r s = match_from r None (to_runes s)"

text \<open>\<open>FindStringSubmatch\<close>: the captures of the leftmost match.\<close>

fun find_from :: "rx \<Rightarrow> rune option \<Rightarrow> rune list \<Rightarrow> captures option" where
  "find_from r pv [] = map_option (\<lambda>(_, _, cs). cs) (find_here r pv [])"
| "find_from r pv (x # xs) =
     (case find_here r pv (x # xs) of
        Some (_, _, cs) \<Rightarrow> Some cs
      | None \<Rightarrow> find_from r (Some x) xs)"

text \<open>
  \<open>ReplaceAllStringFunc\<close> and \<open>ReplaceAllString\<close> (the template as a function of the captures):
  leftmost matches, left to right, without overlap. No pattern of the program matches the empty
  text; where a match would be empty the rune is copied and the scan goes on.
\<close>

function replace_all ::
  "rx \<Rightarrow> (rune list \<Rightarrow> captures \<Rightarrow> rune list) \<Rightarrow> rune option \<Rightarrow> rune list \<Rightarrow> rune list" where
  "replace_all r f pv rs =
     (case rs of [] \<Rightarrow> []
      | x # xs \<Rightarrow>
        (case find_here r pv rs of
           Some (pv', rs', cs) \<Rightarrow>
             (if length rs' < length rs
              then f (take (length rs - length rs') rs) cs @ replace_all r f pv' rs'
              else x # replace_all r f (Some x) xs)
         | None \<Rightarrow> x # replace_all r f (Some x) xs))"
  by pat_completeness auto
termination
  by (relation "measure (\<lambda>(r, f, pv, rs). length rs)") auto

declare replace_all.simps [simp del]

definition capture :: "nat \<Rightarrow> captures \<Rightarrow> rune list" where
  "capture i cs = (case map_of cs i of None \<Rightarrow> [] | Some m \<Rightarrow> m)"

section \<open>What a match consumes\<close>

text \<open>Each result of \<open>mt\<close> is the position some runes further on.\<close>

definition after :: "rune option \<Rightarrow> rune list \<Rightarrow> rune option" where
  "after pv m = (if m = [] then pv else Some (last m))"

lemma after_simps [simp]:
  "after pv [] = pv"
  "after pv (x # xs) = after (Some x) xs"
  by (auto simp: after_def)

lemma after_append [simp]: "after pv (xs @ ys) = after (after pv xs) ys"
  by (auto simp: after_def)

lemma mt_consumes:
  "(pv', rs', cs') \<in> set (mt r (pv, rs, cs)) \<Longrightarrow> \<exists>m. rs = m @ rs' \<and> pv' = after pv m"
proof (induction r arbitrary: pv rs cs pv' rs' cs')
  case (Seq a b)
  then obtain pv1 rs1 cs1 where 1: "(pv1, rs1, cs1) \<in> set (mt a (pv, rs, cs))"
    and 2: "(pv', rs', cs') \<in> set (mt b (pv1, rs1, cs1))" by auto
  obtain m1 where "rs = m1 @ rs1" "pv1 = after pv m1" using Seq.IH(1) [OF 1] by blast
  moreover obtain m2 where "rs1 = m2 @ rs'" "pv' = after pv1 m2" using Seq.IH(2) [OF 2] by blast
  ultimately have "rs = (m1 @ m2) @ rs' \<and> pv' = after pv (m1 @ m2)" by simp
  then show ?case by blast
next
  case (Rep c lo hi)
  then obtain k where "(pv', rs', cs') = advance k (pv, rs, cs)"
    by (auto simp: Let_def)
  then have "rs = take k rs @ rs' \<and> pv' = after pv (take k rs)"
    by (auto simp: after_def)
  then show ?case by blast
next
  case (Cls c)
  then have "rs = [hd rs] @ rs' \<and> pv' = after pv [hd rs]"
    by (auto split: list.splits if_splits)
  then show ?case by blast
next
  case Eps
  then have "rs = [] @ rs' \<and> pv' = after pv []" by simp
  then show ?case by blast
next
  case WordB
  then have "rs = [] @ rs' \<and> pv' = after pv []" by (auto split: if_splits)
  then show ?case by blast
next
  case BeginText
  then have "rs = [] @ rs' \<and> pv' = after pv []" by (auto split: if_splits)
  then show ?case by blast
next
  case EndText
  then have "rs = [] @ rs' \<and> pv' = after pv []" by (auto split: if_splits)
  then show ?case by blast
qed fastforce+

lemma find_here_SomeD:
  assumes "find_here r pv rs = Some (pv', rs', cs)"
  obtains m where "rs = m @ rs'" "pv' = after pv m" "(pv', rs', cs) \<in> set (mt r (pv, rs, []))"
proof -
  have "(pv', rs', cs) \<in> set (mt r (pv, rs, []))"
    using assms by (auto simp: find_here_def split: list.splits)
  then show ?thesis using mt_consumes that by metis
qed

lemma match_from_iff:
  "match_from r pv rs \<longleftrightarrow> (\<exists>a b. rs = a @ b \<and> find_here r (after pv a) b \<noteq> None)"
proof (induction rs arbitrary: pv)
  case Nil
  then show ?case by simp
next
  case (Cons x xs)
  show ?case
  proof
    assume "match_from r pv (x # xs)"
    then consider "find_here r pv (x # xs) \<noteq> None" | "match_from r (Some x) xs" by auto
    then show "\<exists>a b. x # xs = a @ b \<and> find_here r (after pv a) b \<noteq> None"
    proof cases
      case 1
      then have "x # xs = [] @ x # xs \<and> find_here r (after pv []) (x # xs) \<noteq> None" by simp
      then show ?thesis by blast
    next
      case 2
      then obtain a b where "xs = a @ b" "find_here r (after (Some x) a) b \<noteq> None"
        using Cons.IH by blast
      then have "x # xs = (x # a) @ b \<and> find_here r (after pv (x # a)) b \<noteq> None" by simp
      then show ?thesis by blast
    qed
  next
    assume "\<exists>a b. x # xs = a @ b \<and> find_here r (after pv a) b \<noteq> None"
    then obtain a b where ab: "x # xs = a @ b" "find_here r (after pv a) b \<noteq> None" by blast
    show "match_from r pv (x # xs)"
    proof (cases a)
      case Nil
      with ab have "find_here r pv (x # xs) \<noteq> None" by (simp del: not_None_eq)
      then show ?thesis by (simp del: not_None_eq)
    next
      case (Cons y ys)
      with ab have "xs = ys @ b" "find_here r (after (Some x) ys) b \<noteq> None" by auto
      then have "match_from r (Some x) xs" using Cons.IH by blast
      then show ?thesis by simp
    qed
  qed
qed

section \<open>Replacement, step by step\<close>

lemma replace_all_Nil [simp]: "replace_all r f pv [] = []"
  by (simp add: replace_all.simps)

lemma replace_all_match:
  assumes "find_here r pv (m @ rs) = Some (pv', rs, cs)" "m \<noteq> []"
  shows "replace_all r f pv (m @ rs) = f m cs @ replace_all r f (after pv m) rs"
proof -
  obtain m' where "m @ rs = m' @ rs" "pv' = after pv m'"
    using find_here_SomeD [OF assms(1)] by metis
  then have "pv' = after pv m" by simp
  moreover obtain y ys where m: "m = y # ys" using assms(2) by (auto simp: neq_Nil_conv)
  ultimately show ?thesis
    using assms(1) replace_all.simps [of r f pv "y # ys @ rs"] by simp
qed

lemma replace_all_skip:
  "find_here r pv (x # xs) = None \<Longrightarrow> replace_all r f pv (x # xs) = x # replace_all r f (Some x) xs"
  by (simp add: replace_all.simps [of r f pv "x # xs"])

text \<open>A pattern that matches nowhere in a text leaves the text alone.\<close>

lemma replace_all_no_match: "\<not> match_from r pv rs \<Longrightarrow> replace_all r f pv rs = rs"
  by (induction rs arbitrary: pv) (auto simp: replace_all_skip simp del: not_None_eq)

text \<open>Induction along the scan, for patterns that consume at least one rune.\<close>

definition consuming :: "rx \<Rightarrow> bool" where
  "consuming r \<longleftrightarrow> (\<forall>pv rs pv' rs' cs. find_here r pv rs = Some (pv', rs', cs) \<longrightarrow> length rs' < length rs)"

lemma scan_induct [consumes 1, case_names Nil Match Skip]:
  assumes c: "consuming r"
    and Nil: "\<And>pv. P pv []"
    and Match: "\<And>pv m rs cs. m \<noteq> [] \<Longrightarrow> find_here r pv (m @ rs) = Some (after pv m, rs, cs) \<Longrightarrow>
        P (after pv m) rs \<Longrightarrow> P pv (m @ rs)"
    and Skip: "\<And>pv x xs. find_here r pv (x # xs) = None \<Longrightarrow> P (Some x) xs \<Longrightarrow> P pv (x # xs)"
  shows "P pv rs"
proof (induction "length rs" arbitrary: pv rs rule: less_induct)
  case less
  show ?case
  proof (cases rs)
    case Nil
    then show ?thesis using assms(2) by simp
  next
    case (Cons x xs)
    show ?thesis
    proof (cases "find_here r pv rs")
      case None
      then show ?thesis using Cons Skip less by simp
    next
      case (Some p)
      obtain pv' rs' cs where p: "p = (pv', rs', cs)" by (cases p)
      obtain m where m: "rs = m @ rs'" "pv' = after pv m"
        using find_here_SomeD Some p by metis
      have "length rs' < length rs" using c Some p by (metis consuming_def)
      then show ?thesis using Match [of m pv rs' cs] less [of rs'] m Some p by auto
    qed
  qed
qed

text \<open>Captures are pieces of the text, so a rewriting that only uses them stays within its runes.\<close>

lemma mt_captures:
  "(pv', rs', cs') \<in> set (mt r (pv, rs, cs)) \<Longrightarrow> \<forall>(i, m) \<in> set cs'. (i, m) \<in> set cs \<or> set m \<subseteq> set rs"
proof (induction r arbitrary: pv rs cs pv' rs' cs')
  case (Seq a b)
  then obtain pv1 rs1 cs1 where 1: "(pv1, rs1, cs1) \<in> set (mt a (pv, rs, cs))"
    and 2: "(pv', rs', cs') \<in> set (mt b (pv1, rs1, cs1))" by auto
  have "set rs1 \<subseteq> set rs" using mt_consumes [OF 1] by auto
  then show ?case using Seq.IH(1) [OF 1] Seq.IH(2) [OF 2] by fast
next
  case (Grp i a)
  then show ?case by (fastforce dest: in_set_takeD)
qed (fastforce simp: Let_def split: list.splits if_splits option.splits)+

lemma find_here_captures:
  assumes "find_here r pv rs = Some (pv', rs', cs)" "(i, m) \<in> set cs"
  shows "set m \<subseteq> set rs"
proof -
  have "(pv', rs', cs) \<in> set (mt r (pv, rs, []))"
    using assms(1) by (auto simp: find_here_def split: list.splits)
  then show ?thesis using mt_captures assms(2) by fastforce
qed

lemma replace_all_all:
  assumes "consuming r" "\<forall>x \<in> set rs. Q x"
    and "\<And>m cs. (\<forall>x \<in> set m. Q x) \<Longrightarrow> (\<forall>c \<in> set cs. \<forall>x \<in> set (snd c). Q x) \<Longrightarrow> \<forall>x \<in> set (f m cs). Q x"
  shows "\<forall>x \<in> set (replace_all r f pv rs). Q x"
  using assms(1,2)
proof (induction pv rs rule: scan_induct)
  case (Match pv m rs cs)
  have "\<forall>c \<in> set cs. \<forall>x \<in> set (snd c). Q x"
    using find_here_captures [OF Match.hyps(2)] Match.prems by fastforce
  moreover have "\<forall>x \<in> set m. Q x" using Match.prems by simp
  ultimately have "\<forall>x \<in> set (f m cs). Q x" by (rule assms(3) [rotated])
  then show ?case using Match by (auto simp: replace_all_match)
qed (auto simp: replace_all_skip)

section \<open>The positions a pattern can reach\<close>

text \<open>
  Membership in the list of matches, one rule per constructor: what the pattern consumed is
  a word \<open>w\<close> in front of the rest of the text.
\<close>

lemma mt_Cls_iff:
  "(pv', rs', cs') \<in> set (mt (Cls c) (pv, rs, cs)) \<longleftrightarrow>
     (\<exists>r. c r \<and> rs = r # rs' \<and> pv' = Some r \<and> cs' = cs)"
  by (auto split: list.splits)

lemma mt_Seq_iff:
  "q \<in> set (mt (Seq a b) p) \<longleftrightarrow> (\<exists>pv rs cs. (pv, rs, cs) \<in> set (mt a p) \<and> q \<in> set (mt b (pv, rs, cs)))"
  by auto

lemma mt_Alt_iff: "q \<in> set (mt (Alt a b) p) \<longleftrightarrow> q \<in> set (mt a p) \<or> q \<in> set (mt b p)"
  by auto

lemma mt_Eps_iff: "q \<in> set (mt Eps p) \<longleftrightarrow> q = p"
  by auto

lemma mt_WordB_iff:
  "(pv', rs', cs') \<in> set (mt WordB (pv, rs, cs)) \<longleftrightarrow>
     is_word pv \<noteq> is_word (head rs) \<and> pv' = pv \<and> rs' = rs \<and> cs' = cs"
  by auto

lemma mt_Grp_iff:
  "(pv', rs', cs') \<in> set (mt (Grp i a) (pv, rs, cs)) \<longleftrightarrow>
     (\<exists>w cs1. rs = w @ rs' \<and> cs' = (i, w) # cs1 \<and> (pv', rs', cs1) \<in> set (mt a (pv, rs, cs)))"
proof
  assume "(pv', rs', cs') \<in> set (mt (Grp i a) (pv, rs, cs))"
  then obtain cs1 where m: "(pv', rs', cs1) \<in> set (mt a (pv, rs, cs))"
    and c: "cs' = (i, take (length rs - length rs') rs) # cs1" by auto
  obtain w where w: "rs = w @ rs'" using mt_consumes [OF m] by blast
  then show "\<exists>w cs1. rs = w @ rs' \<and> cs' = (i, w) # cs1 \<and> (pv', rs', cs1) \<in> set (mt a (pv, rs, cs))"
    using m c by auto
next
  assume "\<exists>w cs1. rs = w @ rs' \<and> cs' = (i, w) # cs1 \<and> (pv', rs', cs1) \<in> set (mt a (pv, rs, cs))"
  then obtain w cs1 where w: "rs = w @ rs'" and c: "cs' = (i, w) # cs1"
    and m: "(pv', rs', cs1) \<in> set (mt a (pv, rs, cs))" by blast
  show "(pv', rs', cs') \<in> set (mt (Grp i a) (pv, rs, cs))"
    using image_eqI [OF _ m, of _ "\<lambda>(pv', rs', cs'). (pv', rs', (i, take (length rs - length rs') rs) # cs')"]
    by (simp add: w c)
qed

lemma mt_Rep_iff:
  "(pv', rs', cs') \<in> set (mt (Rep c lo hi) (pv, rs, cs)) \<longleftrightarrow>
     (\<exists>w. rs = w @ rs' \<and> list_all c w \<and> lo \<le> length w \<and> (\<forall>h. hi = Some h \<longrightarrow> length w \<le> h)
        \<and> pv' = after pv w \<and> cs' = cs)"
proof -
  let ?n = "length (takeWhile c rs)"
  have pre: "k \<le> ?n \<longleftrightarrow> (\<exists>w. rs = w @ drop k rs \<and> list_all c w \<and> length w = k)" for k
  proof
    assume "k \<le> ?n"
    then have "take k rs = take k (takeWhile c rs)"
      by (metis append_eq_conv_conj take_take takeWhile_dropWhile_id min.absorb1 take_append
          diff_is_0_eq' append_Nil2 take_eq_Nil)
    then have "list_all c (take k rs)"
      by (auto simp: list_all_iff dest!: in_set_takeD set_takeWhileD)
    moreover have "length (take k rs) = k"
      using \<open>k \<le> ?n\<close> length_takeWhile_le [of c rs] by simp
    ultimately show "\<exists>w. rs = w @ drop k rs \<and> list_all c w \<and> length w = k"
      by (metis append_take_drop_id)
  next
    assume "\<exists>w. rs = w @ drop k rs \<and> list_all c w \<and> length w = k"
    then obtain w where w: "rs = w @ drop k rs" "list_all c w" "length w = k" by blast
    then have "takeWhile c rs = w @ takeWhile c (drop k rs)"
      by (metis list_all_iff takeWhile_append2)
    then show "k \<le> ?n" using w(3) by simp
  qed
  have adv: "rs = w @ r \<Longrightarrow> advance (length w) (pv, rs, cs) = (after pv w, r, cs)" for w r
    by (simp add: after_def)
  have range: "set (rev [lo..<Suc (case hi of None \<Rightarrow> ?n | Some h \<Rightarrow> min ?n h)]) =
      {k. lo \<le> k \<and> k \<le> ?n \<and> (\<forall>h. hi = Some h \<longrightarrow> k \<le> h)}"
    by (cases hi) (auto simp del: upt_Suc)
  have sets: "set (mt (Rep c lo hi) (pv, rs, cs)) =
      (\<lambda>k. advance k (pv, rs, cs)) ` {k. lo \<le> k \<and> k \<le> ?n \<and> (\<forall>h. hi = Some h \<longrightarrow> k \<le> h)}"
    by (simp only: mt.simps Let_def set_map range)
  have "(pv', rs', cs') \<in> set (mt (Rep c lo hi) (pv, rs, cs)) \<longleftrightarrow>
     (\<exists>k. lo \<le> k \<and> k \<le> ?n \<and> (\<forall>h. hi = Some h \<longrightarrow> k \<le> h) \<and> (pv', rs', cs') = advance k (pv, rs, cs))"
    by (simp only: sets) blast
  also have "\<dots> \<longleftrightarrow> (\<exists>w. rs = w @ rs' \<and> list_all c w \<and> lo \<le> length w
      \<and> (\<forall>h. hi = Some h \<longrightarrow> length w \<le> h) \<and> pv' = after pv w \<and> cs' = cs)" (is "?L \<longleftrightarrow> ?R")
  proof
    assume ?L
    then obtain k where k: "lo \<le> k" "k \<le> ?n" "\<forall>h. hi = Some h \<longrightarrow> k \<le> h"
      "(pv', rs', cs') = advance k (pv, rs, cs)" by blast
    then obtain w where w: "rs = w @ drop k rs" "list_all c w" "length w = k" using pre by blast
    moreover have "rs' = drop k rs" "pv' = after pv w" "cs' = cs"
      using k(4) adv [OF w(1)] w(3) by auto
    ultimately show ?R using k by auto
  next
    assume ?R
    then obtain w where "rs = w @ rs'" "list_all c w" "lo \<le> length w"
      "\<forall>h. hi = Some h \<longrightarrow> length w \<le> h" "pv' = after pv w" "cs' = cs" by blast
    then show ?L using pre [of "length w"] adv [of w] by (intro exI [of _ "length w"]) auto
  qed
  finally show ?thesis .
qed

lemma mt_opt_iff: "q \<in> set (mt (opt r) p) \<longleftrightarrow> q \<in> set (mt r p) \<or> q = p"
  by (auto simp: opt_def)

lemmas mt_iffs = mt_Cls_iff mt_Seq_iff mt_Alt_iff mt_Eps_iff mt_WordB_iff mt_Grp_iff mt_Rep_iff
  mt_opt_iff

lemma find_here_None_iff: "find_here r pv rs = None \<longleftrightarrow> (\<forall>p. p \<notin> set (mt r (pv, rs, [])))"
  by (cases "mt r (pv, rs, [])") (auto simp: find_here_def)

lemma find_here_Some_mt: "find_here r pv rs = Some p \<Longrightarrow> p \<in> set (mt r (pv, rs, []))"
  by (auto simp: find_here_def split: list.splits)

section \<open>Words\<close>

text \<open>
  The words of a pattern without assertions: the pattern leads from a position to exactly the
  positions one of its words further on.
\<close>

fun plain_rx :: "rx \<Rightarrow> bool" where
  "plain_rx Eps = True"
| "plain_rx (Cls c) = True"
| "plain_rx (Seq a b) = (plain_rx a \<and> plain_rx b)"
| "plain_rx (Alt a b) = (plain_rx a \<and> plain_rx b)"
| "plain_rx (Rep c lo hi) = True"
| "plain_rx WordB = False"
| "plain_rx BeginText = False"
| "plain_rx EndText = False"
| "plain_rx (Grp i a) = plain_rx a"

fun words :: "rx \<Rightarrow> rune list set" where
  "words Eps = {[]}"
| "words (Cls c) = {w. \<exists>r. w = [r] \<and> c r}"
| "words (Seq a b) = {w. \<exists>u v. w = u @ v \<and> u \<in> words a \<and> v \<in> words b}"
| "words (Alt a b) = words a \<union> words b"
| "words (Rep c lo hi) =
     {w. list_all c w \<and> lo \<le> length w \<and> (\<forall>h. hi = Some h \<longrightarrow> length w \<le> h)}"
| "words WordB = {}"
| "words BeginText = {}"
| "words EndText = {}"
| "words (Grp i a) = words a"

definition reach :: "rx \<Rightarrow> rune option \<Rightarrow> rune list \<Rightarrow> captures \<Rightarrow> rune option \<Rightarrow> rune list \<Rightarrow> bool" where
  "reach r pv rs cs pv' rs' \<longleftrightarrow> (\<exists>cs'. (pv', rs', cs') \<in> set (mt r (pv, rs, cs)))"

lemma reach_words:
  "plain_rx r \<Longrightarrow> reach r pv rs cs pv' rs' \<longleftrightarrow> (\<exists>w \<in> words r. rs = w @ rs' \<and> pv' = after pv w)"
proof (induction r arbitrary: pv rs cs pv' rs')
  case (Seq a b)
  have ab: "plain_rx a" "plain_rx b" using Seq.prems by simp_all
  have "reach (Seq a b) pv rs cs pv' rs' \<longleftrightarrow>
      (\<exists>pv1 rs1 cs1. (pv1, rs1, cs1) \<in> set (mt a (pv, rs, cs)) \<and> reach b pv1 rs1 cs1 pv' rs')"
    unfolding reach_def mt_Seq_iff by blast
  also have "\<dots> \<longleftrightarrow> (\<exists>pv1 rs1. reach a pv rs cs pv1 rs1 \<and>
      (\<exists>w \<in> words b. rs1 = w @ rs' \<and> pv' = after pv1 w))"
    unfolding Seq.IH(2) [OF ab(2)] by (auto simp: reach_def)
  also have "\<dots> \<longleftrightarrow> (\<exists>u \<in> words a. \<exists>v \<in> words b. rs = u @ v @ rs' \<and> pv' = after (after pv u) v)"
    unfolding Seq.IH(1) [OF ab(1)] by blast
  also have "\<dots> \<longleftrightarrow> (\<exists>w \<in> words (Seq a b). rs = w @ rs' \<and> pv' = after pv w)"
    by auto blast+
  finally show ?case .
next
  case (Alt a b)
  have "reach (Alt a b) pv rs cs pv' rs' \<longleftrightarrow> reach a pv rs cs pv' rs' \<or> reach b pv rs cs pv' rs'"
    by (auto simp: reach_def)
  then show ?case using Alt by auto
next
  case (Rep c lo hi)
  then show ?case by (auto simp: reach_def mt_Rep_iff simp del: mt.simps)
next
  case (Grp i a)
  have "reach (Grp i a) pv rs cs pv' rs' \<longleftrightarrow> (\<exists>w. rs = w @ rs' \<and> reach a pv rs cs pv' rs')"
    unfolding reach_def mt_Grp_iff by blast
  also have "\<dots> \<longleftrightarrow> reach a pv rs cs pv' rs'"
    using Grp by auto
  finally show ?case using Grp by simp
qed (auto simp: reach_def split: list.splits)

lemma plain_class_seq [simp]: "plain_rx (seqs (map (\<lambda>x. Cls (p x)) xs))"
  by (induction xs) simp_all

lemma words_class_seq: "words (seqs (map (\<lambda>x. Cls (p x)) xs)) = {w. list_all2 p xs w}"
proof (induction xs)
  case (Cons x xs)
  then show ?case by (auto simp: list_all2_Cons1) (metis append_Cons append_Nil)
qed simp

lemma plain_lit [simp]: "plain_rx (lit s)" "plain_rx (ilit s)"
  by (simp_all add: lit_def ilit_def)

lemma plain_opt [simp]: "plain_rx (opt r) = plain_rx r"
  by (simp add: opt_def)

lemma words_lit: "words (lit s) = {asc s}"
proof -
  have "list_all2 (\<lambda>c r. r = of_char c) s w \<longleftrightarrow> w = asc s" for w
    by (induction s arbitrary: w) (auto simp: asc_def list_all2_Cons1)
  then show ?thesis by (auto simp: lit_def words_class_seq)
qed

lemma words_ilit: "words (ilit s) = {w. map fold_rune w = map fold_rune (asc s)}"
proof -
  have "list_all2 (\<lambda>c r. fold_rune r = fold_rune (of_char c)) s w \<longleftrightarrow>
      map fold_rune w = map fold_rune (asc s)" for w
    by (induction s arbitrary: w) (auto simp: asc_def list_all2_Cons1 Cons_eq_map_conv map_eq_Cons_conv)
  then show ?thesis by (auto simp: ilit_def words_class_seq)
qed

lemma words_opt: "words (opt r) = insert [] (words r)"
  by (auto simp: opt_def)

text \<open>Patterns whose words are given up to folding.\<close>

definition folds_to :: "rx \<Rightarrow> rune list set \<Rightarrow> bool" where
  "folds_to r A \<longleftrightarrow> plain_rx r \<and> words r = {w. map fold_rune w \<in> A}"

lemma folds_ilit: "folds_to (ilit s) {map fold_rune (asc s)}"
  by (auto simp: folds_to_def words_ilit)

lemma folds_Seq: "folds_to a A \<Longrightarrow> folds_to b B \<Longrightarrow> folds_to (Seq a b) (\<Union>x \<in> A. (@) x ` B)"
  by (auto simp: folds_to_def map_eq_append_conv image_iff)

lemma folds_Alt: "folds_to a A \<Longrightarrow> folds_to b B \<Longrightarrow> folds_to (Alt a b) (A \<union> B)"
  by (auto simp: folds_to_def)

lemma folds_opt: "folds_to a A \<Longrightarrow> folds_to (opt a) (insert [] A)"
  by (auto simp: folds_to_def words_opt)

lemma folds_Grp: "folds_to a A \<Longrightarrow> folds_to (Grp i a) A"
  by (auto simp: folds_to_def)

lemma folds_Cls: "(\<And>r. c r \<longleftrightarrow> fold_rune r \<in> A) \<Longrightarrow> folds_to (Cls c) ((\<lambda>x. [x]) ` A)"
  by (auto simp: folds_to_def)

lemmas folds_intros = folds_ilit folds_Seq folds_Alt folds_opt folds_Grp

end
