(* ===== verification/GoPath.thy ===== *)
theory GoPath
  imports GoText
begin

text \<open>
  What the program uses of Go's \<open>path\<close> and \<open>path/filepath\<close> packages: \<open>path.Match\<close>,
  \<open>filepath.Base\<close>, \<open>filepath.Ext\<close>, \<open>filepath.Clean\<close> and \<open>filepath.IsAbs\<close> (on a Unix
  system, where the separator is the slash). The chunk matching of \<open>path.Match\<close> takes the
  leftmost choice for each star; here a star tries every choice in the same order, which
  accepts the same names.
\<close>

section \<open>path.Match\<close>

text \<open>\<open>getEsc\<close>: one possibly escaped rune of a character class.\<close>

definition get_esc :: "rune list \<Rightarrow> (rune \<times> rune list) option" where
  "get_esc ps =
     (case ps of [] \<Rightarrow> None
      | c # cs \<Rightarrow>
        (if c = 45 \<or> c = 93 then None
         else (case (if c = 92 then cs else ps) of
             [] \<Rightarrow> None
           | d # ds \<Rightarrow> if ds = [] then None else Some (d, ds))))"

lemma get_esc_shorter: "get_esc ps = Some (r, ps') \<Longrightarrow> length ps' < length ps"
  by (auto simp: get_esc_def split: list.splits if_splits)

text \<open>The ranges of a class up to its closing bracket: does the rune fall in one?\<close>

function match_ranges :: "bool \<Rightarrow> bool \<Rightarrow> rune \<Rightarrow> rune list \<Rightarrow> (bool \<times> rune list) option" where
  "match_ranges some_range found x ps =
     (if some_range \<and> ps \<noteq> [] \<and> hd ps = 93 then Some (found, tl ps)
      else (case get_esc ps of
          None \<Rightarrow> None
        | Some (lo, ps1) \<Rightarrow>
          (if hd ps1 = 45 then
             (case get_esc (tl ps1) of
                None \<Rightarrow> None
              | Some (hi, ps2) \<Rightarrow> match_ranges True (found \<or> (lo \<le> x \<and> x \<le> hi)) x ps2)
           else match_ranges True (found \<or> x = lo) x ps1)))"
  by pat_completeness auto
termination
proof (relation "measure (\<lambda>(_, _, _, ps). length ps)", goal_cases)
  case (2 some_range found x ps p lo ps1 q hi ps2)
  then have "length ps1 < length ps" "length ps2 < length (tl ps1)"
    by (auto dest: get_esc_shorter)
  then show ?case by simp
next
  case (3 some_range found x ps p lo ps1)
  then show ?case by (auto dest: get_esc_shorter)
qed simp

declare match_ranges.simps [simp del]

lemma match_ranges_shorter: "match_ranges sr f x ps = Some (b, ps') \<Longrightarrow> length ps' < length ps"
proof (induction sr f x ps rule: match_ranges.induct)
  case (1 some_range found x ps)
  show ?case
  proof (cases "some_range \<and> ps \<noteq> [] \<and> hd ps = 93")
    case True
    then have "ps' = tl ps" "ps \<noteq> []"
      using "1.prems" match_ranges.simps [of some_range found x ps] by auto
    then show ?thesis by (cases ps) auto
  next
    case False
    then obtain lo ps1 where g: "get_esc ps = Some (lo, ps1)"
      using "1.prems" by (auto simp: match_ranges.simps [of _ _ _ ps] split: option.splits)
    show ?thesis
    proof (cases "hd ps1 = 45")
      case True
      then obtain hi ps2 where h: "get_esc (tl ps1) = Some (hi, ps2)"
        using "1.prems" False g
        by (auto simp: match_ranges.simps [of _ _ _ ps] split: option.splits if_splits)
      have "length ps' < length ps2"
        using "1.IH"(1) [OF False g _ True h] "1.prems" False g True h
        by (simp add: match_ranges.simps [of _ _ _ ps] split: if_splits)
      then show ?thesis
        using get_esc_shorter [OF g] get_esc_shorter [OF h] by simp
    next
      case ne: False
      have "length ps' < length ps1"
        using "1.IH"(2) [OF False g _ ne] "1.prems" False g ne
        by (simp add: match_ranges.simps [of _ _ _ ps] split: if_splits)
      then show ?thesis using get_esc_shorter [OF g] by simp
    qed
  qed
qed

definition match_class :: "rune \<Rightarrow> rune list \<Rightarrow> (bool \<times> rune list) option" where
  "match_class x ps =
     (case ps of
        c # cs \<Rightarrow>
          (if c = 94 then map_option (\<lambda>(b, r). (\<not> b, r)) (match_ranges False False x cs)
           else match_ranges False False x ps)
      | [] \<Rightarrow> None)"

lemma match_class_shorter: "match_class x ps = Some (b, ps') \<Longrightarrow> length ps' < length ps"
  by (auto simp: match_class_def split: list.splits if_splits dest!: match_ranges_shorter)

function match_runes :: "rune list \<Rightarrow> rune list \<Rightarrow> bool" where
  "match_runes [] n = (n = [])"
| "match_runes (p # ps) n =
     (if p = 42 then match_runes ps n \<or> (if n = [] then False else hd n \<noteq> 47 \<and> match_runes (p # ps) (tl n))
      else if n = [] then False
      else if p = 63 then hd n \<noteq> 47 \<and> match_runes ps (tl n)
      else if p = 91 then
        (case match_class (hd n) ps of
           None \<Rightarrow> False
         | Some (ok, ps') \<Rightarrow> ok \<and> match_runes ps' (tl n))
      else if p = 92 then ps \<noteq> [] \<and> hd n = hd ps \<and> match_runes (tl ps) (tl n)
      else hd n = p \<and> match_runes ps (tl n))"
  by pat_completeness auto
termination
  by (relation "measure (\<lambda>(ps, n). length ps + length n)")
    (auto dest!: match_class_shorter simp: neq_Nil_conv)

declare match_runes.simps(2) [simp del]

definition path_match :: "string \<Rightarrow> string \<Rightarrow> bool" where
  "path_match pattern name = match_runes (to_runes pattern) (to_runes name)"

text \<open>A pattern without special runes matches exactly itself.\<close>

definition plain_rune :: "rune \<Rightarrow> bool" where
  "plain_rune r \<longleftrightarrow> r \<noteq> 42 \<and> r \<noteq> 63 \<and> r \<noteq> 91 \<and> r \<noteq> 92"

lemma match_runes_plain: "list_all plain_rune ps \<Longrightarrow> match_runes ps n \<longleftrightarrow> n = ps"
proof (induction ps arbitrary: n)
  case Nil
  then show ?case by simp
next
  case (Cons p ps)
  then show ?case
    by (cases n) (simp_all add: match_runes.simps(2) [of p ps] plain_rune_def)
qed

lemma path_match_plain:
  assumes "ascii pattern" "list_all plain_rune (asc pattern)" and "valid_utf8 name"
  shows "path_match pattern name \<longleftrightarrow> name = pattern"
proof -
  have "path_match pattern name \<longleftrightarrow> to_runes name = asc pattern"
    using assms by (simp add: path_match_def to_runes_ascii match_runes_plain)
  then show ?thesis
    using assms by (metis of_runes_asc valid_utf8_def to_runes_ascii)
qed

section \<open>Components of paths\<close>

definition slash :: char where
  "slash = CHR ''/''"

definition strip_slashes :: "string \<Rightarrow> string" where
  "strip_slashes s = rev (dropWhile (\<lambda>c. c = slash) (rev s))"

definition last_part :: "string \<Rightarrow> string" where
  "last_part s = last (split_when (\<lambda>c. c = slash) s)"

text \<open>\<open>filepath.Base\<close>.\<close>

definition base_name :: "string \<Rightarrow> string" where
  "base_name s =
     (if s = [] then ''.''
      else let t = last_part (strip_slashes s) in if t = [] then ''/'' else t)"

text \<open>\<open>filepath.Ext\<close>: from the last dot of the last part, the dot included.\<close>

fun ext_after :: "string \<Rightarrow> string" where
  "ext_after [] = []"
| "ext_after (c # cs) =
     (if c = CHR ''.'' \<and> CHR ''.'' \<notin> set cs \<and> slash \<notin> set cs then c # cs else ext_after cs)"

definition file_ext :: "string \<Rightarrow> string" where
  "file_ext s = ext_after s"

definition is_abs :: "string \<Rightarrow> bool" where
  "is_abs s \<longleftrightarrow> has_prefix s ''/''"

text \<open>
  \<open>filepath.Clean\<close>: empty parts and dots go, a double dot takes the part before it with it
  (or stays, at the front of a relative path).
\<close>

fun clean_parts :: "bool \<Rightarrow> string list \<Rightarrow> string list \<Rightarrow> string list" where
  "clean_parts rooted acc [] = rev acc"
| "clean_parts rooted acc (p # ps) =
     (if p = [] \<or> p = ''.'' then clean_parts rooted acc ps
      else if p = ''..'' then
        (if acc \<noteq> [] \<and> hd acc \<noteq> ''..'' then clean_parts rooted (tl acc) ps
         else if rooted then clean_parts rooted acc ps
         else clean_parts rooted (p # acc) ps)
      else clean_parts rooted (p # acc) ps)"

definition clean_path :: "string \<Rightarrow> string" where
  "clean_path s =
     (let body = join ''/'' (clean_parts (is_abs s) [] (split_when (\<lambda>c. c = slash) s))
      in if is_abs s then ''/'' @ body else if body = [] then ''.'' else body)"

end
