(* ===== verification/Sanitise.thy ===== *)
theory Sanitise
  imports Intent GoRegex GoPath
begin

text \<open>
  The text rules of \<open>internal/intent/validate.go\<close>: the two patterns that find what GitHub would
  act on in a body (mentions and closing keywords), \<open>sanitiseBody\<close>, \<open>sanitiseLine\<close> and the path
  matcher \<open>globMatch\<close>. The lemmas give the pattern of closing keywords a direct
  characterisation and show what a sanitised text can no longer contain.
\<close>

section \<open>Patterns\<close>

definition mention_class :: "rune \<Rightarrow> bool" where
  "mention_class r \<longleftrightarrow> is_alnum r \<or> r = 45"

text \<open>\<open>@([A-Za-z0-9](?:[A-Za-z0-9-]{0,38}))\<close>\<close>

definition mention_re :: rx where
  "mention_re = Seq (Cls (\<lambda>r. r = 64)) (Grp 1 (Seq (Cls is_alnum) (Rep mention_class 0 (Some 38))))"

text \<open>\<open>(?i)\b(close[sd]?|fix(e[sd])?|resolve[sd]?)\s+#(\d+)\b\<close>\<close>

definition s_or_d :: rx where
  "s_or_d = Cls (\<lambda>r. fold_rune r = 115 \<or> fold_rune r = 100)"

definition closing_re :: rx where
  "closing_re =
     seqs [WordB,
       Grp 1 (Alt (Seq (ilit ''close'') (opt s_or_d))
             (Alt (Seq (ilit ''fix'') (opt (Grp 2 (Seq (ilit ''e'') s_or_d))))
                  (Seq (ilit ''resolve'') (opt s_or_d)))),
       Rep rx_space 1 None,
       lit ''#'',
       Grp 3 (Rep is_digit 1 None),
       WordB]"

section \<open>Bodies, titles, paths\<close>

definition strip_control :: "rune list \<Rightarrow> rune list" where
  "strip_control rs = filter (\<lambda>r. \<not> (r \<noteq> 10 \<and> r \<noteq> 9 \<and> is_control r)) rs"

definition quote_mentions :: "rune list \<Rightarrow> rune list" where
  "quote_mentions rs =
     replace_all mention_re (\<lambda>m cs. [96, 64] @ capture 1 cs @ [96]) None rs"

text \<open>The callback of \<open>ReplaceAllStringFunc\<close>: it matches the text of the match once more.\<close>

definition keep_or_ref :: "scope \<Rightarrow> rune list \<Rightarrow> rune list" where
  "keep_or_ref sc m =
     (let num = (case find_from closing_re None m of None \<Rightarrow> [] | Some g \<Rightarrow> capture 3 g)
      in if sc_kind sc = ScopeIssue \<and> num = asc (itoa (sc_number sc)) then m
         else asc ''ref #'' @ num)"

definition strip_closing :: "scope \<Rightarrow> rune list \<Rightarrow> rune list" where
  "strip_closing sc rs = replace_all closing_re (\<lambda>m _. keep_or_ref sc m) None rs"

definition neutralise :: "scope \<Rightarrow> string \<Rightarrow> string" where
  "neutralise sc s = of_runes (strip_closing sc (quote_mentions (strip_control (to_runes s))))"

definition truncated_mark :: string where
  "truncated_mark = [CHR 0x0A, CHR 0x0A] @ ''_[truncated]_''"

text \<open>\<open>None\<close> is the panic of a slice expression with a negative bound.\<close>

definition sanitiseBody :: "string \<Rightarrow> int \<Rightarrow> scope \<Rightarrow> string option" where
  "sanitiseBody s maxBytes sc =
     (let t = neutralise sc s
      in if int (length t) > maxBytes then
           (if maxBytes < 0 then None else Some (take (nat maxBytes) t @ truncated_mark))
         else Some t)"

definition sanitiseLine :: "string \<Rightarrow> nat \<Rightarrow> string" where
  "sanitiseLine s bound =
     (let t = join '' '' (str_fields s) in if length t > bound then take bound t else t)"

definition globMatch :: "string \<Rightarrow> string \<Rightarrow> bool" where
  "globMatch pattern name =
     (if has_suffix pattern ''/**'' then has_prefix name (trim_suffix pattern ''**'')
      else if has_prefix pattern ''**/'' then
        (let base = trim_prefix pattern ''**/'' in name = base \<or> has_suffix name (''/'' @ base))
      else path_match pattern name)"

section \<open>What the closing pattern matches\<close>

text \<open>
  The pattern finds a keyword, white space, a hash and a number, with no word rune on either
  side. \<open>closes_at\<close> says so directly, with the pieces named.
\<close>

definition closing_word :: "rune list \<Rightarrow> bool" where
  "closing_word w \<longleftrightarrow> map fold_rune w \<in> set (map asc
     [''close'', ''closes'', ''closed'', ''fix'', ''fixes'', ''fixed'', ''resolve'', ''resolves'', ''resolved''])"

definition closes_at :: "rune option \<Rightarrow> rune list \<Rightarrow> rune list \<Rightarrow> rune list \<Rightarrow> rune list \<Rightarrow> bool" where
  "closes_at pv kw ws ds rest \<longleftrightarrow> \<not> is_word pv \<and> closing_word kw \<and> ws \<noteq> [] \<and> list_all rx_space ws
     \<and> ds \<noteq> [] \<and> list_all is_digit ds \<and> \<not> is_word (head rest)"

definition keyword_re :: rx where
  "keyword_re = Alt (Seq (ilit ''close'') (opt s_or_d))
             (Alt (Seq (ilit ''fix'') (opt (Grp 2 (Seq (ilit ''e'') s_or_d))))
                  (Seq (ilit ''resolve'') (opt s_or_d)))"

lemma closing_re_parts:
  "closing_re = seqs [WordB, Grp 1 keyword_re, Rep rx_space 1 None, lit ''#'',
     Grp 3 (Rep is_digit 1 None), WordB]"
  by (simp add: closing_re_def keyword_re_def)

lemma folds_s_or_d: "folds_to s_or_d ((\<lambda>x. [x]) ` {115, 100})"
  unfolding s_or_d_def by (rule folds_Cls) simp

lemma folds_keyword: "folds_to keyword_re
   ((\<Union>x \<in> {map fold_rune (asc ''close'')}. (@) x ` insert [] ((\<lambda>x. [x]) ` {115, 100})) \<union>
   ((\<Union>x \<in> {map fold_rune (asc ''fix'')}. (@) x ` insert [] (\<Union>x \<in> {map fold_rune (asc ''e'')}. (@) x ` ((\<lambda>x. [x]) ` {115, 100}))) \<union>
   (\<Union>x \<in> {map fold_rune (asc ''resolve'')}. (@) x ` insert [] ((\<lambda>x. [x]) ` {115, 100}))))"
  unfolding keyword_re_def by (intro folds_intros folds_s_or_d)

lemma keyword_words: "plain_rx keyword_re" "words keyword_re = {w. closing_word w}"
  using folds_keyword
  by (auto simp: folds_to_def closing_word_def asc_def fold_rune_def is_upper_def)

lemma is_word_digits: "ds \<noteq> [] \<Longrightarrow> list_all is_digit ds \<Longrightarrow> is_word (after pv ds)"
  by (cases ds rule: rev_cases) (auto simp: after_def is_word_def word_rune_def is_alnum_def)

lemma closing_word_Cons: "closing_word kw \<Longrightarrow> \<exists>k ks. kw = k # ks \<and> fold_rune k \<in> {99, 102, 114}
    \<and> (\<forall>x \<in> set ks. fold_rune x \<notin> {99, 102, 114} \<and> fold_rune x \<ge> 97)"
  by (auto simp: closing_word_def asc_def)

lemma fold_start: "fold_rune k \<in> {99, 102, 114} \<Longrightarrow> k \<in> {99, 102, 114, 67, 70, 82}"
  by (auto simp: fold_rune_def is_upper_def split: if_splits)

lemma is_word_start: "fold_rune k \<in> {99, 102, 114} \<Longrightarrow> is_word (Some k)"
  using fold_start [of k] by (auto simp: is_word_def word_rune_def is_alnum_def is_upper_def is_lower_def)

lemma seqs_step:
  "q \<in> set (mt (seqs (r # rs)) p) \<longleftrightarrow>
     (\<exists>pv1 rs1 cs1. (pv1, rs1, cs1) \<in> set (mt r p) \<and> q \<in> set (mt (seqs rs) (pv1, rs1, cs1)))"
  by (simp only: seqs.simps mt_Seq_iff)

lemma mt_hash:
  "(pv', rs', cs') \<in> set (mt (lit ''#'') (pv, rs, cs)) \<Longrightarrow> rs = 35 # rs' \<and> pv' = Some 35"
  using reach_words [of "lit ''#''" pv rs cs pv' rs'] by (auto simp: reach_def words_lit asc_def)

lemma mt_closing:
  assumes "(pv', rest, cs') \<in> set (mt closing_re (pv, rs, []))"
  shows "\<exists>kw ws ds. rs = kw @ ws @ 35 # ds @ rest \<and> closes_at pv kw ws ds rest \<and> capture 3 cs' = ds
     \<and> pv' = after pv (kw @ ws @ 35 # ds)"
proof -
  obtain pv1 rs1 cs1 where b1: "is_word pv \<noteq> is_word (head rs)"
    and k: "(pv1, rs1, cs1) \<in> set (mt (Grp 1 keyword_re) (pv, rs, []))"
    and t1: "(pv', rest, cs') \<in> set (mt (seqs [Rep rx_space 1 None, lit ''#'', Grp 3 (Rep is_digit 1 None), WordB]) (pv1, rs1, cs1))"
    using assms unfolding closing_re_parts seqs_step [of _ WordB] seqs_step [of _ "Grp 1 keyword_re"] mt_WordB_iff
    by blast
  obtain kw where kw: "closing_word kw" "rs = kw @ rs1" "pv1 = after pv kw"
    using k reach_words [of "Grp 1 keyword_re" pv rs "[]" pv1 rs1] keyword_words
    unfolding reach_def plain_rx.simps words.simps by blast
  obtain pv2 rs2 cs2 where w: "(pv2, rs2, cs2) \<in> set (mt (Rep rx_space 1 None) (pv1, rs1, cs1))"
    and t2: "(pv', rest, cs') \<in> set (mt (seqs [lit ''#'', Grp 3 (Rep is_digit 1 None), WordB]) (pv2, rs2, cs2))"
    using t1 unfolding seqs_step [of _ "Rep rx_space 1 None"] by blast
  obtain ws where ws: "1 \<le> length ws" "list_all rx_space ws" "rs1 = ws @ rs2" "pv2 = after pv1 ws"
    using w unfolding mt_Rep_iff by blast
  obtain pv3 rs3 cs3 where h: "rs2 = 35 # rs3" "pv3 = Some 35"
    and t3: "(pv', rest, cs') \<in> set (mt (seqs [Grp 3 (Rep is_digit 1 None), WordB]) (pv3, rs3, cs3))"
    using t2 mt_hash unfolding seqs_step [of _ "lit ''#''"] by blast
  obtain pv4 rs4 cs4 where d: "(pv4, rs4, cs4) \<in> set (mt (Grp 3 (Rep is_digit 1 None)) (pv3, rs3, cs3))"
    and t4: "(pv', rest, cs') \<in> set (mt (seqs [WordB]) (pv4, rs4, cs4))"
    using t3 unfolding seqs_step [of _ "Grp 3 (Rep is_digit 1 None)"] by blast
  have e: "is_word pv4 \<noteq> is_word (head rs4)" "pv' = pv4" "rest = rs4" "cs' = cs4"
    using t4 by auto
  obtain ds cs5 where ds: "1 \<le> length ds" "list_all is_digit ds" "rs3 = ds @ rs4" "pv4 = after pv3 ds" "cs4 = (3, ds) # cs5"
    using d unfolding mt_Grp_iff mt_Rep_iff by auto
  then have "ds \<noteq> []" by auto
  note dw = is_word_digits [OF this ds(2)]
  have "is_word (head rs)"
    using closing_word_Cons [OF kw(1)] is_word_start kw(2) by (auto simp: head_def)
  then have "closes_at pv kw ws ds rest"
    using b1 kw(1) ws(1,2) ds(1,2) e dw by (auto simp: closes_at_def ds(4))
  moreover have "rs = kw @ ws @ 35 # ds @ rest \<and> capture 3 cs' = ds \<and> pv' = after pv (kw @ ws @ 35 # ds)"
    using kw ws h ds e by (simp add: capture_def)
  ultimately show ?thesis by blast
qed

lemma closing_mt:
  assumes "closes_at pv kw ws ds rest" 
  shows "find_here closing_re pv (kw @ ws @ 35 # ds @ rest) \<noteq> None"
proof -
  have c: "closing_word kw" "ws \<noteq> []" "list_all rx_space ws" "ds \<noteq> []" "list_all is_digit ds" "\<not> is_word pv" "\<not> is_word (head rest)"
    using assms by (simp_all add: closes_at_def)
  let ?r1 = "ws @ 35 # ds @ rest"
  have b2: "is_word (after (Some 35) ds) \<noteq> is_word (head rest)"
    using is_word_digits [OF c(4,5)] c by simp
  have 4: "(after (Some 35) ds, rest, cs) \<in> set (mt (seqs [WordB]) (after (Some 35) ds, rest, cs))" for cs
    using b2 by simp
  have "(after (Some 35) ds, rest, (3, ds) # cs) \<in> set (mt (Grp 3 (Rep is_digit 1 None)) (Some 35, ds @ rest, cs))" for cs
    unfolding mt_Grp_iff mt_Rep_iff using c by (auto simp: Suc_le_eq)
  then have 3: "\<exists>q. q \<in> set (mt (seqs [Grp 3 (Rep is_digit 1 None), WordB]) (Some 35, ds @ rest, cs))" for cs
    unfolding seqs_step [of _ "Grp 3 (Rep is_digit 1 None)"] using 4 by blast
  have "\<exists>cs'. (Some 35, ds @ rest, cs') \<in> set (mt (lit ''#'') (p, 35 # ds @ rest, cs))" for p cs
    using reach_words [of "lit ''#''" p "35 # ds @ rest" cs "Some 35" "ds @ rest"] unfolding reach_def
    by (simp add: words_lit asc_def)
  then have 2: "\<exists>q. q \<in> set (mt (seqs [lit ''#'', Grp 3 (Rep is_digit 1 None), WordB]) (p, 35 # ds @ rest, cs))" for p cs
    unfolding seqs_step [of _ "lit ''#''"] using 3 by blast
  have "(after p ws, 35 # ds @ rest, cs) \<in> set (mt (Rep rx_space 1 None) (p, ?r1, cs))" for p cs
    unfolding mt_Rep_iff using c by (auto simp: Suc_le_eq)
  then have 1: "\<exists>q. q \<in> set (mt (seqs [Rep rx_space 1 None, lit ''#'', Grp 3 (Rep is_digit 1 None), WordB]) (p, ?r1, cs))" for p cs
    unfolding seqs_step [of _ "Rep rx_space 1 None"] using 2 by blast
  have "reach (Grp 1 keyword_re) pv (kw @ ?r1) [] (after pv kw) ?r1"
    by (subst reach_words) (use keyword_words c(1) in auto)
  then have 0: "\<exists>q. q \<in> set (mt (seqs [Grp 1 keyword_re, Rep rx_space 1 None, lit ''#'', Grp 3 (Rep is_digit 1 None), WordB]) (pv, kw @ ?r1, []))"
    unfolding seqs_step [of _ "Grp 1 keyword_re"] reach_def using 1 by blast
  have "is_word pv \<noteq> is_word (head (kw @ ?r1))"
    using closing_word_Cons [OF c(1)] is_word_start c by (auto simp: head_def)
  then have "(pv, kw @ ?r1, []) \<in> set (mt WordB (pv, kw @ ?r1, []))"
    unfolding mt_WordB_iff by blast
  then have "\<exists>p. p \<in> set (mt closing_re (pv, kw @ ?r1, []))"
    unfolding closing_re_parts seqs_step [of _ WordB] using 0 by blast
  then show ?thesis by (auto simp: find_here_None_iff)
qed

lemma closing_findD:
  assumes "find_here closing_re pv rs = Some (pv', rest, cs)"
  obtains kw ws ds where "rs = kw @ ws @ 35 # ds @ rest" "closes_at pv kw ws ds rest" "capture 3 cs = ds"
  using mt_closing [OF find_here_Some_mt [OF assms]] by blast

lemma consuming_closing: "consuming closing_re"
  unfolding consuming_def by (auto elim!: closing_findD)

lemma rx_space_small: "rx_space x \<Longrightarrow> fold_rune x < 97"
  by (auto simp: rx_space_def fold_rune_def is_upper_def)

lemma closing_word_letters: "closing_word kw \<Longrightarrow> x \<in> set kw \<Longrightarrow> 97 \<le> fold_rune x"
  using closing_word_Cons [of kw] by auto

lemma closing_word_no_space: "closing_word kw \<Longrightarrow> x \<in> set kw \<Longrightarrow> \<not> rx_space x"
  using closing_word_letters rx_space_small by fastforce

lemma is_word_digit: "is_digit d \<Longrightarrow> is_word (Some d)"
  by (simp add: is_word_def word_rune_def is_alnum_def)

lemma closes_at_parts:
  assumes "closes_at pv kw ws ds rest"
  shows "\<forall>x \<in> set kw. \<not> rx_space x" "\<forall>x \<in> set ws. rx_space x" "\<forall>x \<in> set ds. is_digit x"
    and "ws @ r = [] \<or> \<not> \<not> rx_space (hd (ws @ r))" "rest = [] \<or> \<not> is_digit (hd rest)"
proof -
  show "\<forall>x \<in> set kw. \<not> rx_space x" using assms closing_word_no_space by (auto simp: closes_at_def)
  show "\<forall>x \<in> set ws. rx_space x" "\<forall>x \<in> set ds. is_digit x"
    using assms by (simp_all add: closes_at_def list_all_iff)
  show "ws @ r = [] \<or> \<not> \<not> rx_space (hd (ws @ r))"
    using assms by (cases ws) (simp_all add: closes_at_def)
  show "rest = [] \<or> \<not> is_digit (hd rest)"
    using assms is_word_digit by (cases rest) (auto simp: closes_at_def head_def)
qed

lemma closes_unique:
  assumes "kw @ ws @ 35 # ds @ rest = kw' @ ws' @ 35 # ds' @ rest'"
    and c: "closes_at pv kw ws ds rest" and c': "closes_at pv' kw' ws' ds' rest'"
  shows "kw = kw' \<and> ws = ws' \<and> ds = ds' \<and> rest = rest'"
proof -
  note p = closes_at_parts [OF c] and p' = closes_at_parts [OF c']
  have 1: "kw = kw' \<and> ws @ 35 # ds @ rest = ws' @ 35 # ds' @ rest'"
    by (rule front_unique [where P = "\<lambda>x. \<not> rx_space x", OF assms(1) p(1) p'(1) p(4) p'(4)])
  have h: "35 # t = [] \<or> \<not> rx_space (hd (35 # t))" for t
    by (simp add: rx_space_def)
  have 2: "ws = ws' \<and> 35 # ds @ rest = 35 # ds' @ rest'"
    by (rule front_unique [where P = rx_space, OF conjunct2 [OF 1] p(2) p'(2) h h])
  then have eq: "ds @ rest = ds' @ rest'" by simp
  have "ds = ds' \<and> rest = rest'"
    by (rule front_unique [where P = is_digit, OF eq p(3) p'(3) p(5) p'(5)])
  then show ?thesis using 1 2 by blast
qed

section \<open>What stripping leaves\<close>

text \<open>
  Scanning left to right, each match is either kept or rewritten. A rewritten one cannot be
  the beginning of a new match, and between the matches the text is what it was.
\<close>

definition own_issue :: "scope \<Rightarrow> rune list \<Rightarrow> bool" where
  "own_issue sc ds \<longleftrightarrow> sc_kind sc = ScopeIssue \<and> ds = asc (itoa (sc_number sc))"

lemma keep_or_ref_closing:
  assumes "closes_at pv kw ws ds rest"
  shows "keep_or_ref sc (kw @ ws @ 35 # ds) =
    (if own_issue sc ds then kw @ ws @ 35 # ds else asc ''ref #'' @ ds)"
proof -
  let ?m = "kw @ ws @ 35 # ds"
  have c: "closes_at None kw ws ds []"
    using assms by (simp add: closes_at_def is_word_def head_def)
  obtain pv' rs' cs where f: "find_here closing_re None ?m = Some (pv', rs', cs)"
    using closing_mt [OF c] by auto
  then obtain kw' ws' ds' where "?m = kw' @ ws' @ 35 # ds' @ rs'" "closes_at None kw' ws' ds' rs'" "capture 3 cs = ds'"
    by (rule closing_findD)
  then have "capture 3 cs = ds" using closes_unique [OF _ c, of "[]"] c by (metis append_Nil2 closes_unique)
  moreover have "find_from closing_re None ?m = Some cs"
    using f by (cases ?m) simp_all
  ultimately show ?thesis by (simp add: keep_or_ref_def own_issue_def)
qed

abbreviation stripped :: "scope \<Rightarrow> rune option \<Rightarrow> rune list \<Rightarrow> rune list" where
  "stripped sc \<equiv> replace_all closing_re (\<lambda>m _. keep_or_ref sc m)"

lemma stripped_match:
  assumes "find_here closing_re pv (m @ rs) = Some (after pv m, rs, cs)"
  obtains kw ws ds where "m = kw @ ws @ 35 # ds" "closes_at pv kw ws ds rs"
    "stripped sc pv (m @ rs) = (if own_issue sc ds then m else asc ''ref #'' @ ds) @ stripped sc (after pv m) rs"
proof -
  obtain kw ws ds where 1: "m @ rs = kw @ ws @ 35 # ds @ rs" and 2: "closes_at pv kw ws ds rs"
    using assms by (rule closing_findD)
  have m: "m = kw @ ws @ 35 # ds" using 1 by simp
  then have "m \<noteq> []" by simp
  then have "stripped sc pv (m @ rs) = keep_or_ref sc m @ stripped sc (after pv m) rs"
    using replace_all_match [OF assms] by simp
  then show ?thesis using that [OF m 2] keep_or_ref_closing [OF 2] m by simp
qed

definition start_rune :: "rune \<Rightarrow> bool" where
  "start_rune r \<longleftrightarrow> fold_rune r \<in> {99, 102, 114}"

lemma stripped_Cons:
  assumes "stripped sc pv rs = y # t" "\<not> start_rune y"
  obtains xs where "rs = y # xs" "t = stripped sc (Some y) xs"
proof (cases rs)
  case Nil
  then show ?thesis using assms by simp
next
  case (Cons x xs)
  show ?thesis
  proof (cases "find_here closing_re pv rs")
    case None
    then show ?thesis using assms Cons by (auto simp: replace_all_skip intro: that)
  next
    case (Some p)
    obtain pv' rs' cs where p: "p = (pv', rs', cs)" by (cases p)
    obtain m where "rs = m @ rs'" "pv' = after pv m" using find_here_SomeD Some p by metis
    then obtain kw ws ds where m: "m = kw @ ws @ 35 # ds" "closes_at pv kw ws ds rs'"
      "stripped sc pv rs = (if own_issue sc ds then m else asc ''ref #'' @ ds) @ stripped sc (after pv m) rs'"
      using stripped_match [of pv m rs' cs sc] Some p by metis
    then have "start_rune (hd (stripped sc pv rs))"
      using closing_word_Cons [of kw] by (auto simp: closes_at_def start_rune_def asc_def fold_rune_def is_upper_def)
    then show ?thesis using assms by simp
  qed
qed

lemma stripped_walk:
  "stripped sc pv rs = ys @ t \<Longrightarrow> \<forall>y \<in> set ys. \<not> start_rune y \<Longrightarrow>
   \<exists>xs. rs = ys @ xs \<and> t = stripped sc (after pv ys) xs"
proof (induction ys arbitrary: pv rs)
  case Nil
  then show ?case by simp
next
  case (Cons y ys)
  then obtain xs where "rs = y # xs" "ys @ t = stripped sc (Some y) xs"
    using stripped_Cons [of sc pv rs y "ys @ t"] by auto
  then show ?case using Cons.IH [of "Some y" xs] Cons.prems(2) by auto
qed

lemma stripped_after_word:
  assumes "is_word pv"
  shows "head (stripped sc pv rs) = head rs"
proof -
  have "find_here closing_re pv rs = None"
    using assms by (cases "find_here closing_re pv rs") (auto elim!: closing_findD simp: closes_at_def)
  then show ?thesis by (cases rs) (simp_all add: replace_all_skip head_def)
qed

lemma not_start: "rx_space x \<Longrightarrow> \<not> start_rune x" "is_digit x \<Longrightarrow> \<not> start_rune x" "\<not> start_rune 35"
  by (auto simp: start_rune_def rx_space_def is_digit_def fold_rune_def is_upper_def split: if_splits)

text \<open>A keyword match at the place of a rune that was not part of one stood there before.\<close>

lemma stripped_no_new:
  assumes "find_here closing_re pv (x # xs) = None" "x # stripped sc (Some x) xs = kw @ ws @ 35 # ds @ rest"
  shows "\<not> closes_at pv kw ws ds rest"
proof
  assume c: "closes_at pv kw ws ds rest"
  then obtain ks where k: "kw = x # ks" "\<forall>y \<in> set ks. \<not> start_rune y"
    using closing_word_Cons [of kw] assms(2) by (auto simp: closes_at_def start_rune_def)
  have "\<forall>y \<in> set (ks @ ws @ 35 # ds). \<not> start_rune y"
    using k(2) c not_start by (auto simp: closes_at_def list_all_iff)
  moreover have "stripped sc (Some x) xs = (ks @ ws @ 35 # ds) @ rest" using assms(2) k(1) by simp
  ultimately obtain zs where z: "xs = (ks @ ws @ 35 # ds) @ zs" "rest = stripped sc (after (Some x) (ks @ ws @ 35 # ds)) zs"
    using stripped_walk by blast
  have "is_word (after (Some x) (ks @ ws @ 35 # ds))"
    using is_word_digits [of ds] c by (simp add: closes_at_def)
  then have "head zs = head rest" using z(2) stripped_after_word by simp
  then have "closes_at pv kw ws ds zs" using c by (simp add: closes_at_def)
  then have "find_here closing_re pv (kw @ ws @ 35 # ds @ zs) \<noteq> None" by (rule closing_mt)
  then show False using assms(1) z(1) k(1) by simp
qed

lemma start_in_match:
  assumes "closes_at pv kw ws ds rest" "kw @ ws @ 35 # ds = a @ c # d" "start_rune c"
  shows "a = []"
proof (cases a)
  case (Cons y ys)
  obtain k ks where k: "kw = k # ks" "\<forall>x \<in> set ks. \<not> start_rune x"
    using closing_word_Cons [of kw] assms(1) by (auto simp: closes_at_def start_rune_def)
  then have "ks @ ws @ 35 # ds = ys @ c # d" using assms(2) Cons by simp
  then have "c \<in> set (ks @ ws @ 35 # ds)" by simp
  moreover have "\<forall>x \<in> set (ks @ ws @ 35 # ds). \<not> start_rune x"
    using k(2) assms(1) not_start by (auto simp: closes_at_def list_all_iff)
  ultimately show ?thesis using assms(3) by blast
qed

lemma closing_word_take3:
  "closing_word kw \<Longrightarrow> map fold_rune (take 3 kw) \<in> {[99, 108, 111], [102, 105, 120], [114, 101, 115]} \<and> 3 \<le> length kw"
proof -
  assume "closing_word kw"
  then have "take 3 (map fold_rune kw) \<in> {[99, 108, 111], [102, 105, 120], [114, 101, 115]} \<and> 3 \<le> length (map fold_rune kw)"
    unfolding closing_word_def by (auto simp: asc_def)
  then show ?thesis by (simp add: take_map)
qed

lemma ref_not_closing:
  assumes "asc ''ref #'' @ t = a @ kw @ u" "length a < 5" "closing_word kw" "\<not> is_word (after pv a)"
  shows False
proof -
  have r: "asc ''ref #'' = [114, 101, 102, 32, 35]" by (simp add: asc_def)
  obtain k ks where k: "kw = k # ks" "start_rune k"
    using closing_word_Cons [OF assms(3)] by (auto simp: start_rune_def)
  have ns: "\<not> start_rune 101" "\<not> start_rune 32" "\<not> start_rune 35"
    by (simp_all add: start_rune_def fold_rune_def is_upper_def)
  have "length a = 0 \<or> length a = 1 \<or> length a = 2 \<or> length a = 3 \<or> length a = 4"
    using assms(2) by linarith
  then consider "a = []" | "a = [114]" | "a = [114, 101]" | "a = [114, 101, 102]" | "a = [114, 101, 102, 32]"
    using assms(1) unfolding r by (auto simp: length_Suc_conv numeral_eq_Suc)
  then show False
  proof cases
    case 1
    obtain x y z v where v: "kw = x # y # z # v"
      using closing_word_take3 [OF assms(3)] by (cases kw; cases "tl kw"; cases "tl (tl kw)") auto
    then have "x = 114" "y = 101" "z = 102" using assms(1) 1 unfolding r by auto
    then show False using closing_word_take3 [OF assms(3)] v by (simp add: fold_rune_def is_upper_def)
  next
    case 3
    then show False using assms(4) by (simp add: is_word_def word_rune_def is_alnum_def is_lower_def)
  qed (use assms(1) k ns in \<open>simp_all add: r\<close>)
qed

lemma stripped_only_own:
  "stripped sc pv rs = a @ kw @ ws @ 35 # ds @ rest \<Longrightarrow> closes_at (after pv a) kw ws ds rest \<Longrightarrow>
   own_issue sc ds"
  using consuming_closing
proof (induction pv rs arbitrary: a rule: scan_induct)
  case (Nil pv)
  then show ?case by simp
next
  case (Skip pv x xs)
  show ?case
  proof (cases a)
    case Nil
    then have "x # stripped sc (Some x) xs = kw @ ws @ 35 # ds @ rest"
      using Skip.prems(1) Skip.hyps by (simp add: replace_all_skip)
    then show ?thesis using stripped_no_new [OF Skip.hyps] Skip.prems(2) Nil by simp
  next
    case (Cons y ys)
    then show ?thesis
      using Skip.IH [of ys] Skip.prems Skip.hyps by (auto simp: replace_all_skip)
  qed
next
  case (Match pv m rs cs)
  obtain kw0 ws0 ds0 where m: "m = kw0 @ ws0 @ 35 # ds0" and c0: "closes_at pv kw0 ws0 ds0 rs"
    and out: "stripped sc pv (m @ rs) =
      (if own_issue sc ds0 then m else asc ''ref #'' @ ds0) @ stripped sc (after pv m) rs"
    using stripped_match [OF Match.hyps(2)] by blast
  define u where "u = (if own_issue sc ds0 then m else asc ''ref #'' @ ds0)"
  let ?out2 = "stripped sc (after pv m) rs"
  have eq: "u @ ?out2 = a @ kw @ ws @ 35 # ds @ rest"
    using out Match.prems(1) unfolding u_def by simp
  have ds0: "ds0 \<noteq> []" "list_all is_digit ds0" using c0 by (simp_all add: closes_at_def)
  have wm: "is_word (after pv m)" and wu: "is_word (after pv u)"
    using is_word_digits [OF ds0] by (simp_all add: m u_def)
  obtain k ks where k: "kw = k # ks" "start_rune k"
    using closing_word_Cons [of kw] Match.prems(2) by (auto simp: closes_at_def start_rune_def)
  show ?case
  proof (cases "length u \<le> length a")
    case True
    then obtain b where b: "a = u @ b" "?out2 = b @ kw @ ws @ 35 # ds @ rest"
      using append_beyond [OF eq] by blast
    have "b \<noteq> []" using Match.prems(2) wu b(1) by (auto simp: closes_at_def)
    then have "after (after pv m) b = after pv a" by (simp add: after_def b(1))
    then show ?thesis using Match.IH [OF b(2)] Match.prems(2) by simp
  next
    case False
    then obtain d where d: "u = a @ k # d"
      using append_inside [of u ?out2 a k "ks @ ws @ 35 # ds @ rest"] eq k(1) by auto
    show ?thesis
    proof (cases "own_issue sc ds0")
      case True
      then have a: "a = []" using start_in_match [OF c0] d k(2) m by (simp add: u_def)
      have "closes_at pv kw0 ws0 ds0 ?out2"
        using c0 stripped_after_word [OF wm] by (simp add: closes_at_def)
      then have "ds = ds0"
        using closes_unique [of kw0 ws0 ds0 ?out2 kw ws ds rest pv pv] eq a Match.prems(2) True m
        by (simp add: u_def)
      then show ?thesis using True by simp
    next
      case not_own: False
      then have e: "asc ''ref #'' @ ds0 @ ?out2 = a @ kw @ ws @ 35 # ds @ rest"
        using eq by (simp add: u_def)
      show ?thesis
      proof (cases "length a < 5")
        case True
        then show ?thesis using ref_not_closing [OF e] Match.prems(2) by (auto simp: closes_at_def)
      next
        case False
        have "asc ''ref #'' @ ds0 = a @ k # d" using d not_own by (simp add: u_def)
        then have "drop 5 (asc ''ref #'' @ ds0) = drop 5 a @ k # d" using False by simp
        then have "ds0 = drop 5 a @ k # d" by (simp add: asc_def)
        then have "k \<in> set ds0" by simp
        then show ?thesis using k(2) ds0(2) not_start(2) by (auto simp: list_all_iff)
      qed
    qed
  qed
qed

section \<open>Mentions\<close>

fun quoted :: "rune option \<Rightarrow> rune list \<Rightarrow> bool" where
  "quoted pv [] = True"
| "quoted pv (x # xs) =
     ((x = 64 \<and> xs \<noteq> [] \<and> is_alnum (hd xs) \<longrightarrow> pv = Some 96) \<and> quoted (Some x) xs)"

lemma quoted_at: "quoted pv (a @ 64 # y # b) \<Longrightarrow> is_alnum y \<Longrightarrow> after pv a = Some 96"
  by (induction a arbitrary: pv) auto

lemma quoted_append:
  "64 \<notin> set u \<Longrightarrow> u \<noteq> [] \<Longrightarrow> quoted pv (u @ v) \<longleftrightarrow> quoted (after pv u) v"
proof (induction u arbitrary: pv)
  case (Cons x xs)
  then show ?case by (cases xs) auto
qed simp

lemma quoted_pv: "quoted pv xs \<Longrightarrow> (pv = Some 96 \<Longrightarrow> pv' = Some 96) \<Longrightarrow> quoted pv' xs"
  by (cases xs) auto

lemma mention_findD:
  assumes "find_here mention_re pv rs = Some (pv', rest, cs)"
  shows "\<exists>y name. rs = 64 # y # name @ rest \<and> is_alnum y \<and> list_all mention_class name
    \<and> capture 1 cs = y # name"
proof -
  obtain rs1 cs1 where 1: "rs = 64 # rs1"
    and 2: "(pv', rest, cs) \<in> set (mt (Grp 1 (Seq (Cls is_alnum) (Rep mention_class 0 (Some 38)))) (Some 64, rs1, cs1))"
    using find_here_Some_mt [OF assms] unfolding mention_re_def mt_Seq_iff [of _ "Cls (\<lambda>r. r = 64)"] mt_Cls_iff by blast
  then obtain w cs2 where w: "rs1 = w @ rest" "cs = (1, w) # cs2"
    "(pv', rest, cs2) \<in> set (mt (Seq (Cls is_alnum) (Rep mention_class 0 (Some 38))) (Some 64, rs1, cs1))"
    unfolding mt_Grp_iff by blast
  then obtain y name where "is_alnum y" "rs1 = y # name @ rest" "list_all mention_class name"
    unfolding mt_Seq_iff mt_Cls_iff mt_Rep_iff by blast
  then show ?thesis using 1 w by (simp add: capture_def)
qed

lemma mention_None:
  assumes "find_here mention_re pv (64 # y # xs) = None"
  shows "\<not> is_alnum y"
proof
  assume y: "is_alnum y"
  have "(Some y, xs, []) \<in> set (mt (Rep mention_class 0 (Some 38)) (Some y, xs, []))"
    unfolding mt_Rep_iff by simp
  then have "(Some y, xs, []) \<in> set (mt (Seq (Cls is_alnum) (Rep mention_class 0 (Some 38))) (Some 64, y # xs, []))"
    unfolding mt_Seq_iff mt_Cls_iff using y by blast
  then have "(Some y, xs, [(1, [y])]) \<in> set (mt (Grp 1 (Seq (Cls is_alnum) (Rep mention_class 0 (Some 38)))) (Some 64, y # xs, []))"
    unfolding mt_Grp_iff by (metis append_Cons append_Nil)
  then have "(Some y, xs, [(1, [y])]) \<in> set (mt mention_re (pv, 64 # y # xs, []))"
    unfolding mention_re_def mt_Seq_iff [of _ "Cls (\<lambda>r. r = 64)"] mt_Cls_iff by blast
  then show False using assms by (auto simp: find_here_None_iff)
qed

lemma consuming_mention: "consuming mention_re"
  unfolding consuming_def using mention_findD by fastforce

abbreviation quoting :: "rune option \<Rightarrow> rune list \<Rightarrow> rune list" where
  "quoting \<equiv> replace_all mention_re (\<lambda>m cs. [96, 64] @ capture 1 cs @ [96])"

lemma quoting_head:
  assumes "quoting pv xs = y # t" "is_alnum y"
  shows "\<exists>zs. xs = y # zs"
proof (cases xs)
  case Nil
  then show ?thesis using assms by simp
next
  case (Cons x zs)
  show ?thesis
  proof (cases "find_here mention_re pv xs")
    case None
    then show ?thesis using Cons assms by (simp add: replace_all_skip)
  next
    case (Some p)
    obtain pv' rest cs where p: "p = (pv', rest, cs)" by (cases p)
    obtain m where m: "xs = m @ rest" "pv' = after pv m" using find_here_SomeD Some p by metis
    then have "m \<noteq> []" using consuming_mention Some p unfolding consuming_def by fastforce
    then have "quoting pv xs = 96 # 64 # capture 1 cs @ [96] @ quoting (after pv m) rest"
      using replace_all_match [of mention_re pv m rest] Some m p by simp
    then show ?thesis using assms by (simp add: is_alnum_def is_digit_def is_upper_def is_lower_def)
  qed
qed

lemma quoting_quoted: "quoted pv (quoting pv rs)"
  using consuming_mention
proof (induction pv rs rule: scan_induct)
  case (Nil pv)
  then show ?case by simp
next
  case (Skip pv x xs)
  have "\<not> (x = 64 \<and> quoting (Some x) xs \<noteq> [] \<and> is_alnum (hd (quoting (Some x) xs)))"
    using quoting_head [of "Some x" xs] mention_None Skip.hyps by (fastforce simp: neq_Nil_conv)
  then show ?case using Skip by (auto simp: replace_all_skip)
next
  case (Match pv m rs cs)
  obtain y name where n: "m @ rs = 64 # y # name @ rs" "is_alnum y" "list_all mention_class name"
    "capture 1 cs = y # name" using mention_findD [OF Match.hyps(2)] by blast
  have no: "64 \<notin> set (y # name @ [96])"
    using n(2,3) by (auto simp: list_all_iff mention_class_def is_alnum_def is_digit_def is_upper_def is_lower_def)
  have "quoted (Some 96) (quoting (after pv m) rs)"
    using Match.IH by (rule quoted_pv) simp
  then have "quoted (Some 64) ((y # name @ [96]) @ quoting (after pv m) rs)"
    by (subst quoted_append [OF no]) simp_all
  moreover have "quoting pv (m @ rs) = 96 # 64 # (y # name @ [96]) @ quoting (after pv m) rs"
    using replace_all_match [OF Match.hyps(2,1)] n(4) by simp
  ultimately show ?case by simp
qed

lemma stripped_head_alnum:
  assumes "stripped sc pv xs = y # t" "is_alnum y"
  shows "\<exists>z zs. xs = z # zs \<and> is_alnum z"
proof (cases "start_rune y")
  case False
  then show ?thesis using stripped_Cons [OF assms(1)] assms(2) by metis
next
  case True
  show ?thesis
  proof (cases xs)
    case Nil
    then show ?thesis using assms by simp
  next
    case (Cons z zs)
    show ?thesis
    proof (cases "find_here closing_re pv xs")
      case None
      then show ?thesis using Cons assms by (simp add: replace_all_skip)
    next
      case (Some p)
      obtain pv' rest cs where "p = (pv', rest, cs)" by (cases p)
      then obtain kw ws ds where "xs = kw @ ws @ 35 # ds @ rest" "closes_at pv kw ws ds rest"
        using closing_findD Some by metis
      then have "closing_word kw" "xs = kw @ ws @ 35 # ds @ rest" by (simp_all add: closes_at_def)
      then have "start_rune z" using closing_word_Cons [of kw] Cons by (auto simp: start_rune_def)
      then have "z \<in> {99, 102, 114, 67, 70, 82}" using fold_start by (simp add: start_rune_def)
      then have "is_alnum z" unfolding is_alnum_def is_upper_def is_lower_def by fastforce
      then show ?thesis using Cons by blast
    qed
  qed
qed

lemma stripped_quoted:
  "quoted pv rs \<Longrightarrow> quoted pv (stripped sc pv rs)"
  using consuming_closing
proof (induction pv rs rule: scan_induct)
  case (Nil pv)
  then show ?case by simp
next
  case (Skip pv x xs)
  have "x = 64 \<and> stripped sc (Some x) xs \<noteq> [] \<and> is_alnum (hd (stripped sc (Some x) xs)) \<Longrightarrow> pv = Some 96"
    using stripped_head_alnum [of sc "Some x" xs] Skip.prems by (fastforce simp: neq_Nil_conv)
  then show ?case using Skip by (auto simp: replace_all_skip)
next
  case (Match pv m rs cs)
  obtain kw ws ds where m: "m = kw @ ws @ 35 # ds" and c: "closes_at pv kw ws ds rs"
    and out: "stripped sc pv (m @ rs) =
      (if own_issue sc ds then m else asc ''ref #'' @ ds) @ stripped sc (after pv m) rs"
    using stripped_match [OF Match.hyps(2)] by blast
  define u where "u = (if own_issue sc ds then m else asc ''ref #'' @ ds)"
  have at: "64 \<notin> set ds" "64 \<notin> set ws" using c by (auto simp: closes_at_def list_all_iff is_digit_def rx_space_def)
  have "closing_word kw" using c by (simp add: closes_at_def)
  then have "64 \<notin> set kw"
    using closing_word_letters [of kw 64] by (auto simp: fold_rune_def is_upper_def)
  then have 1: "64 \<notin> set u" "64 \<notin> set m" using at by (auto simp: u_def m asc_def)
  have 2: "u \<noteq> []" "m \<noteq> []" by (auto simp: u_def m asc_def)
  have "ds \<noteq> []" using c by (simp add: closes_at_def)
  then have 3: "after pv u = after pv m" by (simp add: u_def m after_def)
  have "quoted (after pv m) rs" using Match.prems quoted_append [OF 1(2) 2(2)] by simp
  then have "quoted (after pv m) (stripped sc (after pv m) rs)" by (rule Match.IH)
  then show ?case using out 3 quoted_append [OF 1(1) 2(1)] by (simp add: u_def)
qed

section \<open>Sanitised bodies\<close>

lemma closing_find:
  assumes "closes_at pv kw ws ds rest"
  shows "\<exists>cs. find_here closing_re pv (kw @ ws @ 35 # ds @ rest) =
      Some (after pv (kw @ ws @ 35 # ds), rest, cs) \<and> capture 3 cs = ds"
proof -
  obtain pv' rest' cs where f: "find_here closing_re pv (kw @ ws @ 35 # ds @ rest) = Some (pv', rest', cs)"
    using closing_mt [OF assms] by auto
  then obtain kw' ws' ds' where e: "kw @ ws @ 35 # ds @ rest = kw' @ ws' @ 35 # ds' @ rest'"
    "closes_at pv kw' ws' ds' rest'" "capture 3 cs = ds'" "pv' = after pv (kw' @ ws' @ 35 # ds')"
    using mt_closing [OF find_here_Some_mt] by metis
  then show ?thesis using f closes_unique [OF e(1) assms e(2)] by auto
qed

lemma stripped_closing:
  assumes "closes_at pv kw ws ds rest"
  shows "stripped sc pv (kw @ ws @ 35 # ds @ rest) =
    (if own_issue sc ds then kw @ ws @ 35 # ds else asc ''ref #'' @ ds)
      @ stripped sc (after pv (kw @ ws @ 35 # ds)) rest"
proof -
  obtain cs where "find_here closing_re pv ((kw @ ws @ 35 # ds) @ rest) =
      Some (after pv (kw @ ws @ 35 # ds), rest, cs)"
    using closing_find [OF assms] by auto
  then show ?thesis
    using replace_all_match [of closing_re pv "kw @ ws @ 35 # ds" rest] keep_or_ref_closing [OF assms]
    by simp
qed

lemma strip_control_valid: "\<forall>r \<in> set (strip_control (to_runes s)). valid_rune r"
  by (auto simp: strip_control_def to_runes_valid)

lemma capture_all: "\<forall>c \<in> set cs. \<forall>x \<in> set (snd c). Q x \<Longrightarrow> \<forall>x \<in> set (capture i cs). Q x"
  by (cases "map_of cs i") (auto simp: capture_def dest!: map_of_SomeD)

lemma quoting_all:
  assumes "\<forall>x \<in> set rs. Q x" "Q 96" "Q 64"
  shows "\<forall>x \<in> set (quoting pv rs). Q x"
proof (rule replace_all_all [OF consuming_mention assms(1)])
  fix m :: "rune list" and cs :: captures
  assume "\<forall>c \<in> set cs. \<forall>x \<in> set (snd c). Q x"
  then have "\<forall>x \<in> set (capture 1 cs). Q x" by (rule capture_all)
  then show "\<forall>x \<in> set ([96, 64] @ capture 1 cs @ [96]). Q x" using assms(2,3) by auto
qed

lemma find_from_captures:
  "find_from r pv rs = Some cs \<Longrightarrow> (i, m) \<in> set cs \<Longrightarrow> set m \<subseteq> set rs"
proof (induction r pv rs rule: find_from.induct)
  case (1 r pv)
  then show ?case using find_here_captures [of r pv "[]"] by fastforce
next
  case (2 r pv x xs)
  then show ?case using find_here_captures [of r pv "x # xs"]
    by (fastforce split: option.splits)
qed

lemma stripped_all:
  assumes "\<forall>x \<in> set rs. Q x" "\<forall>x \<in> set (asc ''ref #''). Q x"
  shows "\<forall>x \<in> set (stripped sc pv rs). Q x"
proof (rule replace_all_all [OF consuming_closing assms(1)])
  fix m :: "rune list" and cs :: captures
  assume m: "\<forall>x \<in> set m. Q x"
  show "\<forall>x \<in> set (keep_or_ref sc m). Q x"
  proof (cases "find_from closing_re None m")
    case None
    then show ?thesis using m assms(2) by (auto simp: keep_or_ref_def)
  next
    case (Some g)
    then have "\<forall>x \<in> set (capture 3 g). Q x"
      using find_from_captures [OF Some] m by (intro capture_all) fastforce
    then show ?thesis using m assms(2) Some by (auto simp: keep_or_ref_def Let_def)
  qed
qed

definition neutral_runes :: "scope \<Rightarrow> string \<Rightarrow> rune list" where
  "neutral_runes sc s = strip_closing sc (quote_mentions (strip_control (to_runes s)))"

lemma neutral_runes_all:
  assumes "\<forall>x \<in> set (strip_control (to_runes s)). Q x" "Q 96" "Q 64" "\<forall>x \<in> set (asc ''ref #''). Q x"
  shows "\<forall>x \<in> set (neutral_runes sc s). Q x"
  unfolding neutral_runes_def strip_closing_def quote_mentions_def
  by (intro stripped_all quoting_all assms)

lemma neutral_runes_valid: "\<forall>r \<in> set (neutral_runes sc s). valid_rune r"
  by (rule neutral_runes_all [OF strip_control_valid]) (simp_all add: valid_rune_def asc_def)

lemma neutralise_runes: "neutralise sc s = of_runes (neutral_runes sc s)"
  by (simp add: neutralise_def neutral_runes_def)

lemma neutral_runes_quoted: "quoted None (neutral_runes sc s)"
  unfolding neutral_runes_def strip_closing_def quote_mentions_def
  by (intro stripped_quoted quoting_quoted)

text \<open>Every sanitised body is a front of the neutralised text, with at most the mark behind it.\<close>

lemma sanitiseBody_shape:
  assumes "sanitiseBody s n sc = Some t"
  obtains (whole) "t = neutralise sc s" "int (length t) \<le> n"
  | (cut) k where "t = take k (neutralise sc s) @ truncated_mark" "int k = n"
  using assms by (auto simp: sanitiseBody_def Let_def split: if_splits)

lemma neutralise_mention:
  assumes "neutralise sc s = a @ CHR ''@'' # y # b" "is_alnum (of_char y)"
  shows "a \<noteq> [] \<and> last a = CHR 0x60"
proof -
  have y: "of_char y < (128 :: nat)"
    using assms(2) by (auto simp: is_alnum_def is_digit_def is_upper_def is_lower_def)
  obtain ra rb where 1: "neutral_runes sc s = ra @ 64 # rb" "a = of_runes ra" "y # b = of_runes rb"
    using of_runes_ascii_at [of "neutral_runes sc s" a "CHR ''@''" "y # b"] assms(1) by (auto simp: neutralise_runes)
  obtain rc where "rb = of_char y # rc"
    using of_runes_ascii_at [of rb "[]" y b] 1(3) y by (metis append_Nil of_runes_Nil_iff)
  then have "after None ra = Some 96"
    using quoted_at [of None ra "of_char y" rc] neutral_runes_quoted [of sc s] assms(2) 1(1) by simp
  then have "ra \<noteq> [] \<and> last ra = of_char (CHR 0x60)" by (auto simp: after_def split: if_splits)
  then have "ra = butlast ra @ [of_char (CHR 0x60)]" by (metis append_butlast_last_id)
  then have "a = of_runes (butlast ra) @ of_runes [of_char (CHR 0x60)]"
    unfolding 1(2) of_runes_append [symmetric] by simp
  also have "\<dots> = of_runes (butlast ra) @ [CHR 0x60]"
    by (subst of_runes_single) simp_all
  finally have "a = of_runes (butlast ra) @ [CHR 0x60]" .
  then show ?thesis by simp
qed

lemma take_ascii_at:
  assumes "take k t @ truncated_mark = a @ CHR ''@'' # y # b" "is_alnum (of_char y)"
  shows "\<exists>b'. t = a @ CHR ''@'' # y # b'"
proof -
  have no_at: "CHR ''@'' \<notin> set truncated_mark" by (simp add: truncated_mark_def)
  have "length a < length (take k t)"
  proof (rule ccontr)
    assume "\<not> length a < length (take k t)"
    then have "length (take k t) \<le> length a" by (simp only: not_less)
    then obtain c where "truncated_mark = c @ CHR ''@'' # y # b" by (rule append_beyond [OF assms(1)])
    then show False using no_at by (metis in_set_conv_decomp)
  qed
  then obtain d' where d': "take k t = a @ CHR ''@'' # d'" "d' @ truncated_mark = y # b"
    by (rule append_inside [OF assms(1)])
  have "d' \<noteq> []"
  proof
    assume "d' = []"
    then have "hd truncated_mark = y" using d'(2) by (metis append_Nil list.sel(1))
    then have "y = CHR 0x0A" by (simp add: truncated_mark_def)
    then show False using assms(2) by (simp add: is_alnum_def is_digit_def is_upper_def is_lower_def)
  qed
  then obtain d2 where "d' = y # d2" using d'(2) by (cases d') auto
  then have "take k t = a @ CHR ''@'' # y # d2" using d'(1) by simp
  then have "t = a @ CHR ''@'' # y # d2 @ drop k t" by (metis append.assoc append_Cons append_take_drop_id)
  then show ?thesis by blast
qed

text \<open>Without a hash nothing closes.\<close>

lemma stripped_no_hash: "35 \<notin> set rs \<Longrightarrow> stripped sc pv rs = rs"
proof (rule replace_all_no_match)
  assume "35 \<notin> set rs"
  then show "\<not> match_from closing_re pv rs"
    unfolding match_from_iff by (fastforce elim!: closing_findD)
qed

section \<open>Properties\<close>

text \<open>
  The pattern finds a closing keyword where there is one, and only there: a keyword of the nine,
  white space, a hash and a number, not inside a longer word on either side; group 3 is the number.
\<close>

theorem closing_re_spec:
  "(\<exists>cs. find_here closing_re pv rs = Some (pv', rest, cs) \<and> capture 3 cs = ds) \<longleftrightarrow>
   (\<exists>kw ws. rs = kw @ ws @ 35 # ds @ rest \<and> closes_at pv kw ws ds rest \<and> pv' = after pv ds)"
  (is "?L \<longleftrightarrow> ?R")
proof
  assume ?L
  then obtain cs where "find_here closing_re pv rs = Some (pv', rest, cs)" "capture 3 cs = ds" by blast
  then obtain kw ws where "rs = kw @ ws @ 35 # ds @ rest" "closes_at pv kw ws ds rest"
    "pv' = after pv (kw @ ws @ 35 # ds)" using mt_closing [OF find_here_Some_mt] by metis
  then show ?R by (auto simp: closes_at_def after_def)
next
  assume ?R
  then obtain kw ws where r: "rs = kw @ ws @ 35 # ds @ rest" "closes_at pv kw ws ds rest" "pv' = after pv ds" by blast
  then have "pv' = after pv (kw @ ws @ 35 # ds)" by (auto simp: closes_at_def after_def)
  then show ?L using closing_find [OF r(2)] r(1) by auto
qed

text \<open>
  C3: A body that was not cut closes nothing but the run's own issue: wherever GitHub would find a
  closing keyword with a number in it, the run is about an issue and the number is that issue's.
\<close>

theorem sanitised_closes_only_own:
  assumes "sanitiseBody s n sc = Some t" "int (length (neutralise sc s)) \<le> n"
    and "to_runes t = a @ b" "find_here closing_re (after None a) b = Some (pv, rest, cs)"
  shows "sc_kind sc = ScopeIssue \<and> capture 3 cs = asc (itoa (sc_number sc))"
proof -
  have "t = neutralise sc s" using assms(1,2) by (auto simp: sanitiseBody_def Let_def)
  then have r: "neutral_runes sc s = a @ b"
    using assms(3) to_runes_of_runes [OF neutral_runes_valid] by (simp add: neutralise_runes)
  obtain kw ws ds where b: "b = kw @ ws @ 35 # ds @ rest" "closes_at (after None a) kw ws ds rest"
    "capture 3 cs = ds" using assms(4) by (rule closing_findD)
  have "own_issue sc ds"
    using stripped_only_own [OF _ b(2)] r b(1) by (simp add: neutral_runes_def strip_closing_def)
  then show ?thesis using b(3) by (simp add: own_issue_def)
qed

definition example_scope :: scope where
  "example_scope = \<lparr>sc_kind = ''issue'', sc_number = 12, sc_base_ref = [], sc_base_sha = [], sc_head_sha = []\<rparr>"

lemmas closes_at_code = closes_at_def closing_word_def asc_def fold_rune_def is_upper_def rx_space_def
  is_digit_def is_word_def head_def word_rune_def is_alnum_def is_lower_def

lemma example_closes: "closes_at None (asc ''closes'') [32] (asc ''12'') []"
  by (simp add: closes_at_code)

lemma example_neutralise: "neutralise example_scope ''closes #12'' = ''closes #12''"
proof -
  have s: "asc ''closes'' @ [32] @ 35 # asc ''12'' @ [] = asc ''closes #12''" by (simp add: asc_def)
  have own: "own_issue example_scope (asc ''12'')" by code_simp
  have q: "quote_mentions (strip_control (to_runes ''closes #12'')) = asc ''closes #12''" by code_simp
  have "neutral_runes example_scope ''closes #12'' = asc ''closes #12''"
    unfolding neutral_runes_def q strip_closing_def
    using stripped_closing [OF example_closes, of example_scope] own s by simp
  then show ?thesis by (simp add: neutralise_runes of_runes_asc ascii_def)
qed

lemma sanitised_closes_only_own_witness: "sc_kind example_scope = ScopeIssue"
proof -
  obtain cs where f: "find_here closing_re (after None []) (asc ''closes #12'') =
      Some (after None (asc ''closes'' @ [32] @ 35 # asc ''12''), [], cs)"
    using closing_find [OF example_closes] by (auto simp: asc_def)
  have "sanitiseBody ''closes #12'' 99 example_scope = Some ''closes #12''"
    by (simp add: sanitiseBody_def example_neutralise)
  from sanitised_closes_only_own [OF this _ _ f] show ?thesis
    by (simp add: example_neutralise to_runes_ascii ascii_def)
qed

text \<open>C38: The cut undoes that: a body longer than the limit can close an issue that is not the run's.\<close>

theorem truncation_can_close:
  "\<exists>s n sc t a b pv rest cs. sanitiseBody s n sc = Some t \<and> to_runes t = a @ b
     \<and> find_here closing_re (after None a) b = Some (pv, rest, cs)
     \<and> capture 3 cs \<noteq> asc (itoa (sc_number sc))"
proof -
  have c1: "closes_at None (asc ''closes'') [32] (asc ''1'') (asc truncated_mark)"
    by (simp add: closes_at_code truncated_mark_def)
  have num: "asc ''1'' \<noteq> asc (itoa (sc_number example_scope))" by code_simp
  have s: "asc ''closes'' @ [32] @ 35 # asc ''1'' @ asc truncated_mark = asc (''closes #1'' @ truncated_mark)"
    by (simp add: asc_def)
  have 1: "sanitiseBody ''closes #12'' 9 example_scope = Some (''closes #1'' @ truncated_mark)"
    unfolding sanitiseBody_def example_neutralise by code_simp
  have 2: "to_runes (''closes #1'' @ truncated_mark) = [] @ asc (''closes #1'' @ truncated_mark)"
    by (simp add: to_runes_ascii ascii_def truncated_mark_def)
  obtain cs where "find_here closing_re (after None []) (asc (''closes #1'' @ truncated_mark)) =
      Some (after None (asc ''closes'' @ [32] @ 35 # asc ''1''), asc truncated_mark, cs)"
    "capture 3 cs = asc ''1''" using closing_find [OF c1] s by auto
  with 1 2 num show ?thesis by metis
qed



text \<open>A sanitised body is at most fifteen bytes longer than the limit.\<close>

theorem sanitised_length:
  assumes "sanitiseBody s n sc = Some t"
  shows "int (length t) \<le> n + 15"
  using assms by (cases rule: sanitiseBody_shape) (auto simp: truncated_mark_def)

lemma sanitised_length_witness: "int (length (''clos'' @ truncated_mark)) \<le> 4 + 15"
proof -
  have "sanitiseBody ''closes #12'' 4 example_scope = Some (''clos'' @ truncated_mark)"
    by (simp add: sanitiseBody_def example_neutralise)
  then show ?thesis by (rule sanitised_length)
qed

text \<open>Sanitising panics exactly when the limit is negative.\<close>

theorem sanitise_panics: "sanitiseBody s n sc = None \<longleftrightarrow> n < 0"
  by (auto simp: sanitiseBody_def Let_def split: if_splits)

end
