(* ===== verification/GoHash.thy ===== *)
theory GoHash
  imports GoText "HOL-Library.Word"
begin

unbundle bit_operations_syntax

text \<open>
  Go's \<open>crypto/sha256\<close> (FIPS 180-4) and \<open>encoding/hex\<close>, which the program uses for
  idempotency keys, graph-cache keys and failure signatures. The 32-bit arithmetic is that of
  \<open>32 word\<close>. Theorems elsewhere that need two digests to differ state the collision they
  exclude; nothing is assumed of the function.
\<close>

type_synonym w32 = "32 word"

text \<open>
  The tables of the standard are the first 32 bits of the fractional parts of the cube roots and of
  the square roots of the first primes.
\<close>

definition primes :: "nat list" where
  "primes = [2, 3, 5, 7, 11, 13, 17, 19, 23, 29, 31, 37, 41, 43, 47, 53, 59, 61, 67, 71, 73, 79, 83, 89,
     97, 101, 103, 107, 109, 113, 127, 131, 137, 139, 149, 151, 157, 163, 167, 173, 179, 181, 191, 193,
     197, 199, 211, 223, 227, 229, 233, 239, 241, 251, 257, 263, 269, 271, 277, 281, 283, 293, 307, 311]"

definition int_root :: "nat \<Rightarrow> nat \<Rightarrow> nat" where
  "int_root k n = foldl (\<lambda>r i. if (r + 2 ^ i) ^ k \<le> n then r + 2 ^ i else r) 0 (rev [0..<40])"

definition root_bits :: "nat \<Rightarrow> nat \<Rightarrow> w32" where
  "root_bits k p = of_nat (int_root k (p * 2 ^ (32 * k)))"

definition round_constants :: "w32 list" where
  "round_constants = map (root_bits 3) primes"

definition initial_hash :: "w32 list" where
  "initial_hash = map (root_bits 2) (take 8 primes)"

definition rotr :: "nat \<Rightarrow> w32 \<Rightarrow> w32" where
  "rotr n x = drop_bit n x OR push_bit (32 - n) x"

definition big_sigma0 :: "w32 \<Rightarrow> w32" where
  "big_sigma0 x = rotr 2 x XOR rotr 13 x XOR rotr 22 x"

definition big_sigma1 :: "w32 \<Rightarrow> w32" where
  "big_sigma1 x = rotr 6 x XOR rotr 11 x XOR rotr 25 x"

definition small_sigma0 :: "w32 \<Rightarrow> w32" where
  "small_sigma0 x = rotr 7 x XOR rotr 18 x XOR drop_bit 3 x"

definition small_sigma1 :: "w32 \<Rightarrow> w32" where
  "small_sigma1 x = rotr 17 x XOR rotr 19 x XOR drop_bit 10 x"

text \<open>The message schedule, the latest word first: 48 more words after the block's 16.\<close>

fun schedule :: "nat \<Rightarrow> w32 list \<Rightarrow> w32 list" where
  "schedule 0 ws = ws"
| "schedule (Suc n) ws =
     schedule n ((small_sigma1 (ws ! 1) + ws ! 6 + small_sigma0 (ws ! 14) + ws ! 15) # ws)"

type_synonym working = "w32 \<times> w32 \<times> w32 \<times> w32 \<times> w32 \<times> w32 \<times> w32 \<times> w32"

fun sha_round :: "w32 \<times> w32 \<Rightarrow> working \<Rightarrow> working" where
  "sha_round (k, w) (a, b, c, d, e, f, g, h) =
     (let t1 = h + big_sigma1 e + ((e AND f) XOR (NOT e AND g)) + k + w;
          t2 = big_sigma0 a + ((a AND b) XOR (a AND c) XOR (b AND c))
      in (t1 + t2, a, b, c, d + t1, e, f, g))"

definition to_working :: "w32 list \<Rightarrow> working" where
  "to_working h = (h ! 0, h ! 1, h ! 2, h ! 3, h ! 4, h ! 5, h ! 6, h ! 7)"

fun of_working :: "working \<Rightarrow> w32 list" where
  "of_working (a, b, c, d, e, f, g, h) = [a, b, c, d, e, f, g, h]"

definition compress :: "w32 list \<Rightarrow> w32 list \<Rightarrow> w32 list" where
  "compress h block =
     map2 (+) h (of_working (fold sha_round
       (zip round_constants (rev (schedule 48 (rev block)))) (to_working h)))"

text \<open>Padding: a 1 bit, zeros, and the length in bits as a 64-bit big-endian number.\<close>

definition be_bytes :: "nat \<Rightarrow> nat \<Rightarrow> nat list" where
  "be_bytes k n = map (\<lambda>i. n div 256 ^ (k - 1 - i) mod 256) [0..<k]"

definition pad :: "nat list \<Rightarrow> nat list" where
  "pad m =
     (let l = length m; z = (55 + 64 - l mod 64) mod 64
      in m @ 128 # replicate z 0 @ be_bytes 8 (8 * l))"

definition be_word :: "nat list \<Rightarrow> w32" where
  "be_word bs = of_nat (foldl (\<lambda>acc b. acc * 256 + b) 0 bs)"

fun pieces :: "nat \<Rightarrow> nat \<Rightarrow> 'a list \<Rightarrow> 'a list list" where
  "pieces 0 k xs = []"
| "pieces (Suc n) k xs = take k xs # pieces n k (drop k xs)"

definition sha256 :: "nat list \<Rightarrow> nat list" where
  "sha256 m =
     (let p = pad m;
          blocks = map (\<lambda>b. map be_word (pieces 16 4 b)) (pieces (length p div 64) 64 p)
      in concat (map (\<lambda>w. be_bytes 4 (unat w)) (foldl compress initial_hash blocks)))"

definition hex_char :: "nat \<Rightarrow> char" where
  "hex_char n = char_of (if n < 10 then 48 + n else 87 + n)"

definition hex_encode :: "nat list \<Rightarrow> string" where
  "hex_encode bs = concat (map (\<lambda>b. [hex_char (b div 16), hex_char (b mod 16)]) bs)"

definition sha256_hex :: "string \<Rightarrow> string" where
  "sha256_hex s = hex_encode (sha256 (bytes s))"

section \<open>Shape of the result\<close>

lemma length_compress: "length h = 8 \<Longrightarrow> length (compress h b) = 8"
proof -
  have "length (of_working w) = 8" for w
    by (cases w rule: of_working.cases) simp
  then show "length h = 8 \<Longrightarrow> length (compress h b) = 8" by (simp add: compress_def)
qed

lemma length_foldl_compress: "length h = 8 \<Longrightarrow> length (foldl compress h bs) = 8"
  by (induction bs arbitrary: h) (simp_all add: length_compress)

lemma length_be_bytes [simp]: "length (be_bytes k n) = k"
  by (simp add: be_bytes_def)

lemma length_sha256: "length (sha256 m) = 32"
proof -
  have "length (concat (map (\<lambda>w. be_bytes 4 (unat w)) ws)) = 4 * length ws" for ws :: "w32 list"
    by (induction ws) simp_all
  then show ?thesis
    by (simp add: sha256_def Let_def length_foldl_compress initial_hash_def primes_def)
qed

lemma sha256_bytes: "b \<in> set (sha256 m) \<Longrightarrow> b < 256"
  by (auto simp: sha256_def Let_def be_bytes_def)

lemma length_hex_encode: "length (hex_encode bs) = 2 * length bs"
  unfolding hex_encode_def by (induction bs) simp_all

lemma length_sha256_hex: "length (sha256_hex s) = 64"
  by (simp add: sha256_hex_def length_hex_encode length_sha256)

lemma hex_char_inj: "m < 16 \<Longrightarrow> n < 16 \<Longrightarrow> hex_char m = hex_char n \<Longrightarrow> m = n"
proof -
  assume m: "m < 16" and n: "n < 16" and "hex_char m = hex_char n"
  then have "of_char (hex_char m) = (of_char (hex_char n) :: nat)" by simp
  then show "m = n" using m n by (auto simp: hex_char_def split: if_splits)
qed

lemma hex_encode_inj:
  "(\<forall>b \<in> set xs. b < 256) \<Longrightarrow> (\<forall>b \<in> set ys. b < 256) \<Longrightarrow> hex_encode xs = hex_encode ys \<Longrightarrow> xs = ys"
proof (induction xs arbitrary: ys)
  case Nil
  then show ?case by (cases ys) (simp_all add: hex_encode_def)
next
  case (Cons x xs)
  then obtain y ys' where y: "ys = y # ys'" by (cases ys) (simp_all add: hex_encode_def)
  have "hex_char (x div 16) = hex_char (y div 16)" "hex_char (x mod 16) = hex_char (y mod 16)"
    and rest: "hex_encode xs = hex_encode ys'"
    using Cons.prems(3) by (simp_all add: y hex_encode_def)
  then have "x div 16 = y div 16" "x mod 16 = y mod 16"
    using Cons.prems(1,2) by (auto simp: y intro: hex_char_inj)
  then have "x = y" by (metis div_mult_mod_eq)
  with Cons.IH [OF _ _ rest] Cons.prems show ?case by (simp add: y)
qed

text \<open>Equal keys are equal texts, or a collision of SHA-256.\<close>

lemma sha256_hex_eq:
  "sha256_hex s = sha256_hex t \<Longrightarrow> s = t \<or> (s \<noteq> t \<and> sha256 (bytes s) = sha256 (bytes t))"
  unfolding sha256_hex_def using hex_encode_inj sha256_bytes by blast

end
