(* ===== verification/Validate.thy ===== *)
theory Validate
  imports Sanitise GoHash
begin

text \<open>
  The checks between an intent and the executor (\<open>internal/intent/validate.go\<close>): \<open>Validate\<close>
  with its structural, capability and scope checks and the decoding and sanitising of each
  payload, \<open>ValidateDiff\<close> on the diff the executor computed itself, and \<open>IdempotencyKey\<close>. The
  error is the sentinel the source wraps; its message is not modelled.
\<close>

section \<open>Errors\<close>

datatype intent_error =
    ErrSchemaVersion
  | ErrUnknownKind
  | ErrCapabilityMissing
  | ErrGrantExpired
  | ErrScopeMismatch
  | ErrDeniedPath
  | ErrLimitExceeded
  | ErrMalformed
  | SliceBounds                          \<comment> \<open>the panic of \<open>s[:maxBytes]\<close> with a negative bound\<close>

section \<open>Capability and scope\<close>

definition knownKind :: "string \<Rightarrow> bool" where
  "knownKind k = list_ex (\<lambda>v. v = k) AllKinds"

definition granted :: "string \<Rightarrow> string list \<Rightarrow> bool" where
  "granted k allowed = list_ex (\<lambda>v. v = k) allowed"

text \<open>Lookups in the two map literals; a missing key is the zero value.\<close>

definition token_need :: "string \<Rightarrow> string" where
  "token_need k =
     (if k = KindOpenPR then TokenContentsWrite
      else if k = KindUpdatePR then TokenContentsWrite
      else if k = KindPostReview then TokenIssuesWrite
      else if k = KindPostComment then TokenIssuesWrite
      else if k = KindSetLabels then TokenIssuesWrite
      else [])"

definition token_rank :: "string \<Rightarrow> nat" where
  "token_rank t =
     (if t = TokenReadOnly then 0 else if t = TokenIssuesWrite then 1
      else if t = TokenContentsWrite then 2 else 0)"

definition tokenCovers :: "string \<Rightarrow> string \<Rightarrow> (intent_error, unit) result" where
  "tokenCovers k ts =
     (if k = KindPostReview \<and> ts = TokenReadOnly then Inr ()
      else if token_rank ts < token_rank (token_need k) then Inl ErrCapabilityMissing
      else Inr ())"

definition scope_ok :: "string \<Rightarrow> string \<Rightarrow> bool" where
  "scope_ok k sk =
     (if k = KindOpenPR then sk = ScopeIssue \<or> sk = ScopeScheduled
      else if k = KindUpdatePR then sk = ScopePullRequest
      else if k = KindPostReview then sk = ScopePullRequest
      else if k = KindPostComment then sk = ScopeIssue \<or> sk = ScopePullRequest
      else if k = KindSetLabels then sk = ScopeIssue \<or> sk = ScopePullRequest
      else False)"

definition scopeAllows :: "string \<Rightarrow> scope \<Rightarrow> (intent_error, unit) result" where
  "scopeAllows k s =
     check (\<not> scope_ok k (sc_kind s)) ErrScopeMismatch
     (check (sc_kind s \<noteq> ScopeScheduled \<and> sc_number s = 0) ErrMalformed
     (Inr ()))"

section \<open>Payloads\<close>

definition sbody :: "string \<Rightarrow> int \<Rightarrow> scope \<Rightarrow> (intent_error, string) result" where
  "sbody s n sc = (case sanitiseBody s n sc of None \<Rightarrow> Inl SliceBounds | Some t \<Rightarrow> Inr t)"

text \<open>\<open>dec.Decode(&p)\<close>: the first value of the payload, unknown fields refused.\<close>

definition decode_payload :: "(rune list \<Rightarrow> (json \<Rightarrow> 'a \<Rightarrow> 'a option) option) \<Rightarrow> 'a \<Rightarrow> string \<Rightarrow>
    (intent_error, 'a) result" where
  "decode_payload fld zero s =
     (case decode_first (to_runes s) of
        None \<Rightarrow> Inl ErrMalformed
      | Some (v, _) \<Rightarrow> (case dec_struct True fld v zero of None \<Rightarrow> Inl ErrMalformed | Some p \<Rightarrow> Inr p))"

definition zero_open_pr :: open_pr where
  "zero_open_pr = \<lparr>op_title = [], op_body = [], op_draft = False\<rparr>"

definition zero_update_pr :: update_pr where
  "zero_update_pr = \<lparr>up_body = None, up_draft = None\<rparr>"

definition zero_post_review :: post_review where
  "zero_post_review = \<lparr>pr_verdict = [], pr_summary = [], pr_comments = ([], 0)\<rparr>"

definition zero_post_comment :: post_comment where
  "zero_post_comment = \<lparr>pc_body = []\<rparr>"

definition zero_set_labels :: set_labels where
  "zero_set_labels = \<lparr>sl_add = ([], 0), sl_remove = ([], 0)\<rparr>"

definition decode_open_pr :: "string \<Rightarrow> grant \<Rightarrow> (intent_error, payload) result" where
  "decode_open_pr s g =
     rbind (decode_payload open_pr_field zero_open_pr s) (\<lambda>p.
     check (trim_space (op_title p) = []) ErrMalformed
     (rbind (sbody (op_body p) (lim_body_bytes (g_limits g)) (g_scope g)) (\<lambda>b.
      Inr (POpenPR (p\<lparr>op_title := sanitiseLine (op_title p) 120, op_body := b\<rparr>)))))"

definition decode_update_pr :: "string \<Rightarrow> grant \<Rightarrow> (intent_error, payload) result" where
  "decode_update_pr s g =
     rbind (decode_payload update_pr_field zero_update_pr s) (\<lambda>p.
     (case up_body p of
        None \<Rightarrow> Inr (PUpdatePR p)
      | Some body \<Rightarrow>
          rbind (sbody body (lim_body_bytes (g_limits g)) (g_scope g)) (\<lambda>b.
          Inr (PUpdatePR (p\<lparr>up_body := Some b\<rparr>)))))"

text \<open>The body of the loop over \<open>p.Comments\<close>.\<close>

definition sanitise_comment :: "scope \<Rightarrow> review_comment \<Rightarrow> (intent_error, review_comment) result" where
  "sanitise_comment sc c =
     (let side = (if rc_side c \<noteq> ''LEFT'' \<and> rc_side c \<noteq> ''RIGHT'' then ''RIGHT'' else rc_side c)
      in check (rc_line c < 1) ErrMalformed
        (rbind (sbody (rc_body c) 4096 sc) (\<lambda>b.
         if rc_verified c then
           rbind (sbody (rc_evidence c) 4096 sc) (\<lambda>e.
           check (trim_space e = []) ErrMalformed
           (Inr (c\<lparr>rc_side := side, rc_body := b, rc_evidence := e\<rparr>)))
         else Inr (c\<lparr>rc_side := side, rc_body := b, rc_evidence := []\<rparr>))))"

definition decode_post_review :: "string \<Rightarrow> grant \<Rightarrow> (intent_error, payload) result" where
  "decode_post_review s g =
     rbind (decode_payload post_review_field zero_post_review s) (\<lambda>p.
     check (pr_verdict p \<noteq> VerdictComment \<and> pr_verdict p \<noteq> VerdictRequestChanges) ErrMalformed
     (check (int (length (review_comments p)) > lim_comments (g_limits g)) ErrLimitExceeded
     (rbind (sbody (pr_summary p) (lim_body_bytes (g_limits g)) (g_scope g)) (\<lambda>sm.
      rbind (rmap (sanitise_comment (g_scope g)) (review_comments p)) (\<lambda>cs.
      Inr (PPostReview (p\<lparr>pr_summary := sm, pr_comments := (cs, length cs)\<rparr>)))))))"

definition decode_post_comment :: "string \<Rightarrow> grant \<Rightarrow> (intent_error, payload) result" where
  "decode_post_comment s g =
     rbind (decode_payload post_comment_field zero_post_comment s) (\<lambda>p.
     rbind (sbody (pc_body p) (lim_body_bytes (g_limits g)) (g_scope g)) (\<lambda>b.
     check (trim_space b = []) ErrMalformed
     (Inr (PPostComment (p\<lparr>pc_body := b\<rparr>)))))"

definition decode_set_labels :: "string \<Rightarrow> grant \<Rightarrow> (intent_error, payload) result" where
  "decode_set_labels s g =
     rbind (decode_payload set_labels_field zero_set_labels s) (\<lambda>p.
     check (int (length (slice_list (sl_add p))) > lim_labels (g_limits g)) ErrLimitExceeded
     (Inr (PSetLabels p)))"

definition decodeAndSanitise :: "envelope \<Rightarrow> grant \<Rightarrow> (intent_error, payload) result" where
  "decodeAndSanitise env g =
     (if env_kind env = KindOpenPR then decode_open_pr (env_payload env) g
      else if env_kind env = KindUpdatePR then decode_update_pr (env_payload env) g
      else if env_kind env = KindPostReview then decode_post_review (env_payload env) g
      else if env_kind env = KindPostComment then decode_post_comment (env_payload env) g
      else if env_kind env = KindSetLabels then decode_set_labels (env_payload env) g
      else Inl ErrUnknownKind)"

section \<open>Validate and ValidateDiff\<close>

definition Validate :: "envelope \<Rightarrow> grant \<Rightarrow> go_time \<Rightarrow> (intent_error, payload) result" where
  "Validate env g now =
     check (env_schema env \<noteq> SchemaVersion) ErrSchemaVersion
     (check (env_run env \<noteq> g_run g) ErrScopeMismatch
     (check (\<not> knownKind (env_kind env)) ErrUnknownKind
     (check (now > g_expires g) ErrGrantExpired
     (check (\<not> granted (env_kind env) (g_kinds g)) ErrCapabilityMissing
     (rbind (tokenCovers (env_kind env) (g_token g)) (\<lambda>_.
      rbind (scopeAllows (env_kind env) (g_scope g)) (\<lambda>_.
      decodeAndSanitise env g)))))))"

definition defaultDeniedPaths :: "string list" where
  "defaultDeniedPaths =
     [''.github/workflows/**'', ''.github/actions/**'', ''.git/**'', ''CODEOWNERS'',
      ''.github/CODEOWNERS'', ''docs/CODEOWNERS'', ''.gitattributes'', ''**/.npmrc'',
      ''**/.pypirc'', ''.bot/**'']"

record diff =
  d_files :: "string list"
  d_added :: int
  d_deleted :: int

definition ValidateDiff :: "diff \<Rightarrow> grant \<Rightarrow> (intent_error, unit) result" where
  "ValidateDiff d g =
     check (d_files d = []) ErrMalformed
     (check (int (length (d_files d)) > lim_files (g_limits g)) ErrLimitExceeded
     (check (wrap64 (d_added d + d_deleted d) > lim_diff_lines (g_limits g)) ErrLimitExceeded
     (let denied = defaultDeniedPaths @ g_denied g
      in check (list_ex (\<lambda>f. list_ex (\<lambda>pat. globMatch pat f) denied) (d_files d)) ErrDeniedPath
         (Inr ()))))"

section \<open>The idempotency key\<close>

definition byte_space :: "char \<Rightarrow> bool" where
  "byte_space c \<longleftrightarrow> json_space (of_char c)"

definition hex_lower :: "nat \<Rightarrow> char" where
  "hex_lower n = char_of (hex_digit n)"

text \<open>
  \<open>json.Marshal\<close> of a \<open>RawMessage\<close>: spaces outside strings go, and what HTML or JavaScript would
  read is escaped. The flags say whether the scan is inside a string and behind a backslash.
\<close>

fun compact :: "bool \<Rightarrow> bool \<Rightarrow> string \<Rightarrow> string" where
  "compact q e [] = []"
| "compact q e (c # cs) =
     (if c = CHR ''<'' \<or> c = CHR ''>'' \<or> c = CHR ''&'' then
        [CHR 0x5C, CHR ''u'', CHR ''0'', CHR ''0'', hex_lower (of_char c div 16), hex_lower (of_char c mod 16)]
        @ compact q False cs
      else if c = CHR 0xE2 \<and> take 1 cs = [CHR 0x80] \<and> (take 1 (drop 1 cs) = [CHR 0xA8] \<or> take 1 (drop 1 cs) = [CHR 0xA9]) then
        [CHR 0x5C, CHR ''u'', CHR ''2'', CHR ''0'', CHR ''2'', hex_lower (of_char (cs ! 1) mod 16)]
        @ compact q False (drop 2 cs)
      else if \<not> q \<and> byte_space c then compact q e cs
      else c # compact (if c = CHR 0x22 \<and> \<not> e then \<not> q else q) (q \<and> c = CHR 0x5C \<and> \<not> e) cs)"

definition canon_prefix :: "envelope \<Rightarrow> grant \<Rightarrow> rune list" where
  "canon_prefix env g =
     123 # quote (asc ''run'') @ 58 # print_json (jstr (g_run g)) @
      44 # quote (asc ''repo'') @ 58 # print_json (enc_repo (g_repo g)) @
      44 # quote (asc ''scope'') @ 58 # print_json (enc_scope (g_scope g)) @
      44 # quote (asc ''kind'') @ 58 # print_json (jstr (env_kind env)) @
      44 # quote (asc ''payload'') @ [58]"

text \<open>
  The marshalled struct. A nil payload is \<open>null\<close>; a payload that is not one JSON value makes
  \<open>json.Marshal\<close> fail, its error is dropped, and the text is empty.
\<close>

definition canon_text :: "envelope \<Rightarrow> grant \<Rightarrow> string" where
  "canon_text env g =
     (if env_payload env = [] then of_runes (canon_prefix env g) @ ''null'' @ ''}''
      else if parse_json (to_runes (env_payload env)) = None then []
      else of_runes (canon_prefix env g) @ compact False False (env_payload env) @ ''}'')"

definition IdempotencyKey :: "envelope \<Rightarrow> grant \<Rightarrow> string" where
  "IdempotencyKey env g = sha256_hex (canon_text env g)"

section \<open>When the checks pass\<close>

lemma knownKind_iff: "knownKind k \<longleftrightarrow> k \<in> set AllKinds"
  by (auto simp: knownKind_def list_ex_iff)

lemma granted_iff: "granted k ks \<longleftrightarrow> k \<in> set ks"
  by (auto simp: granted_def list_ex_iff)

lemma tokenCovers_iff:
  "tokenCovers k ts = Inr () \<longleftrightarrow>
     (k = KindPostReview \<and> ts = TokenReadOnly) \<or> token_rank (token_need k) \<le> token_rank ts"
  by (auto simp: tokenCovers_def)

lemma scopeAllows_iff:
  "scopeAllows k s = Inr () \<longleftrightarrow>
     scope_ok k (sc_kind s) \<and> (sc_kind s = ScopeScheduled \<or> sc_number s \<noteq> 0)"
  by (auto simp: scopeAllows_def)

lemma sbody_Inr_iff [simp]: "sbody s n sc = Inr t \<longleftrightarrow> sanitiseBody s n sc = Some t"
  by (auto simp: sbody_def split: option.splits)

text \<open>What the grant and the clock must allow, before the payload is looked at.\<close>

definition admitted :: "envelope \<Rightarrow> grant \<Rightarrow> go_time \<Rightarrow> bool" where
  "admitted env g now \<longleftrightarrow>
     env_schema env = SchemaVersion \<and> env_run env = g_run g \<and>
     env_kind env \<in> set AllKinds \<and> env_kind env \<in> set (g_kinds g) \<and> now \<le> g_expires g \<and>
     ((env_kind env = KindPostReview \<and> g_token g = TokenReadOnly) \<or>
      token_rank (token_need (env_kind env)) \<le> token_rank (g_token g)) \<and>
     scope_ok (env_kind env) (sc_kind (g_scope g)) \<and>
     (sc_kind (g_scope g) = ScopeScheduled \<or> sc_number (g_scope g) \<noteq> 0)"

lemma Validate_iff:
  "Validate env g now = Inr p \<longleftrightarrow> admitted env g now \<and> decodeAndSanitise env g = Inr p"
  by (auto simp: Validate_def admitted_def knownKind_iff granted_iff tokenCovers_iff scopeAllows_iff)

lemmas kind_consts = AllKinds_def string_consts

lemma kinds_distinct: "distinct AllKinds"
  by (simp add: kind_consts)

lemma tokens_distinct: "distinct [TokenReadOnly, TokenIssuesWrite, TokenContentsWrite]"
  by (simp add: kind_consts)

lemma scopes_distinct: "distinct [ScopeIssue, ScopePullRequest, ScopeScheduled]"
  by (simp add: kind_consts)

section \<open>What a validated payload looks like\<close>

fun payload_kind :: "payload \<Rightarrow> string" where
  "payload_kind (POpenPR p) = KindOpenPR"
| "payload_kind (PUpdatePR p) = KindUpdatePR"
| "payload_kind (PPostReview p) = KindPostReview"
| "payload_kind (PPostComment p) = KindPostComment"
| "payload_kind (PSetLabels p) = KindSetLabels"

text \<open>The texts of a payload that GitHub renders.\<close>

fun payload_bodies :: "payload \<Rightarrow> string list" where
  "payload_bodies (POpenPR p) = [op_body p]"
| "payload_bodies (PUpdatePR p) = (case up_body p of None \<Rightarrow> [] | Some b \<Rightarrow> [b])"
| "payload_bodies (PPostReview p) =
     pr_summary p # concat (map (\<lambda>c. rc_body c # (if rc_verified c then [rc_evidence c] else [])) (review_comments p))"
| "payload_bodies (PPostComment p) = [pc_body p]"
| "payload_bodies (PSetLabels p) = []"

definition good_comment :: "review_comment \<Rightarrow> bool" where
  "good_comment c \<longleftrightarrow> 1 \<le> rc_line c \<and> rc_side c \<in> {''LEFT'', ''RIGHT''} \<and>
     length (rc_body c) \<le> 4096 + 15 \<and>
     (if rc_verified c then trim_space (rc_evidence c) \<noteq> [] else rc_evidence c = [])"

fun well_formed :: "grant \<Rightarrow> payload \<Rightarrow> bool" where
  "well_formed g (POpenPR p) =
     (op_title p \<noteq> [] \<and> length (op_title p) \<le> 120 \<and> int (length (op_body p)) \<le> lim_body_bytes (g_limits g) + 15)"
| "well_formed g (PUpdatePR p) =
     (case up_body p of None \<Rightarrow> True | Some b \<Rightarrow> int (length b) \<le> lim_body_bytes (g_limits g) + 15)"
| "well_formed g (PPostReview p) =
     (pr_verdict p \<in> {VerdictComment, VerdictRequestChanges} \<and>
      int (length (review_comments p)) \<le> lim_comments (g_limits g) \<and>
      int (length (pr_summary p)) \<le> lim_body_bytes (g_limits g) + 15 \<and>
      list_all good_comment (review_comments p))"
| "well_formed g (PPostComment p) =
     (trim_space (pc_body p) \<noteq> [] \<and> int (length (pc_body p)) \<le> lim_body_bytes (g_limits g) + 15)"
| "well_formed g (PSetLabels p) = (int (length (slice_list (sl_add p))) \<le> lim_labels (g_limits g))"

lemma body_length: "sanitiseBody s n sc = Some t \<Longrightarrow> int (length t) \<le> n + 15"
  by (erule sanitiseBody_shape) (auto simp: truncated_mark_def)

definition comment_side :: "review_comment \<Rightarrow> string" where
  "comment_side c = (if rc_side c \<noteq> ''LEFT'' \<and> rc_side c \<noteq> ''RIGHT'' then ''RIGHT'' else rc_side c)"

lemma sanitise_commentE:
  assumes "sanitise_comment sc c = Inr d"
  obtains (verified) b e where "1 \<le> rc_line c" "sanitiseBody (rc_body c) 4096 sc = Some b" "rc_verified c"
    "sanitiseBody (rc_evidence c) 4096 sc = Some e" "trim_space e \<noteq> []"
    "d = c\<lparr>rc_side := comment_side c, rc_body := b, rc_evidence := e\<rparr>"
  | (opinion) b where "1 \<le> rc_line c" "sanitiseBody (rc_body c) 4096 sc = Some b" "\<not> rc_verified c"
    "d = c\<lparr>rc_side := comment_side c, rc_body := b, rc_evidence := []\<rparr>"
proof (cases "rc_verified c")
  case True
  then show ?thesis
    using assms that(1) by (auto simp: sanitise_comment_def comment_side_def [symmetric])
next
  case False
  then show ?thesis
    using assms that(2) by (auto simp: sanitise_comment_def comment_side_def [symmetric])
qed

lemma comment_side_cases: "comment_side c = ''LEFT'' \<or> comment_side c = ''RIGHT''"
  by (simp add: comment_side_def)

lemma sanitise_comment_good:
  assumes "sanitise_comment sc c = Inr d"
  shows "good_comment d"
  using assms
proof (cases rule: sanitise_commentE)
  case (verified b e)
  then show ?thesis using body_length [OF verified(2)] comment_side_cases by (simp add: good_comment_def)
next
  case (opinion b)
  then show ?thesis using body_length [OF opinion(2)] comment_side_cases by (simp add: good_comment_def)
qed

lemma sanitise_comment_bodies:
  assumes "sanitise_comment sc c = Inr d"
    and "b \<in> set (rc_body d # (if rc_verified d then [rc_evidence d] else []))"
  shows "\<exists>s. sanitiseBody s 4096 sc = Some b"
  using assms(1)
proof (cases rule: sanitise_commentE)
  case (verified b' e)
  then show ?thesis using assms(2) by auto
next
  case (opinion b')
  then show ?thesis using assms(2) by auto
qed

lemma slice_whole [simp]: "slice_list (xs, length xs) = xs"
  by (simp add: slice_list_def)

lemmas decode_defs = decodeAndSanitise_def decode_open_pr_def decode_update_pr_def
  decode_post_review_def decode_post_comment_def decode_set_labels_def

lemma decode_cases:
  assumes "decodeAndSanitise env g = Inr p"
  obtains (OpenPR) "env_kind env = KindOpenPR" "decode_open_pr (env_payload env) g = Inr p"
    | (UpdatePR) "env_kind env = KindUpdatePR" "decode_update_pr (env_payload env) g = Inr p"
    | (PostReview) "env_kind env = KindPostReview" "decode_post_review (env_payload env) g = Inr p"
    | (PostComment) "env_kind env = KindPostComment" "decode_post_comment (env_payload env) g = Inr p"
    | (SetLabels) "env_kind env = KindSetLabels" "decode_set_labels (env_payload env) g = Inr p"
  using assms unfolding decodeAndSanitise_def by (simp split: if_splits)

text \<open>One elimination rule per payload decoder.\<close>

lemma decode_open_prE:
  assumes "decode_open_pr s g = Inr p"
  obtains q b where "trim_space (op_title q) \<noteq> []"
    "sanitiseBody (op_body q) (lim_body_bytes (g_limits g)) (g_scope g) = Some b"
    "p = POpenPR (q\<lparr>op_title := sanitiseLine (op_title q) 120, op_body := b\<rparr>)"
  using assms by (auto simp: decode_open_pr_def)

lemma decode_update_prE:
  assumes "decode_update_pr s g = Inr p"
  obtains q where "p = PUpdatePR q" "up_body q = None"
  | q b c where "p = PUpdatePR q" "up_body q = Some b"
    "sanitiseBody c (lim_body_bytes (g_limits g)) (g_scope g) = Some b"
proof -
  obtain x where x: "(case up_body x of None \<Rightarrow> Inr (PUpdatePR x)
      | Some body \<Rightarrow> rbind (sbody body (lim_body_bytes (g_limits g)) (g_scope g))
          (\<lambda>b. Inr (PUpdatePR (x\<lparr>up_body := Some b\<rparr>)))) = Inr p"
    using assms unfolding decode_update_pr_def rbind_Inr_iff by blast
  then show ?thesis
    by (cases "up_body x") (auto intro: that)
qed

lemma decode_post_reviewE:
  assumes "decode_post_review s g = Inr p"
  obtains q cs ds where "p = PPostReview q" "pr_verdict q \<in> {VerdictComment, VerdictRequestChanges}"
    "int (length cs) \<le> lim_comments (g_limits g)" "rmap (sanitise_comment (g_scope g)) cs = Inr ds"
    "review_comments q = ds"
    "\<exists>c. sanitiseBody c (lim_body_bytes (g_limits g)) (g_scope g) = Some (pr_summary q)"
proof -
  obtain q sm ds where "p = PPostReview (q\<lparr>pr_summary := sm, pr_comments := (ds, length ds)\<rparr>)"
    "pr_verdict q \<in> {VerdictComment, VerdictRequestChanges}"
    "int (length (review_comments q)) \<le> lim_comments (g_limits g)"
    "rmap (sanitise_comment (g_scope g)) (review_comments q) = Inr ds"
    "sanitiseBody (pr_summary q) (lim_body_bytes (g_limits g)) (g_scope g) = Some sm"
    using assms by (auto simp: decode_post_review_def not_less)
  then show ?thesis
    using that [of "q\<lparr>pr_summary := sm, pr_comments := (ds, length ds)\<rparr>"]
    by (auto simp: review_comments_def)
qed

lemma decode_post_commentE:
  assumes "decode_post_comment s g = Inr p"
  obtains q c where "p = PPostComment q" "trim_space (pc_body q) \<noteq> []"
    "sanitiseBody c (lim_body_bytes (g_limits g)) (g_scope g) = Some (pc_body q)"
  using assms by (auto simp: decode_post_comment_def)

lemma decode_set_labelsE:
  assumes "decode_set_labels s g = Inr p"
  obtains q where "p = PSetLabels q" "int (length (slice_list (sl_add q))) \<le> lim_labels (g_limits g)"
  using assms by (auto simp: decode_set_labels_def)

subsection \<open>A title that is not blank stays so\<close>

lemma chunk_bytes_Nil: "(\<forall>c \<in> set cs. snd c \<noteq> []) \<Longrightarrow> chunk_bytes cs = [] \<longleftrightarrow> cs = []"
  by (cases cs) (auto simp: chunk_bytes_def unbytes_def)

lemma rune_chunks_snd: "c \<in> set (rune_chunks bs) \<Longrightarrow> snd c \<noteq> []"
proof (induction bs rule: rune_chunks.induct)
  case 1
  then show ?case by simp
next
  case (2 b bs)
  obtain r w where d: "decode_rune b bs = (r, w)" by (cases "decode_rune b bs")
  then have "1 \<le> w" using decode_rune_width by blast
  then show ?case using 2 d by auto
qed

lemma trim_space_Nil: "trim_space s = [] \<longleftrightarrow> (\<forall>c \<in> set (rune_chunks (bytes s)). is_space (fst c))"
proof -
  let ?cs = "rune_chunks (bytes s)"
  have "\<forall>c \<in> set (rev (dropWhile (\<lambda>c. is_space (fst c)) (rev (dropWhile (\<lambda>c. is_space (fst c)) ?cs)))). snd c \<noteq> []"
    using rune_chunks_snd by (fastforce dest!: set_dropWhileD)
  then have "trim_space s = [] \<longleftrightarrow>
      rev (dropWhile (\<lambda>c. is_space (fst c)) (rev (dropWhile (\<lambda>c. is_space (fst c)) ?cs))) = []"
    unfolding trim_space_def by (rule chunk_bytes_Nil)
  also have "\<dots> \<longleftrightarrow> (\<forall>c \<in> set (dropWhile (\<lambda>c. is_space (fst c)) ?cs). is_space (fst c))"
    by (simp add: dropWhile_eq_Nil_conv)
  also have "\<dots> \<longleftrightarrow> dropWhile (\<lambda>c. is_space (fst c)) ?cs = []"
    using hd_dropWhile [of "\<lambda>c. is_space (fst c)" ?cs] by (metis empty_iff hd_in_set list.set(1))
  also have "\<dots> \<longleftrightarrow> (\<forall>c \<in> set ?cs. is_space (fst c))"
    by (simp add: dropWhile_eq_Nil_conv)
  finally show ?thesis .
qed

lemma split_when_all: "(\<forall>w \<in> set (split_when p xs). w = []) \<Longrightarrow> x \<in> set xs \<Longrightarrow> p x"
  by (induction xs) (auto split: if_splits list.splits)

lemma str_fields_Nil: "str_fields s = [] \<Longrightarrow> trim_space s = []"
proof -
  let ?cs = "rune_chunks (bytes s)"
  assume "str_fields s = []"
  then have "\<forall>w \<in> set (split_when (\<lambda>c. is_space (fst c)) ?cs). chunk_bytes w = []"
    by (auto simp: str_fields_def filter_empty_conv)
  moreover have "\<forall>w \<in> set (split_when (\<lambda>c. is_space (fst c)) ?cs). \<forall>c \<in> set w. snd c \<noteq> []"
    using split_when_subset rune_chunks_snd by fast
  ultimately have "\<forall>w \<in> set (split_when (\<lambda>c. is_space (fst c)) ?cs). w = []"
    using chunk_bytes_Nil by blast
  then show ?thesis unfolding trim_space_Nil using split_when_all by fast
qed

lemma sanitiseLine_not_Nil: "trim_space s \<noteq> [] \<Longrightarrow> 0 < n \<Longrightarrow> sanitiseLine s n \<noteq> []"
proof -
  assume "trim_space s \<noteq> []" and n: "0 < n"
  then have "str_fields s \<noteq> []" using str_fields_Nil by blast
  moreover have "\<forall>w \<in> set (str_fields s). w \<noteq> []" by (simp add: str_fields_def)
  ultimately have "join '' '' (str_fields s) \<noteq> []"
    by (cases "str_fields s"; cases "tl (str_fields s)") auto
  then show ?thesis using n by (auto simp: sanitiseLine_def Let_def)
qed

lemma sanitiseLine_length: "length (sanitiseLine s n) \<le> n"
  by (simp add: sanitiseLine_def Let_def)

lemma Validate_kind:
  assumes "Validate env g now = Inr p"
  shows "payload_kind p = env_kind env"
proof -
  have "decodeAndSanitise env g = Inr p" using assms by (simp add: Validate_iff)
  then show ?thesis
    by (cases rule: decode_cases)
      (auto elim: decode_open_prE decode_update_prE decode_post_reviewE decode_post_commentE decode_set_labelsE)
qed

section \<open>Properties\<close>



text \<open>Every text of a validated payload that GitHub renders as a body has been sanitised for the grant's scope.\<close>

theorem Validate_bodies_sanitised:
  assumes "Validate env g now = Inr p" "b \<in> set (payload_bodies p)"
  shows "\<exists>s n. sanitiseBody s n (g_scope g) = Some b"
proof -
  have "decodeAndSanitise env g = Inr p" using assms by (simp add: Validate_iff)
  then show ?thesis
  proof (cases rule: decode_cases)
    case OpenPR
    from OpenPR(2) assms(2) show ?thesis by (fastforce elim!: decode_open_prE)
  next
    case UpdatePR
    from UpdatePR(2) assms(2) show ?thesis by (fastforce elim!: decode_update_prE)
  next
    case PostReview
    from PostReview(2) show ?thesis
    proof (rule decode_post_reviewE)
      fix q cs ds
      assume q: "p = PPostReview q" "rmap (sanitise_comment (g_scope g)) cs = Inr ds"
        "review_comments q = ds"
        "\<exists>c. sanitiseBody c (lim_body_bytes (g_limits g)) (g_scope g) = Some (pr_summary q)"
      show ?thesis
      proof (cases "b = pr_summary q")
        case True
        then show ?thesis using q(4) by blast
      next
        case False
        then obtain d where d: "d \<in> set ds" "b \<in> set (rc_body d # (if rc_verified d then [rc_evidence d] else []))"
          using assms(2) q(1,3) by auto
        then obtain c where "sanitise_comment (g_scope g) c = Inr d" using rmap_Inr_all [OF q(2)] by blast
        then show ?thesis using sanitise_comment_bodies d(2) by blast
      qed
    qed
  next
    case PostComment
    from PostComment(2) assms(2) show ?thesis by (fastforce elim!: decode_post_commentE)
  next
    case SetLabels
    from SetLabels(2) assms(2) show ?thesis by (auto elim!: decode_set_labelsE)
  qed
qed

text \<open>
  \<open>ValidateDiff\<close> accepts a diff exactly when it touches between one file and the limit, changes
  no more lines than the limit, and no file matches a default or granted denied path.
\<close>

theorem ValidateDiff_iff:
  "ValidateDiff d g = Inr () \<longleftrightarrow>
     d_files d \<noteq> [] \<and> int (length (d_files d)) \<le> lim_files (g_limits g) \<and>
     wrap64 (d_added d + d_deleted d) \<le> lim_diff_lines (g_limits g) \<and>
     (\<forall>f \<in> set (d_files d). \<forall>pat \<in> set (defaultDeniedPaths @ g_denied g). \<not> globMatch pat f)"
  by (auto simp: ValidateDiff_def Let_def list_ex_iff)

lemma glob_below: "globMatch (p @ ''/**'') f \<longleftrightarrow> prefix (p @ ''/'') f"
proof -
  have "suffix ''/**'' (p @ ''/**'')" by (rule suffixI [OF refl])
  moreover have "suffix ''**'' (p @ ''/**'')" using suffixI [of "p @ ''/**''" "p @ ''/''" "''**''"] by simp
  ultimately show ?thesis by (simp add: globMatch_def has_suffix_def trim_suffix_def has_prefix_def)
qed

lemma glob_plain:
  "ascii p \<Longrightarrow> list_all plain_rune (asc p) \<Longrightarrow> \<not> suffix ''/**'' p \<Longrightarrow> \<not> prefix ''**/'' p \<Longrightarrow> globMatch p p"
  by (simp add: globMatch_def has_suffix_def has_prefix_def path_match_plain valid_utf8_ascii)

lemma glob_named:
  assumes "\<not> suffix ''/**'' (''**/'' @ b)"
  shows "globMatch (''**/'' @ b) f \<longleftrightarrow> f = b \<or> suffix (CHR ''/'' # b) f"
  using assms by (auto simp: globMatch_def has_suffix_def has_prefix_def trim_prefix_def Let_def)

text \<open>
  C4: No accepted diff touches the paths that would turn a code change into more: workflows and
  actions, the git directory, the bot's own policy, code owners, git attributes, registry configuration.
\<close>

theorem default_paths_denied:
  assumes "ValidateDiff d g = Inr ()" "f \<in> set (d_files d)"
  shows "\<not> prefix ''.github/workflows/'' f \<and> \<not> prefix ''.github/actions/'' f \<and> \<not> prefix ''.git/'' f \<and>
    \<not> prefix ''.bot/'' f \<and> f \<noteq> ''CODEOWNERS'' \<and> f \<noteq> ''.github/CODEOWNERS'' \<and> f \<noteq> ''docs/CODEOWNERS'' \<and>
    f \<noteq> ''.gitattributes'' \<and> f \<noteq> ''.npmrc'' \<and> \<not> suffix ''/.npmrc'' f \<and> f \<noteq> ''.pypirc'' \<and> \<not> suffix ''/.pypirc'' f"
proof -
  have n: "\<And>pat. pat \<in> set defaultDeniedPaths \<Longrightarrow> \<not> globMatch pat f"
    using assms by (auto simp: ValidateDiff_def Let_def list_ex_iff)
  have 1: "\<not> globMatch (''.github/workflows'' @ ''/**'') f" "\<not> globMatch (''.github/actions'' @ ''/**'') f"
    "\<not> globMatch (''.git'' @ ''/**'') f" "\<not> globMatch (''.bot'' @ ''/**'') f"
    by (rule n, simp add: defaultDeniedPaths_def)+
  have 2: "\<not> globMatch (''**/'' @ ''.npmrc'') f" "\<not> globMatch (''**/'' @ ''.pypirc'') f"
    by (rule n, simp add: defaultDeniedPaths_def)+
  have 3: "globMatch ''CODEOWNERS'' ''CODEOWNERS''" "globMatch ''.github/CODEOWNERS'' ''.github/CODEOWNERS''"
    "globMatch ''docs/CODEOWNERS'' ''docs/CODEOWNERS''" "globMatch ''.gitattributes'' ''.gitattributes''"
    by (rule glob_plain, simp_all add: ascii_def asc_def plain_rune_def suffix_def)+
  have 4: "f \<noteq> ''CODEOWNERS''" "f \<noteq> ''.github/CODEOWNERS''" "f \<noteq> ''docs/CODEOWNERS''" "f \<noteq> ''.gitattributes''"
    using n 3 by (auto simp: defaultDeniedPaths_def)
  have 5: "\<not> suffix ''/**'' (''**/'' @ ''.npmrc'')" "\<not> suffix ''/**'' (''**/'' @ ''.pypirc'')"
    by (simp_all add: suffix_def)
  show ?thesis using 1 2 4 unfolding glob_below glob_named [OF 5(1)] glob_named [OF 5(2)] by simp
qed

subsection \<open>Round trips\<close>

lemmas field_names = field_is_def asc_def fold_rune_def is_upper_def

lemma open_pr_fields:
  "open_pr_field (asc ''title'') = Some (into op_title (\<lambda>f. op_title_update (\<lambda>_. f)) dec_string)"
  "open_pr_field (asc ''body'') = Some (into op_body (\<lambda>f. op_body_update (\<lambda>_. f)) dec_string)"
  "open_pr_field (asc ''draft'') = Some (into op_draft (\<lambda>f. op_draft_update (\<lambda>_. f)) dec_bool)"
  by (simp_all add: open_pr_field_def field_names)

lemma post_comment_fields:
  "post_comment_field (asc ''body'') = Some (into pc_body (\<lambda>f. pc_body_update (\<lambda>_. f)) dec_string)"
  by (simp add: post_comment_field_def field_names)

lemma comment_fields:
  "comment_field (asc ''path'') = Some (into rc_path (\<lambda>f. rc_path_update (\<lambda>_. f)) dec_string)"
  "comment_field (asc ''line'') = Some (into rc_line (\<lambda>f. rc_line_update (\<lambda>_. f)) dec_int)"
  "comment_field (asc ''side'') = Some (into rc_side (\<lambda>f. rc_side_update (\<lambda>_. f)) dec_string)"
  "comment_field (asc ''body'') = Some (into rc_body (\<lambda>f. rc_body_update (\<lambda>_. f)) dec_string)"
  "comment_field (asc ''verified'') = Some (into rc_verified (\<lambda>f. rc_verified_update (\<lambda>_. f)) dec_bool)"
  "comment_field (asc ''evidence'') = Some (into rc_evidence (\<lambda>f. rc_evidence_update (\<lambda>_. f)) dec_string)"
  by (simp_all add: comment_field_def field_names)

lemma post_review_fields:
  "post_review_field (asc ''verdict'') = Some (into pr_verdict (\<lambda>f. pr_verdict_update (\<lambda>_. f)) dec_string)"
  "post_review_field (asc ''summary'') = Some (into pr_summary (\<lambda>f. pr_summary_update (\<lambda>_. f)) dec_string)"
  "post_review_field (asc ''comments'') = Some (into pr_comments (\<lambda>f. pr_comments_update (\<lambda>_. f))
     (dec_slice (dec_struct True comment_field) zero_comment))"
  by (simp_all add: post_review_field_def field_names)

lemma decode_payload_marshal:
  assumes "printable 10000 v" "dec_struct True fld v zero = Some p"
  shows "decode_payload fld zero (marshal v) = Inr p"
  using assms decode_first_marshal [of v] by (simp add: decode_payload_def max_nesting_depth_def)

lemma printable_jstr [simp]: "printable n (jstr s)"
  by (simp add: jstr_def to_runes_valid)

lemma printable_jint [simp]: "printable n (jint i)"
  by (simp add: jint_def itoa_literal)

lemma dec_jstr [simp]: "valid_utf8 s \<Longrightarrow> dec_string (jstr s) old = Some s"
  by (simp add: jstr_def dec_string_str)

lemma dec_jint [simp]: "int_ok i \<Longrightarrow> dec_int (jint i) old = Some i"
  by (simp add: jint_def dec_int_num)

lemma dec_JBool [simp]: "dec_bool (JBool b) old = Some b"
  by (simp add: dec_bool_def)

definition utf8_comment :: "review_comment \<Rightarrow> bool" where
  "utf8_comment c \<longleftrightarrow> valid_utf8 (rc_path c) \<and> int_ok (rc_line c) \<and> valid_utf8 (rc_side c) \<and>
     valid_utf8 (rc_body c) \<and> valid_utf8 (rc_evidence c)"

lemma dec_enc_comment:
  "utf8_comment c \<Longrightarrow> dec_struct True comment_field (enc_comment c) zero_comment = Some c"
  by (cases c) (simp add: dec_struct_def enc_comment_def comment_fields into_def utf8_comment_def zero_comment_def)

lemma printable_enc_comment: "0 < n \<Longrightarrow> printable n (enc_comment c)"
  by (auto simp: enc_comment_def asc_valid)

lemma open_pr_round_trip:
  "valid_utf8 (op_title p) \<Longrightarrow> valid_utf8 (op_body p) \<Longrightarrow>
   decode_payload open_pr_field zero_open_pr (marshal (enc_open_pr p)) = Inr p"
  by (rule decode_payload_marshal)
    (simp_all add: enc_open_pr_def asc_valid dec_struct_def open_pr_fields into_def zero_open_pr_def)

lemma post_comment_round_trip:
  "valid_utf8 (pc_body c) \<Longrightarrow>
   decode_payload post_comment_field zero_post_comment (marshal (enc_post_comment c)) = Inr c"
  by (rule decode_payload_marshal)
    (simp_all add: enc_post_comment_def asc_valid dec_struct_def post_comment_fields into_def zero_post_comment_def)

lemma post_review_round_trip:
  assumes "valid_utf8 (pr_verdict r)" "valid_utf8 (pr_summary r)"
    and "pr_comments r = (cs, length cs)" "list_all utf8_comment cs"
  shows "decode_payload post_review_field zero_post_review (marshal (enc_post_review r)) = Inr r"
proof (rule decode_payload_marshal)
  have "dec_slice (dec_struct True comment_field) zero_comment (JArr (map enc_comment cs)) ([], 0) = Some (cs, length cs)"
    by (rule dec_slice_map) (use assms(4) dec_enc_comment in \<open>auto simp: list_all_iff\<close>)
  then show "dec_struct True post_review_field (enc_post_review r) zero_post_review = Some r"
    using assms(1,2,3)
    by (cases r) (simp add: enc_post_review_def dec_struct_def post_review_fields into_def zero_post_review_def review_comments_def)
  show "printable 10000 (enc_post_review r)"
    by (auto simp: enc_post_review_def asc_valid printable_enc_comment)
qed

text \<open>A review the pipeline marshals is decoded to the same review, comments included.\<close>

theorem marshalled_review_decodes:
  assumes "valid_utf8 (pr_verdict r)" "valid_utf8 (pr_summary r)"
    and "pr_comments r = (cs, length cs)" "list_all utf8_comment cs"
  shows "decode_payload post_review_field zero_post_review (marshal (enc_post_review r)) = Inr r"
  using assms by (rule post_review_round_trip)

lemma marshalled_review_decodes_witness:
  "\<exists>r. length (review_comments r) = 1 \<and>
     decode_payload post_review_field zero_post_review (marshal (enc_post_review r)) = Inr r"
proof -
  let ?c = "zero_comment\<lparr>rc_path := ''a.go'', rc_line := 7\<rparr>"
  let ?r = "\<lparr>pr_verdict = ''comment'', pr_summary = ''ok'', pr_comments = ([?c], length [?c])\<rparr>"
  have "decode_payload post_review_field zero_post_review (marshal (enc_post_review ?r)) = Inr ?r"
    by (rule marshalled_review_decodes [where cs = "[?c]"])
      (simp_all add: zero_comment_def utf8_comment_def int_ok_def valid_utf8_ascii ascii_def)
  moreover have "length (review_comments ?r) = 1" by (simp add: review_comments_def slice_list_def)
  ultimately show ?thesis by blast
qed

subsection \<open>What a key tells apart\<close>

lemma rune_chunks_encodes_append:
  "\<forall>r \<in> set rs. valid_rune r \<Longrightarrow>
   rune_chunks (concat (map encode_rune rs) @ bs) = map (\<lambda>r. (r, encode_rune r)) rs @ rune_chunks bs"
  by (induction rs) (auto simp: rune_chunks_encode)

lemma bytes_append: "bytes (s @ t) = bytes s @ bytes t"
  by (simp add: bytes_def)

lemma to_runes_of_runes_append:
  "\<forall>r \<in> set rs. valid_rune r \<Longrightarrow> to_runes (of_runes rs @ s) = rs @ to_runes s"
  unfolding to_runes_def
  by (simp add: bytes_append bytes_of_runes rune_chunks_encodes_append comp_def)

lemma printable_enc_repo: "printable 10000 (enc_repo r)"
  by (auto simp: enc_repo_def asc_valid)

lemma printable_enc_scope: "printable 10000 (enc_scope s)"
  by (auto simp: enc_scope_def asc_valid)

lemma canon_prefix_valid: "\<forall>r \<in> set (canon_prefix env g). valid_rune r"
proof -
  have q: "\<forall>r \<in> set (quote (asc s)). valid_rune r" for s by (intro quote_valid asc_valid)
  have p: "printable 10000 v \<Longrightarrow> \<forall>r \<in> set (print_json v). valid_rune r" for v by (rule print_json_valid)
  have n: "valid_rune 123" "valid_rune 58" "valid_rune 44" by (simp_all add: valid_rune_def)
  show ?thesis
    using q p [OF printable_jstr] p [OF printable_enc_repo] p [OF printable_enc_scope] n
    unfolding canon_prefix_def by auto
qed

text \<open>A printed value in front of a delimiter can be cancelled.\<close>

lemma print_cancel:
  assumes "print_json v @ r = print_json w @ t" "printable 10000 v" "printable 10000 w"
    and "delimited r" "delimited t"
  shows "v = w \<and> r = t"
proof -
  have "decode_first (print_json v @ r) = Some (v, r)" "decode_first (print_json w @ t) = Some (w, t)"
    using assms(2-5) decode_first_print by (simp_all add: max_nesting_depth_def)
  then show ?thesis using assms(1) by (metis option.inject prod.inject)
qed

lemma canon_prefix_inj:
  assumes "canon_prefix env g @ r = canon_prefix env' g' @ t"
  shows "jstr (g_run g) = jstr (g_run g') \<and> enc_repo (g_repo g) = enc_repo (g_repo g') \<and>
    enc_scope (g_scope g) = enc_scope (g_scope g') \<and> jstr (env_kind env) = jstr (env_kind env') \<and> r = t"
proof -
  have d: "delimited (44 # x)" for x by (rule delimited_sep)
  note c = print_cancel [OF _ _ _ d d]
  have e: "print_json (jstr (g_run g)) @ 44 # quote (asc ''repo'') @ 58 # print_json (enc_repo (g_repo g)) @
      44 # quote (asc ''scope'') @ 58 # print_json (enc_scope (g_scope g)) @
      44 # quote (asc ''kind'') @ 58 # print_json (jstr (env_kind env)) @
      44 # quote (asc ''payload'') @ 58 # r =
    print_json (jstr (g_run g')) @ 44 # quote (asc ''repo'') @ 58 # print_json (enc_repo (g_repo g')) @
      44 # quote (asc ''scope'') @ 58 # print_json (enc_scope (g_scope g')) @
      44 # quote (asc ''kind'') @ 58 # print_json (jstr (env_kind env')) @
      44 # quote (asc ''payload'') @ 58 # t"
    using assms unfolding canon_prefix_def by simp
  note 1 = c [OF e printable_jstr printable_jstr]
  note 2 = c [OF _ printable_enc_repo printable_enc_repo]
  note 3 = c [OF _ printable_enc_scope printable_enc_scope]
  note 4 = c [OF _ printable_jstr printable_jstr]
  have r: "print_json (enc_repo (g_repo g)) @
      44 # quote (asc ''scope'') @ 58 # print_json (enc_scope (g_scope g)) @
      44 # quote (asc ''kind'') @ 58 # print_json (jstr (env_kind env)) @
      44 # quote (asc ''payload'') @ 58 # r = print_json (enc_repo (g_repo g')) @
      44 # quote (asc ''scope'') @ 58 # print_json (enc_scope (g_scope g')) @
      44 # quote (asc ''kind'') @ 58 # print_json (jstr (env_kind env')) @
      44 # quote (asc ''payload'') @ 58 # t"
    using conjunct2 [OF 1] by simp
  have s: "print_json (enc_scope (g_scope g)) @
      44 # quote (asc ''kind'') @ 58 # print_json (jstr (env_kind env)) @
      44 # quote (asc ''payload'') @ 58 # r = print_json (enc_scope (g_scope g')) @
      44 # quote (asc ''kind'') @ 58 # print_json (jstr (env_kind env')) @
      44 # quote (asc ''payload'') @ 58 # t"
    using conjunct2 [OF 2 [OF r]] by simp
  have k: "print_json (jstr (env_kind env)) @ 44 # quote (asc ''payload'') @ 58 # r =
     print_json (jstr (env_kind env')) @ 44 # quote (asc ''payload'') @ 58 # t"
    using conjunct2 [OF 3 [OF s]] by simp
  show ?thesis using conjunct1 [OF 1] conjunct1 [OF 2 [OF r]] conjunct1 [OF 3 [OF s]] 4 [OF k] by simp
qed

text \<open>The strings Go holds are UTF-8; JSON would replace other bytes.\<close>

definition utf8_repo :: "repo \<Rightarrow> bool" where
  "utf8_repo r \<longleftrightarrow> valid_utf8 (repo_owner r) \<and> valid_utf8 (repo_name r) \<and> valid_utf8 (repo_account r)"

definition utf8_scope :: "scope \<Rightarrow> bool" where
  "utf8_scope s \<longleftrightarrow> valid_utf8 (sc_kind s) \<and> valid_utf8 (sc_base_ref s) \<and> valid_utf8 (sc_base_sha s)
     \<and> valid_utf8 (sc_head_sha s)"

definition utf8_target :: "envelope \<Rightarrow> grant \<Rightarrow> bool" where
  "utf8_target env g \<longleftrightarrow> valid_utf8 (g_run g) \<and> utf8_repo (g_repo g) \<and> utf8_scope (g_scope g)
     \<and> valid_utf8 (env_kind env)"

lemma jstr_inj: "valid_utf8 s \<Longrightarrow> valid_utf8 t \<Longrightarrow> jstr s = jstr t \<Longrightarrow> s = t"
  unfolding jstr_def valid_utf8_def by (metis json.inject(3))

lemma jint_inj: "jint i = jint j \<Longrightarrow> i = j"
  using itoa_inj unfolding jint_def by (metis itoa_ascii json.inject(2) of_runes_asc)

lemma enc_repo_inj: "utf8_repo r \<Longrightarrow> utf8_repo t \<Longrightarrow> enc_repo r = enc_repo t \<Longrightarrow> r = t"
  by (cases r; cases t) (auto simp: enc_repo_def utf8_repo_def dest: jstr_inj)

lemma enc_scope_inj: "utf8_scope r \<Longrightarrow> utf8_scope t \<Longrightarrow> enc_scope r = enc_scope t \<Longrightarrow> r = t"
  by (cases r; cases t)
    (auto simp: enc_scope_def utf8_scope_def asc_def dest: jstr_inj jint_inj split: if_splits)

definition key_payload :: "envelope \<Rightarrow> string" where
  "key_payload env = (if env_payload env = [] then ''null'' else compact False False (env_payload env))"

definition payload_is_json :: "envelope \<Rightarrow> bool" where
  "payload_is_json env \<longleftrightarrow> env_payload env = [] \<or> parse_json (to_runes (env_payload env)) \<noteq> None"

lemma canon_text_json:
  "payload_is_json env \<Longrightarrow> canon_text env g = of_runes (canon_prefix env g) @ key_payload env @ ''}''"
  by (auto simp: canon_text_def payload_is_json_def key_payload_def)

lemma canon_text_inj:
  assumes "payload_is_json env" "payload_is_json env'" "utf8_target env g" "utf8_target env' g'"
    and "canon_text env g = canon_text env' g'"
  shows "g_run g = g_run g' \<and> g_repo g = g_repo g' \<and> g_scope g = g_scope g' \<and>
    env_kind env = env_kind env' \<and> key_payload env = key_payload env'"
proof -
  have e: "of_runes (canon_prefix env g) @ key_payload env @ ''}'' =
      of_runes (canon_prefix env' g') @ key_payload env' @ ''}''"
    using assms(1,2,5) by (simp add: canon_text_json)
  then have "canon_prefix env g @ to_runes (key_payload env @ ''}'') =
      canon_prefix env' g' @ to_runes (key_payload env' @ ''}'')"
    by (metis canon_prefix_valid to_runes_of_runes_append)
  then have j: "jstr (g_run g) = jstr (g_run g')" "enc_repo (g_repo g) = enc_repo (g_repo g')"
    "enc_scope (g_scope g) = enc_scope (g_scope g')" "jstr (env_kind env) = jstr (env_kind env')"
    by (auto dest: canon_prefix_inj)
  then have "canon_prefix env g = canon_prefix env' g'" by (simp only: canon_prefix_def)
  then have "key_payload env = key_payload env'" using e by simp
  then show ?thesis
    using j assms(3,4) jstr_inj enc_repo_inj enc_scope_inj unfolding utf8_target_def by blast
qed


section \<open>Witnesses\<close>

definition example_repo :: repo where
  "example_repo = \<lparr>repo_owner = ''acme'', repo_name = ''widget'', repo_account = ''acme''\<rparr>"

definition example_grant :: grant where
  "example_grant = \<lparr>g_run = ''r1'', g_repo = example_repo, g_scope = example_scope,
     g_kinds = [KindOpenPR, KindPostComment], g_token = TokenContentsWrite, g_limits = DefaultLimits,
     g_manual = False, g_denied = [], g_issued = 0, g_expires = 100\<rparr>"

definition comment_envelope :: "string \<Rightarrow> string \<Rightarrow> envelope" where
  "comment_envelope run s = \<lparr>env_schema = 2, env_run = run, env_kind = KindPostComment,
     env_payload = s, env_sources = []\<rparr>"

definition hi_payload :: string where
  "hi_payload = marshal (enc_post_comment \<lparr>pc_body = ''hi''\<rparr>)"

lemma trim_space_ascii: "ascii s \<Longrightarrow> trim_space s = [] \<longleftrightarrow> (\<forall>c \<in> set s. is_space (of_char c))"
  unfolding trim_space_Nil by (auto simp: rune_chunks_ascii bytes_def ascii_def)

lemma sanitise_hi: "0 \<le> n \<Longrightarrow> int (length ''hi'') \<le> n \<Longrightarrow> sanitiseBody ''hi'' n sc = Some ''hi''"
proof -
  have "quote_mentions (strip_control (to_runes ''hi'')) = [104, 105]" by code_simp
  moreover have "stripped sc None [104, 105] = [104, 105]" by (rule stripped_no_hash) simp
  ultimately have "neutralise sc ''hi'' = of_runes [104, 105]"
    by (simp only: neutralise_def strip_closing_def)
  also have "\<dots> = ''hi''" by code_simp
  finally show "0 \<le> n \<Longrightarrow> int (length ''hi'') \<le> n \<Longrightarrow> sanitiseBody ''hi'' n sc = Some ''hi''"
    by (simp add: sanitiseBody_def)
qed

lemma decode_hi:
  "lim_body_bytes (g_limits g) \<ge> 2 \<Longrightarrow>
   decode_post_comment hi_payload g = Inr (PPostComment \<lparr>pc_body = ''hi''\<rparr>)"
proof -
  have "valid_utf8 ''hi''" by (simp add: valid_utf8_ascii ascii_def)
  then have "decode_payload post_comment_field zero_post_comment hi_payload = Inr \<lparr>pc_body = ''hi''\<rparr>"
    unfolding hi_payload_def by (intro post_comment_round_trip) simp
  moreover have "trim_space ''hi'' \<noteq> []" by (simp add: trim_space_ascii ascii_def is_space_def)
  ultimately show "lim_body_bytes (g_limits g) \<ge> 2 \<Longrightarrow> ?thesis"
    by (simp add: decode_post_comment_def sanitise_hi)
qed

lemma Validate_hi_admitted: "admitted (comment_envelope ''r1'' hi_payload) example_grant 50"
  by (simp add: admitted_def comment_envelope_def SchemaVersion_def example_grant_def example_scope_def
        kind_consts token_rank_def token_need_def scope_ok_def)

lemma decode_comment_envelope:
  "decodeAndSanitise (comment_envelope r s) g = decode_post_comment s g"
  by (simp add: decodeAndSanitise_def comment_envelope_def string_consts)

lemma Validate_hi:
  "Validate (comment_envelope ''r1'' hi_payload) example_grant 50 = Inr (PPostComment \<lparr>pc_body = ''hi''\<rparr>)"
proof -
  have "2 \<le> lim_body_bytes (g_limits example_grant)"
    by (simp add: example_grant_def DefaultLimits_def)
  then show ?thesis
    unfolding Validate_iff decode_comment_envelope using decode_hi Validate_hi_admitted by blast
qed

text \<open>The same payload with something behind it still decodes, but is no JSON text.\<close>

lemma decode_payload_trailing:
  assumes "printable 10000 v" "dec_struct True fld v zero = Some p" "delimited rest" "\<forall>r \<in> set rest. valid_rune r"
  shows "decode_payload fld zero (marshal v @ of_runes rest) = Inr p"
proof -
  have "to_runes (marshal v @ of_runes rest) = print_json v @ rest"
    unfolding marshal_def using assms(1,4) print_json_valid
    by (metis to_runes_of_runes_append to_runes_of_runes)
  then show ?thesis using assms decode_first_print [of v rest]
    by (simp add: decode_payload_def max_nesting_depth_def)
qed

definition torn_payload :: string where
  "torn_payload = hi_payload @ of_runes [32, 120]"

lemma torn_runes: "to_runes torn_payload = print_json (enc_post_comment \<lparr>pc_body = ''hi''\<rparr>) @ [32, 120]"
proof -
  have p: "printable 10000 (enc_post_comment \<lparr>pc_body = ''hi''\<rparr>)" by (simp add: enc_post_comment_def asc_valid)
  have "to_runes torn_payload = print_json (enc_post_comment \<lparr>pc_body = ''hi''\<rparr>) @ to_runes (of_runes [32, 120])"
    unfolding torn_payload_def hi_payload_def marshal_def
    by (rule to_runes_of_runes_append [OF print_json_valid [OF p]])
  moreover have "to_runes (of_runes [32, 120]) = [32, 120]"
    by (rule to_runes_of_runes) (simp add: valid_rune_def)
  ultimately show ?thesis by simp
qed

lemma torn_first:
  "decode_first (to_runes torn_payload) = Some (enc_post_comment \<lparr>pc_body = ''hi''\<rparr>, [32, 120])"
  unfolding torn_runes
  by (rule decode_first_print) (simp_all add: max_nesting_depth_def enc_post_comment_def asc_valid delimited_def is_digit_def)

lemma decode_torn:
  "2 \<le> lim_body_bytes (g_limits g) \<Longrightarrow>
   decode_post_comment torn_payload g = Inr (PPostComment \<lparr>pc_body = ''hi''\<rparr>)"
proof -
  have "valid_utf8 ''hi''" by (simp add: valid_utf8_ascii ascii_def)
  then have "decode_payload post_comment_field zero_post_comment torn_payload = Inr \<lparr>pc_body = ''hi''\<rparr>"
    by (simp add: decode_payload_def torn_first enc_post_comment_def dec_struct_def post_comment_fields
        into_def zero_post_comment_def)
  moreover have "trim_space ''hi'' \<noteq> []" by (simp add: trim_space_ascii ascii_def is_space_def)
  ultimately show "2 \<le> lim_body_bytes (g_limits g) \<Longrightarrow> ?thesis"
    by (simp add: decode_post_comment_def sanitise_hi)
qed

lemma Validate_example:
  assumes "decode_post_comment s (example_grant\<lparr>g_run := r, g_repo := rp\<rparr>) = Inr p"
  shows "Validate (comment_envelope r s) (example_grant\<lparr>g_run := r, g_repo := rp\<rparr>) 50 = Inr p"
proof -
  have "admitted (comment_envelope r s) (example_grant\<lparr>g_run := r, g_repo := rp\<rparr>) 50"
    by (simp add: admitted_def comment_envelope_def SchemaVersion_def example_grant_def example_scope_def
        kind_consts token_rank_def token_need_def scope_ok_def)
  then show ?thesis unfolding Validate_iff decode_comment_envelope using assms by blast
qed

text \<open>
  A payload with something behind its first value is accepted, yet every such payload of every run
  on every repository has the same key.
\<close>

theorem torn_payloads_share_key:
  "\<exists>env g env' g' now p. Validate env g now = Inr p \<and> Validate env' g' now = Inr p \<and>
     g_run g \<noteq> g_run g' \<and> g_repo g \<noteq> g_repo g' \<and> IdempotencyKey env g = IdempotencyKey env' g'"
proof -
  let ?g = "\<lambda>r. example_grant\<lparr>g_run := r, g_repo := example_repo\<lparr>repo_name := r\<rparr>\<rparr>"
  have l: "2 \<le> lim_body_bytes (g_limits (?g r))" for r
    by (simp add: example_grant_def DefaultLimits_def)
  have v: "Validate (comment_envelope r torn_payload) (?g r) 50 = Inr (PPostComment \<lparr>pc_body = ''hi''\<rparr>)" for r
    by (rule Validate_example) (rule decode_torn [OF l])
  have "torn_payload \<noteq> []" by (simp add: torn_payload_def of_runes_Nil_iff)
  moreover have "parse_json (to_runes torn_payload) = None"
    by (simp add: parse_json_def torn_first json_space_def)
  ultimately have k: "IdempotencyKey (comment_envelope r torn_payload) (?g r) = sha256_hex []" for r
    by (simp add: IdempotencyKey_def canon_text_def comment_envelope_def)
  have "g_run (?g ''a'') \<noteq> g_run (?g ''b'') \<and> g_repo (?g ''a'') \<noteq> g_repo (?g ''b'')"
    by (simp add: example_repo_def)
  then show ?thesis using v k by metis
qed



lemma Validate_bodies_sanitised_witness: "\<exists>s n. sanitiseBody s n (g_scope example_grant) = Some ''hi''"
  by (rule Validate_bodies_sanitised [OF Validate_hi]) simp

lemma default_paths_denied_witness: "\<not> prefix ''.git/'' ''main.go''"
proof -
  have "ValidateDiff \<lparr>d_files = [''main.go''], d_added = 1, d_deleted = 0\<rparr> example_grant = Inr ()" by code_simp
  from default_paths_denied [OF this, of "''main.go''"] show ?thesis by simp
qed

lemma ValidateDiff_iff_witness: "\<not> globMatch ''**/.npmrc'' ''cmd/main.go''"
proof -
  have "ValidateDiff \<lparr>d_files = [''cmd/main.go''], d_added = 1, d_deleted = 0\<rparr> example_grant = Inr ()" by code_simp
  then show ?thesis unfolding ValidateDiff_iff by (simp add: defaultDeniedPaths_def)
qed


end
