(* ===== verification/Policy.thy ===== *)
theory Policy
  imports Validate
begin

text \<open>
  The policy layer (\<open>internal/policy/policy.go\<close>): \<open>Decide\<close> computes the grant of a run from the
  trigger and the repository's rules, before any agent starts. A denial is a value of
  \<open>policy_error\<close>, one constructor per refusal of the source.
\<close>

section \<open>Triggers and rules\<close>

type_synonym trigger_kind = int

definition TriggerScheduled :: trigger_kind where "TriggerScheduled = 0"
definition TriggerPullRequest :: trigger_kind where "TriggerPullRequest = 1"
definition TriggerIssueLabeled :: trigger_kind where "TriggerIssueLabeled = 2"

lemmas trigger_consts = TriggerScheduled_def TriggerPullRequest_def TriggerIssueLabeled_def

definition trigger_string :: "trigger_kind \<Rightarrow> string" where
  "trigger_string t =
     (if t = TriggerPullRequest then ''webhook_pull_request''
      else if t = TriggerIssueLabeled then ''webhook_issue_labeled''
      else ''scheduled'')"

record trigger =
  t_kind :: trigger_kind
  t_repo :: string
  t_account :: string
  t_owner :: string
  t_name :: string
  t_number :: int
  t_base_ref :: string
  t_base_sha :: string
  t_head_sha :: string
  t_default_branch :: string
  t_actor :: string
  t_actor_write :: bool
  t_manual :: bool
  t_review_label :: bool
  t_labels :: "string list"
  t_title :: string
  t_body :: string

record rules =
  r_enabled :: bool
  r_labels :: "string list"
  r_actors :: "string list"
  r_auto_review :: bool
  r_denied :: "string list"

datatype policy_error =
    RepoDisabled
  | ManualActorLacksWrite
  | ReviewLabelActor
  | AutoReviewDisabled
  | LabelNotAllowed
  | ActorNotConfigured
  | IssueActorLacksWrite
  | UnknownTrigger

section \<open>The decision\<close>

definition has :: "string list \<Rightarrow> string list \<Rightarrow> bool" where
  "has applied allowed = list_ex (\<lambda>a. list_ex (\<lambda>l. a = l) allowed) applied"

definition containsStr :: "string list \<Rightarrow> string \<Rightarrow> bool" where
  "containsStr s v = list_ex (\<lambda>x. x = v) s"

definition hour :: go_time where
  "hour = 3600 * 10 ^ 9"

definition zero_scope :: scope where
  "zero_scope = \<lparr>sc_kind = [], sc_number = 0, sc_base_ref = [], sc_base_sha = [], sc_head_sha = []\<rparr>"

definition base_grant :: "trigger \<Rightarrow> rules \<Rightarrow> string \<Rightarrow> go_time \<Rightarrow> grant" where
  "base_grant t r runID now =
     \<lparr>g_run = runID,
      g_repo = \<lparr>repo_owner = t_owner t, repo_name = t_name t, repo_account = t_account t\<rparr>,
      g_scope = zero_scope, g_kinds = [], g_token = [], g_limits = DefaultLimits,
      g_manual = t_manual t, g_denied = r_denied r, g_issued = now, g_expires = now + hour\<rparr>"

definition Decide :: "trigger \<Rightarrow> rules \<Rightarrow> string \<Rightarrow> go_time \<Rightarrow> (policy_error, grant) result" where
  "Decide t r runID now =
     check (\<not> r_enabled r) RepoDisabled
     (let base = base_grant t r runID now in
      if t_kind t = TriggerScheduled then
        Inr (base\<lparr>g_scope := zero_scope\<lparr>sc_kind := ScopeScheduled, sc_base_ref := t_default_branch t\<rparr>,
                  g_kinds := [KindOpenPR], g_token := TokenContentsWrite\<rparr>)
      else if t_kind t = TriggerPullRequest then
        check (t_manual t \<and> \<not> t_actor_write t) ManualActorLacksWrite
        (check (t_review_label t \<and> \<not> containsStr (r_actors r) (t_actor t)) ReviewLabelActor
        (check (\<not> t_manual t \<and> \<not> r_auto_review r) AutoReviewDisabled
        (Inr (base\<lparr>g_scope := \<lparr>sc_kind = ScopePullRequest, sc_number = t_number t,
                     sc_base_ref = t_base_ref t, sc_base_sha = t_base_sha t, sc_head_sha = t_head_sha t\<rparr>,
                   g_kinds := [KindPostReview], g_token := TokenReadOnly\<rparr>))))
      else if t_kind t = TriggerIssueLabeled then
        check (\<not> has (t_labels t) (r_labels r)) LabelNotAllowed
        (check (\<not> containsStr (r_actors r) (t_actor t)) ActorNotConfigured
        (check (\<not> t_actor_write t) IssueActorLacksWrite
        (Inr (base\<lparr>g_scope := zero_scope\<lparr>sc_kind := ScopeIssue, sc_number := t_number t,
                     sc_base_ref := t_default_branch t\<rparr>,
                   g_kinds := [KindOpenPR, KindPostComment], g_token := TokenContentsWrite\<rparr>))))
      else Inl UnknownTrigger)"

section \<open>Lemmas\<close>

lemma has_iff: "has xs ys \<longleftrightarrow> set xs \<inter> set ys \<noteq> {}"
  by (auto simp: has_def list_ex_iff)

lemma containsStr_iff: "containsStr xs x \<longleftrightarrow> x \<in> set xs"
  by (auto simp: containsStr_def list_ex_iff)

text \<open>The three ways to a grant.\<close>

lemma Decide_cases:
  assumes "Decide t r run now = Inr g"
  obtains (Scheduled) "r_enabled r" "t_kind t = TriggerScheduled"
      "g = (base_grant t r run now)\<lparr>g_scope := zero_scope\<lparr>sc_kind := ScopeScheduled, sc_base_ref := t_default_branch t\<rparr>,
         g_kinds := [KindOpenPR], g_token := TokenContentsWrite\<rparr>"
  | (PullRequest) "r_enabled r" "t_kind t = TriggerPullRequest"
      "t_manual t \<longrightarrow> t_actor_write t" "t_review_label t \<longrightarrow> t_actor t \<in> set (r_actors r)"
      "t_manual t \<or> r_auto_review r"
      "g = (base_grant t r run now)\<lparr>g_scope := \<lparr>sc_kind = ScopePullRequest, sc_number = t_number t,
         sc_base_ref = t_base_ref t, sc_base_sha = t_base_sha t, sc_head_sha = t_head_sha t\<rparr>,
         g_kinds := [KindPostReview], g_token := TokenReadOnly\<rparr>"
  | (IssueLabeled) "r_enabled r" "t_kind t = TriggerIssueLabeled"
      "set (t_labels t) \<inter> set (r_labels r) \<noteq> {}" "t_actor t \<in> set (r_actors r)" "t_actor_write t"
      "g = (base_grant t r run now)\<lparr>g_scope := zero_scope\<lparr>sc_kind := ScopeIssue, sc_number := t_number t,
         sc_base_ref := t_default_branch t\<rparr>,
         g_kinds := [KindOpenPR, KindPostComment], g_token := TokenContentsWrite\<rparr>"
  using assms unfolding Decide_def Let_def
  by (simp add: has_iff containsStr_iff split: if_splits)

lemma Decide_base:
  assumes "Decide t r run now = Inr g"
  shows "g_run g = run" "repo_owner (g_repo g) = t_owner t" "repo_name (g_repo g) = t_name t"
    and "repo_account (g_repo g) = t_account t" "g_denied g = r_denied r" "g_limits g = DefaultLimits"
    and "g_issued g = now" "g_expires g = now + hour" "g_manual g = t_manual t"
  using assms by (cases rule: Decide_cases; simp add: base_grant_def)+

definition policy_allows :: "trigger \<Rightarrow> rules \<Rightarrow> bool" where
  "policy_allows t r \<longleftrightarrow> r_enabled r \<and>
     (t_kind t = TriggerScheduled \<or>
      (t_kind t = TriggerPullRequest \<and> (t_manual t \<longrightarrow> t_actor_write t) \<and>
       (t_review_label t \<longrightarrow> t_actor t \<in> set (r_actors r)) \<and> (t_manual t \<or> r_auto_review r)) \<or>
      (t_kind t = TriggerIssueLabeled \<and> set (t_labels t) \<inter> set (r_labels r) \<noteq> {} \<and>
       t_actor t \<in> set (r_actors r) \<and> t_actor_write t))"

section \<open>Properties\<close>

text \<open>
  A trigger is granted exactly when the repository is enabled and the trigger is a schedule, or a
  pull request that is reviewed automatically or on a writer's request (a configured actor's, for the
  label), or an issue with an allowed label put there by a configured actor with write permission.
\<close>

theorem Decide_grants_iff: "(\<exists>g. Decide t r run now = Inr g) \<longleftrightarrow> policy_allows t r"
proof
  assume "\<exists>g. Decide t r run now = Inr g"
  then obtain g where "Decide t r run now = Inr g" by blast
  then show "policy_allows t r" by (cases rule: Decide_cases) (auto simp: policy_allows_def)
next
  assume a: "policy_allows t r"
  have d: "TriggerPullRequest \<noteq> TriggerScheduled" "TriggerIssueLabeled \<noteq> TriggerScheduled"
    "TriggerIssueLabeled \<noteq> TriggerPullRequest" by (simp_all add: trigger_consts)
  from a show "\<exists>g. Decide t r run now = Inr g"
    unfolding policy_allows_def Decide_def Let_def check_def has_iff containsStr_iff
    by (auto simp: d)
qed


text \<open>
  C7: Policy and validation together: whatever an agent says in a run that a pull request triggered,
  the only intent that is ever accepted is a review, within the hour, for that pull request's number.
\<close>

theorem pull_request_runs_only_review:
  assumes "Decide t r run issued = Inr g" "t_kind t = TriggerPullRequest" "Validate env g now = Inr p"
  shows "(\<exists>q. p = PPostReview q) \<and> now \<le> issued + hour \<and> sc_number (g_scope g) = t_number t \<and> t_number t \<noteq> 0"
proof -
  have g: "g_kinds g = [KindPostReview]" "sc_number (g_scope g) = t_number t"
    "sc_kind (g_scope g) = ScopePullRequest" "g_expires g = issued + hour"
    using assms(1,2) by (cases rule: Decide_cases; simp add: base_grant_def trigger_consts)+
  have a: "admitted env g now" using assms(3) by (simp add: Validate_iff)
  then have "payload_kind p = KindPostReview"
    using Validate_kind [OF assms(3)] g(1) by (simp add: admitted_def)
  then have "\<exists>q. p = PPostReview q" by (cases p) (simp_all add: string_consts)
  moreover have "t_number t \<noteq> 0" using a g(2,3) by (simp add: admitted_def string_consts)
  ultimately show ?thesis using a g by (simp add: admitted_def)
qed

section \<open>Witnesses\<close>

definition example_trigger :: trigger where
  "example_trigger = \<lparr>t_kind = TriggerPullRequest, t_repo = ''acme/widget'', t_account = ''acme'',
     t_owner = ''acme'', t_name = ''widget'', t_number = 7, t_base_ref = ''main'', t_base_sha = ''b'',
     t_head_sha = ''h'', t_default_branch = ''main'', t_actor = ''ann'', t_actor_write = False,
     t_manual = False, t_review_label = False, t_labels = [], t_title = [], t_body = []\<rparr>"

definition example_rules :: rules where
  "example_rules = \<lparr>r_enabled = True, r_labels = [''bothos/fix''], r_actors = [''ann''],
     r_auto_review = True, r_denied = []\<rparr>"

definition example_review_grant :: grant where
  "example_review_grant = (base_grant example_trigger example_rules ''r1'' 0)
     \<lparr>g_scope := \<lparr>sc_kind = ScopePullRequest, sc_number = 7, sc_base_ref = ''main'', sc_base_sha = ''b'', sc_head_sha = ''h''\<rparr>,
      g_kinds := [KindPostReview], g_token := TokenReadOnly\<rparr>"

lemma example_decision: "Decide example_trigger example_rules ''r1'' 0 = Inr example_review_grant"
  by (simp add: Decide_def example_trigger_def example_rules_def example_review_grant_def trigger_consts check_def)


definition hi_review :: post_review where
  "hi_review = \<lparr>pr_verdict = VerdictComment, pr_summary = ''hi'', pr_comments = ([], 0)\<rparr>"

definition review_envelope :: envelope where
  "review_envelope = \<lparr>env_schema = 2, env_run = ''r1'', env_kind = KindPostReview,
     env_payload = marshal (enc_post_review hi_review), env_sources = []\<rparr>"

lemma Validate_hi_review: "Validate review_envelope example_review_grant 50 = Inr (PPostReview hi_review)"
proof -
  have "decode_payload post_review_field zero_post_review (marshal (enc_post_review hi_review)) = Inr hi_review"
    by (rule post_review_round_trip [where cs = "[]"])
      (simp_all add: hi_review_def string_consts valid_utf8_ascii ascii_def)
  moreover have "sanitiseBody ''hi'' 16384 sc = Some ''hi''" for sc by (rule sanitise_hi) simp_all
  ultimately have "decode_post_review (marshal (enc_post_review hi_review)) example_review_grant = Inr (PPostReview hi_review)"
    by (simp add: decode_post_review_def hi_review_def review_comments_def slice_list_def example_review_grant_def
        base_grant_def DefaultLimits_def sbody_def check_def)
  moreover have "admitted review_envelope example_review_grant 50"
    by (simp add: admitted_def review_envelope_def example_review_grant_def base_grant_def SchemaVersion_def
        kind_consts scope_ok_def hour_def)
  moreover have "decodeAndSanitise review_envelope g = decode_post_review (marshal (enc_post_review hi_review)) g" for g
    by (simp add: decodeAndSanitise_def review_envelope_def string_consts)
  ultimately show ?thesis by (simp only: Validate_iff)
qed

lemma pull_request_runs_only_review_witness: "(50 :: int) \<le> 0 + hour \<and> t_number example_trigger \<noteq> 0"
  using pull_request_runs_only_review [OF example_decision _ Validate_hi_review]
  by (simp add: example_trigger_def)

end
