(* ===== verification/Scan.thy ===== *)
theory Scan
  imports Intent
begin

text \<open>
  The scanners' reports (\<open>internal/scan\<close>): findings and available updates, the parsers of the
  OSV, Trivy, govulncheck and Renovate reports, and the loop over tools of \<open>run.go\<close>. The
  spawned processes are a parameter: a function from a tool to its exit and output.
\<close>

section \<open>Findings and updates\<close>

definition ScannerOSV :: string where [string_consts]: "ScannerOSV = ''osv-scanner''"
definition ScannerTrivy :: string where [string_consts]: "ScannerTrivy = ''trivy''"
definition ScannerGovuln :: string where [string_consts]: "ScannerGovuln = ''govulncheck''"

record finding =
  f_repo :: string
  f_scanner :: string
  f_ecosystem :: string
  f_package :: string
  f_current :: string
  f_target :: string
  f_severity :: string
  f_advisory :: string

record update =
  u_repo :: string
  u_ecosystem :: string
  u_package :: string
  u_current :: string
  u_target :: string
  u_type :: string

section \<open>Decoding\<close>

text \<open>\<open>json.Unmarshal\<close> into a zero struct, unknown fields ignored.\<close>

definition unmarshal :: "(rune list \<Rightarrow> (json \<Rightarrow> 'a \<Rightarrow> 'a option) option) \<Rightarrow> 'a \<Rightarrow> string \<Rightarrow> 'a option" where
  "unmarshal fld zero s =
     (case parse_json (to_runes s) of None \<Rightarrow> None | Some v \<Rightarrow> dec_struct False fld v zero)"

text \<open>An \<open>interface{}\<close> field takes any value.\<close>

definition dec_any :: "json \<Rightarrow> unit \<Rightarrow> unit option" where
  "dec_any v old = Some ()"

section \<open>OSV\<close>

record osv_event =
  oe_introduced :: unit
  oe_fixed :: string

record osv_range =
  or_type :: string
  or_events :: "osv_event slice"

record osv_affected =
  oa_ranges :: "osv_range slice"

record osv_severity =
  os_severity :: string

record osv_vuln =
  ov_id :: string
  ov_database :: "osv_severity option"
  ov_affected :: "osv_affected slice"

record osv_info =
  oi_name :: string
  oi_version :: string
  oi_ecosystem :: string

record osv_package =
  op_info :: osv_info
  op_vulns :: "osv_vuln slice"

record osv_result =
  ores_packages :: "osv_package slice"

record osv_root =
  oroot_results :: "osv_result slice"

definition osv_event_field :: "rune list \<Rightarrow> (json \<Rightarrow> osv_event \<Rightarrow> osv_event option) option" where
  "osv_event_field k =
     (if field_is ''introduced'' k then Some (into oe_introduced (\<lambda>f. oe_introduced_update (\<lambda>_. f)) dec_any)
      else if field_is ''fixed'' k then Some (into oe_fixed (\<lambda>f. oe_fixed_update (\<lambda>_. f)) dec_string)
      else None)"

definition osv_range_field :: "rune list \<Rightarrow> (json \<Rightarrow> osv_range \<Rightarrow> osv_range option) option" where
  "osv_range_field k =
     (if field_is ''type'' k then Some (into or_type (\<lambda>f. or_type_update (\<lambda>_. f)) dec_string)
      else if field_is ''events'' k then
        Some (into or_events (\<lambda>f. or_events_update (\<lambda>_. f))
          (dec_slice (dec_struct False osv_event_field) \<lparr>oe_introduced = (), oe_fixed = []\<rparr>))
      else None)"

definition osv_affected_field :: "rune list \<Rightarrow> (json \<Rightarrow> osv_affected \<Rightarrow> osv_affected option) option" where
  "osv_affected_field k =
     (if field_is ''ranges'' k then
        Some (into oa_ranges (\<lambda>f. oa_ranges_update (\<lambda>_. f))
          (dec_slice (dec_struct False osv_range_field) \<lparr>or_type = [], or_events = ([], 0)\<rparr>))
      else None)"

definition osv_severity_field :: "rune list \<Rightarrow> (json \<Rightarrow> osv_severity \<Rightarrow> osv_severity option) option" where
  "osv_severity_field k =
     (if field_is ''severity'' k then Some (into os_severity (\<lambda>f. os_severity_update (\<lambda>_. f)) dec_string)
      else None)"

definition osv_vuln_field :: "rune list \<Rightarrow> (json \<Rightarrow> osv_vuln \<Rightarrow> osv_vuln option) option" where
  "osv_vuln_field k =
     (if field_is ''id'' k then Some (into ov_id (\<lambda>f. ov_id_update (\<lambda>_. f)) dec_string)
      else if field_is ''database_specific'' k then
        Some (into ov_database (\<lambda>f. ov_database_update (\<lambda>_. f))
          (dec_ptr (dec_struct False osv_severity_field) \<lparr>os_severity = []\<rparr>))
      else if field_is ''affected'' k then
        Some (into ov_affected (\<lambda>f. ov_affected_update (\<lambda>_. f))
          (dec_slice (dec_struct False osv_affected_field) \<lparr>oa_ranges = ([], 0)\<rparr>))
      else None)"

definition osv_info_field :: "rune list \<Rightarrow> (json \<Rightarrow> osv_info \<Rightarrow> osv_info option) option" where
  "osv_info_field k =
     (if field_is ''name'' k then Some (into oi_name (\<lambda>f. oi_name_update (\<lambda>_. f)) dec_string)
      else if field_is ''version'' k then Some (into oi_version (\<lambda>f. oi_version_update (\<lambda>_. f)) dec_string)
      else if field_is ''ecosystem'' k then Some (into oi_ecosystem (\<lambda>f. oi_ecosystem_update (\<lambda>_. f)) dec_string)
      else None)"

definition osv_package_field :: "rune list \<Rightarrow> (json \<Rightarrow> osv_package \<Rightarrow> osv_package option) option" where
  "osv_package_field k =
     (if field_is ''package'' k then
        Some (into op_info (\<lambda>f. op_info_update (\<lambda>_. f)) (dec_struct False osv_info_field))
      else if field_is ''vulnerabilities'' k then
        Some (into op_vulns (\<lambda>f. op_vulns_update (\<lambda>_. f))
          (dec_slice (dec_struct False osv_vuln_field) \<lparr>ov_id = [], ov_database = None, ov_affected = ([], 0)\<rparr>))
      else None)"

definition zero_osv_package :: osv_package where
  "zero_osv_package = \<lparr>op_info = \<lparr>oi_name = [], oi_version = [], oi_ecosystem = []\<rparr>, op_vulns = ([], 0)\<rparr>"

definition osv_result_field :: "rune list \<Rightarrow> (json \<Rightarrow> osv_result \<Rightarrow> osv_result option) option" where
  "osv_result_field k =
     (if field_is ''packages'' k then
        Some (into ores_packages (\<lambda>f. ores_packages_update (\<lambda>_. f))
          (dec_slice (dec_struct False osv_package_field) zero_osv_package))
      else None)"

definition osv_root_field :: "rune list \<Rightarrow> (json \<Rightarrow> osv_root \<Rightarrow> osv_root option) option" where
  "osv_root_field k =
     (if field_is ''results'' k then
        Some (into oroot_results (\<lambda>f. oroot_results_update (\<lambda>_. f))
          (dec_slice (dec_struct False osv_result_field) \<lparr>ores_packages = ([], 0)\<rparr>))
      else None)"

text \<open>The loops of \<open>fixedVersionFromRanges\<close>: a later fixed version supersedes an earlier one.\<close>

definition fixed_step :: "string \<Rightarrow> osv_event \<Rightarrow> string" where
  "fixed_step fixed e = (if oe_fixed e \<noteq> [] then oe_fixed e else fixed)"

definition fixedVersionFromRanges :: "osv_range list \<Rightarrow> string" where
  "fixedVersionFromRanges ranges =
     foldl (\<lambda>fixed r. foldl fixed_step fixed (slice_list (or_events r))) [] ranges"

definition osv_finding :: "osv_package \<Rightarrow> osv_vuln \<Rightarrow> finding" where
  "osv_finding p v =
     (let ranges = concat (map (\<lambda>a. slice_list (oa_ranges a)) (slice_list (ov_affected v)));
          sev = (case ov_database v of None \<Rightarrow> [] | Some d \<Rightarrow> os_severity d)
      in \<lparr>f_repo = [], f_scanner = ScannerOSV, f_ecosystem = oi_ecosystem (op_info p),
          f_package = oi_name (op_info p), f_current = oi_version (op_info p),
          f_target = fixedVersionFromRanges ranges, f_severity = sev, f_advisory = ov_id v\<rparr>)"

definition ParseOSV :: "string \<Rightarrow> finding list option" where
  "ParseOSV s =
     map_option (\<lambda>root. concat (map (\<lambda>res. concat (map (\<lambda>p. map (osv_finding p) (slice_list (op_vulns p)))
        (slice_list (ores_packages res)))) (slice_list (oroot_results root))))
     (unmarshal osv_root_field \<lparr>oroot_results = ([], 0)\<rparr> s)"

section \<open>Trivy\<close>

record trivy_purl =
  tp_purl :: string

record trivy_vuln =
  tv_id :: string
  tv_pkg :: string
  tv_installed :: string
  tv_fixed :: string
  tv_severity :: string
  tv_identifier :: trivy_purl

record trivy_result =
  tr_vulns :: "trivy_vuln slice"

record trivy_root =
  troot_results :: "trivy_result slice"

definition trivy_purl_field :: "rune list \<Rightarrow> (json \<Rightarrow> trivy_purl \<Rightarrow> trivy_purl option) option" where
  "trivy_purl_field k =
     (if field_is ''PURL'' k then Some (into tp_purl (\<lambda>f. tp_purl_update (\<lambda>_. f)) dec_string) else None)"

definition trivy_vuln_field :: "rune list \<Rightarrow> (json \<Rightarrow> trivy_vuln \<Rightarrow> trivy_vuln option) option" where
  "trivy_vuln_field k =
     (if field_is ''VulnerabilityID'' k then Some (into tv_id (\<lambda>f. tv_id_update (\<lambda>_. f)) dec_string)
      else if field_is ''PkgName'' k then Some (into tv_pkg (\<lambda>f. tv_pkg_update (\<lambda>_. f)) dec_string)
      else if field_is ''InstalledVersion'' k then
        Some (into tv_installed (\<lambda>f. tv_installed_update (\<lambda>_. f)) dec_string)
      else if field_is ''FixedVersion'' k then Some (into tv_fixed (\<lambda>f. tv_fixed_update (\<lambda>_. f)) dec_string)
      else if field_is ''Severity'' k then Some (into tv_severity (\<lambda>f. tv_severity_update (\<lambda>_. f)) dec_string)
      else if field_is ''PkgIdentifier'' k then
        Some (into tv_identifier (\<lambda>f. tv_identifier_update (\<lambda>_. f)) (dec_struct False trivy_purl_field))
      else None)"

definition zero_trivy_vuln :: trivy_vuln where
  "zero_trivy_vuln = \<lparr>tv_id = [], tv_pkg = [], tv_installed = [], tv_fixed = [], tv_severity = [],
     tv_identifier = \<lparr>tp_purl = []\<rparr>\<rparr>"

definition trivy_result_field :: "rune list \<Rightarrow> (json \<Rightarrow> trivy_result \<Rightarrow> trivy_result option) option" where
  "trivy_result_field k =
     (if field_is ''Vulnerabilities'' k then
        Some (into tr_vulns (\<lambda>f. tr_vulns_update (\<lambda>_. f))
          (dec_slice (dec_struct False trivy_vuln_field) zero_trivy_vuln))
      else None)"

definition trivy_root_field :: "rune list \<Rightarrow> (json \<Rightarrow> trivy_root \<Rightarrow> trivy_root option) option" where
  "trivy_root_field k =
     (if field_is ''Results'' k then
        Some (into troot_results (\<lambda>f. troot_results_update (\<lambda>_. f))
          (dec_slice (dec_struct False trivy_result_field) \<lparr>tr_vulns = ([], 0)\<rparr>))
      else None)"

text \<open>\<open>indexByte\<close> with its use: the text up to the first byte, or all of it.\<close>

fun indexByte :: "string \<Rightarrow> char \<Rightarrow> nat option" where
  "indexByte [] b = None"
| "indexByte (c # cs) b = (if c = b then Some 0 else map_option Suc (indexByte cs b))"

definition strip_pkg :: "string \<Rightarrow> string" where
  "strip_pkg s =
     (if has_prefix s ''pkg:'' then drop 4 s else if has_prefix s ''pkg/'' then drop 4 s else s)"

definition ecosystemFromPURL :: "string \<Rightarrow> string" where
  "ecosystemFromPURL purl =
     (let rest = strip_pkg purl;
          typ = (case indexByte rest (CHR ''/'') of None \<Rightarrow> rest | Some i \<Rightarrow> take i rest)
      in if typ = ''npm'' then ''npm''
         else if typ = ''golang'' then ''Go''
         else if typ = ''pypi'' then ''PyPI''
         else if typ = ''gem'' then ''gem''
         else if typ = ''maven'' then ''Maven''
         else if typ = ''nuget'' then ''NuGet''
         else if typ = ''cargo'' then ''crates.io''
         else [])"

definition trivy_finding :: "trivy_vuln \<Rightarrow> finding" where
  "trivy_finding v =
     \<lparr>f_repo = [], f_scanner = ScannerTrivy, f_ecosystem = ecosystemFromPURL (tp_purl (tv_identifier v)),
      f_package = tv_pkg v, f_current = tv_installed v, f_target = tv_fixed v,
      f_severity = tv_severity v, f_advisory = tv_id v\<rparr>"

definition ParseTrivy :: "string \<Rightarrow> finding list option" where
  "ParseTrivy s =
     map_option (\<lambda>root. concat (map (\<lambda>res. map trivy_finding (slice_list (tr_vulns res)))
        (slice_list (troot_results root))))
     (unmarshal trivy_root_field \<lparr>troot_results = ([], 0)\<rparr> s)"

section \<open>govulncheck\<close>

record govuln_module =
  gm_path :: string
  gm_version :: string
  gm_fixed :: string

record govuln_osv =
  go_id :: string

record govuln_vuln =
  gv_osv :: govuln_osv
  gv_modules :: "govuln_module slice"

record govuln_root =
  groot_vulns :: "govuln_vuln slice"

definition govuln_module_field :: "rune list \<Rightarrow> (json \<Rightarrow> govuln_module \<Rightarrow> govuln_module option) option" where
  "govuln_module_field k =
     (if field_is ''path'' k then Some (into gm_path (\<lambda>f. gm_path_update (\<lambda>_. f)) dec_string)
      else if field_is ''version'' k then Some (into gm_version (\<lambda>f. gm_version_update (\<lambda>_. f)) dec_string)
      else if field_is ''fixed_version'' k then Some (into gm_fixed (\<lambda>f. gm_fixed_update (\<lambda>_. f)) dec_string)
      else None)"

definition govuln_osv_field :: "rune list \<Rightarrow> (json \<Rightarrow> govuln_osv \<Rightarrow> govuln_osv option) option" where
  "govuln_osv_field k =
     (if field_is ''id'' k then Some (into go_id (\<lambda>f. go_id_update (\<lambda>_. f)) dec_string) else None)"

definition govuln_vuln_field :: "rune list \<Rightarrow> (json \<Rightarrow> govuln_vuln \<Rightarrow> govuln_vuln option) option" where
  "govuln_vuln_field k =
     (if field_is ''osv'' k then
        Some (into gv_osv (\<lambda>f. gv_osv_update (\<lambda>_. f)) (dec_struct False govuln_osv_field))
      else if field_is ''modules'' k then
        Some (into gv_modules (\<lambda>f. gv_modules_update (\<lambda>_. f))
          (dec_slice (dec_struct False govuln_module_field) \<lparr>gm_path = [], gm_version = [], gm_fixed = []\<rparr>))
      else None)"

definition govuln_root_field :: "rune list \<Rightarrow> (json \<Rightarrow> govuln_root \<Rightarrow> govuln_root option) option" where
  "govuln_root_field k =
     (if field_is ''vulns'' k then
        Some (into groot_vulns (\<lambda>f. groot_vulns_update (\<lambda>_. f))
          (dec_slice (dec_struct False govuln_vuln_field) \<lparr>gv_osv = \<lparr>go_id = []\<rparr>, gv_modules = ([], 0)\<rparr>))
      else None)"

definition govuln_finding :: "govuln_vuln \<Rightarrow> govuln_module \<Rightarrow> finding" where
  "govuln_finding v m =
     \<lparr>f_repo = [], f_scanner = ScannerGovuln, f_ecosystem = ''Go'', f_package = gm_path m,
      f_current = gm_version m, f_target = gm_fixed m, f_severity = [], f_advisory = go_id (gv_osv v)\<rparr>"

definition ParseGovuln :: "string \<Rightarrow> finding list option" where
  "ParseGovuln s =
     map_option (\<lambda>root. concat (map (\<lambda>v. map (govuln_finding v) (slice_list (gv_modules v)))
        (slice_list (groot_vulns root))))
     (unmarshal govuln_root_field \<lparr>groot_vulns = ([], 0)\<rparr> s)"

section \<open>Renovate\<close>

record renovate_update =
  ru_dep :: string
  ru_current_value :: string
  ru_new_value :: string
  ru_type :: string
  ru_current_version :: string
  ru_new_version :: string
  ru_file :: string

record renovate_repo =
  rr_updates :: "renovate_update slice"

record renovate_report =
  rep_repos :: "renovate_repo slice"

definition renovate_update_field :: "rune list \<Rightarrow> (json \<Rightarrow> renovate_update \<Rightarrow> renovate_update option) option" where
  "renovate_update_field k =
     (if field_is ''depName'' k then Some (into ru_dep (\<lambda>f. ru_dep_update (\<lambda>_. f)) dec_string)
      else if field_is ''currentValue'' k then
        Some (into ru_current_value (\<lambda>f. ru_current_value_update (\<lambda>_. f)) dec_string)
      else if field_is ''newValue'' k then Some (into ru_new_value (\<lambda>f. ru_new_value_update (\<lambda>_. f)) dec_string)
      else if field_is ''updateType'' k then Some (into ru_type (\<lambda>f. ru_type_update (\<lambda>_. f)) dec_string)
      else if field_is ''currentVersion'' k then
        Some (into ru_current_version (\<lambda>f. ru_current_version_update (\<lambda>_. f)) dec_string)
      else if field_is ''newVersion'' k then
        Some (into ru_new_version (\<lambda>f. ru_new_version_update (\<lambda>_. f)) dec_string)
      else if field_is ''packageFile'' k then Some (into ru_file (\<lambda>f. ru_file_update (\<lambda>_. f)) dec_string)
      else None)"

definition zero_renovate_update :: renovate_update where
  "zero_renovate_update = \<lparr>ru_dep = [], ru_current_value = [], ru_new_value = [], ru_type = [],
     ru_current_version = [], ru_new_version = [], ru_file = []\<rparr>"

definition renovate_repo_field :: "rune list \<Rightarrow> (json \<Rightarrow> renovate_repo \<Rightarrow> renovate_repo option) option" where
  "renovate_repo_field k =
     (if field_is ''updates'' k then
        Some (into rr_updates (\<lambda>f. rr_updates_update (\<lambda>_. f))
          (dec_slice (dec_struct False renovate_update_field) zero_renovate_update))
      else None)"

definition renovate_report_field :: "rune list \<Rightarrow> (json \<Rightarrow> renovate_report \<Rightarrow> renovate_report option) option" where
  "renovate_report_field k =
     (if field_is ''repositories'' k then
        Some (into rep_repos (\<lambda>f. rep_repos_update (\<lambda>_. f))
          (dec_slice (dec_struct False renovate_repo_field) \<lparr>rr_updates = ([], 0)\<rparr>))
      else None)"

definition ecosystemFromPackageFile :: "string \<Rightarrow> string" where
  "ecosystemFromPackageFile path =
     (if path = [] then []
      else if path = ''package.json'' \<or> has_suffix path ''/package.json'' then ''npm''
      else if path = ''go.mod'' \<or> has_suffix path ''/go.mod'' then ''Go''
      else if has_suffix path ''requirements.txt'' \<or> path = ''pyproject.toml'' \<or> path = ''Pipfile'' then ''PyPI''
      else if path = ''Gemfile'' \<or> has_suffix path ''/Gemfile'' then ''gem''
      else if path = ''pom.xml'' \<or> has_suffix path ''/pom.xml'' then ''Maven''
      else if has_suffix path ''.csproj'' then ''NuGet''
      else if path = ''Cargo.toml'' \<or> has_suffix path ''/Cargo.toml'' then ''crates.io''
      else [])"

definition renovate_to_update :: "renovate_update \<Rightarrow> update" where
  "renovate_to_update u =
     \<lparr>u_repo = [], u_ecosystem = ecosystemFromPackageFile (ru_file u), u_package = ru_dep u,
      u_current = (if ru_current_version u = [] then ru_current_value u else ru_current_version u),
      u_target = (if ru_new_version u = [] then ru_new_value u else ru_new_version u),
      u_type = ru_type u\<rparr>"

definition ParseRenovate :: "string \<Rightarrow> update list option" where
  "ParseRenovate s =
     map_option (\<lambda>rep. concat (map (\<lambda>repo.
        map renovate_to_update (filter (\<lambda>u. ru_dep u \<noteq> []) (slice_list (rr_updates repo))))
        (slice_list (rep_repos rep))))
     (unmarshal renovate_report_field \<lparr>rep_repos = ([], 0)\<rparr> s)"

section \<open>Running the tools\<close>

text \<open>
  A tool's process either exits (with a code and its standard output) or fails to run at all.
\<close>

datatype exit_status = Exited int string | NotRun

record tool =
  tl_scanner :: string
  tl_bin :: string
  tl_args :: "string \<Rightarrow> string list"
  tl_parse :: "string \<Rightarrow> finding list option"
  tl_ok_exit :: "(int \<Rightarrow> bool) option"

definition exitOK :: "tool \<Rightarrow> int \<Rightarrow> bool" where
  "exitOK t code = (case tl_ok_exit t of None \<Rightarrow> code = 0 | Some ok \<Rightarrow> ok code)"

definition StandardTools :: "tool list" where
  "StandardTools =
     [\<lparr>tl_scanner = ScannerOSV, tl_bin = ''osv-scanner'', tl_args = (\<lambda>dir. [''--format'', ''json'', dir]),
       tl_parse = ParseOSV, tl_ok_exit = Some (\<lambda>code. code = 0 \<or> code = 1)\<rparr>]"

datatype scan_error = ToolFailed string | ParseFailed string

text \<open>\<open>spawn bin args dir\<close> is the process. An exit of zero is success whatever \<open>OKExit\<close> says.\<close>

fun Run :: "(string \<Rightarrow> string list \<Rightarrow> string \<Rightarrow> exit_status) \<Rightarrow> string \<Rightarrow> tool list \<Rightarrow>
    (scan_error, finding list) result" where
  "Run spawn dir [] = Inr []"
| "Run spawn dir (t # ts) =
     (case spawn (tl_bin t) (tl_args t dir) dir of
        NotRun \<Rightarrow> Inl (ToolFailed (tl_scanner t))
      | Exited code out \<Rightarrow>
          if code \<noteq> 0 \<and> \<not> exitOK t code then Inl (ToolFailed (tl_scanner t))
          else (case tl_parse t out of None \<Rightarrow> Inl (ParseFailed (tl_scanner t))
                | Some fs \<Rightarrow> rbind (Run spawn dir ts) (\<lambda>rest. Inr (fs @ rest))))"

section \<open>Properties\<close>

lemma foldl_fixed: "foldl fixed_step x es = last (x # filter (\<lambda>v. v \<noteq> []) (map oe_fixed es))"
  by (induction es arbitrary: x) (auto simp: fixed_step_def)

lemma foldl_ranges:
  "foldl (\<lambda>fixed r. foldl fixed_step fixed (slice_list (or_events r))) x rs =
   foldl fixed_step x (concat (map (\<lambda>r. slice_list (or_events r)) rs))"
  by (induction rs arbitrary: x) simp_all

text \<open>
  The target version of an OSV finding is the last fixed version named by any event of any range,
  in the order of the report, and empty when no event names one.
\<close>

theorem fixed_version_is_last:
  "fixedVersionFromRanges ranges =
   last ([] # filter (\<lambda>v. v \<noteq> []) (map oe_fixed (concat (map (\<lambda>r. slice_list (or_events r)) ranges))))"
  unfolding fixedVersionFromRanges_def foldl_ranges by (rule foldl_fixed)

definition tool_ran :: "(string \<Rightarrow> string list \<Rightarrow> string \<Rightarrow> exit_status) \<Rightarrow> string \<Rightarrow> tool \<Rightarrow> finding list \<Rightarrow> bool" where
  "tool_ran spawn dir t fs \<longleftrightarrow> (\<exists>code out. spawn (tl_bin t) (tl_args t dir) dir = Exited code out \<and>
     (code = 0 \<or> exitOK t code) \<and> tl_parse t out = Some fs)"

text \<open>
  A scan succeeds exactly when every tool ran to an exit that counts as success and wrote a report
  that parses, and its findings are the reports' findings, in the order of the tools.
\<close>

theorem Run_iff:
  "Run spawn dir ts = Inr fs \<longleftrightarrow> (\<exists>fss. list_all2 (tool_ran spawn dir) ts fss \<and> fs = concat fss)"
proof (induction ts arbitrary: fs)
  case Nil
  then show ?case by auto
next
  case (Cons t ts)
  have "Run spawn dir (t # ts) = Inr fs \<longleftrightarrow>
      (\<exists>gs rest. tool_ran spawn dir t gs \<and> Run spawn dir ts = Inr rest \<and> fs = gs @ rest)"
    by (auto simp: tool_ran_def split: exit_status.splits option.splits)
  also have "\<dots> \<longleftrightarrow> (\<exists>gs fss. tool_ran spawn dir t gs \<and> list_all2 (tool_ran spawn dir) ts fss \<and> fs = gs @ concat fss)"
    unfolding Cons.IH by blast
  also have "\<dots> \<longleftrightarrow> (\<exists>fss. list_all2 (tool_ran spawn dir) (t # ts) fss \<and> fs = concat fss)"
    unfolding list_all2_Cons1 by (metis concat.simps(2))
  finally show ?case .
qed

lemma ParseRenovate_named: "ParseRenovate s = Some us \<Longrightarrow> u \<in> set us \<Longrightarrow> u_package u \<noteq> []"
  by (auto simp: ParseRenovate_def renovate_to_update_def)

end
