(* ===== verification/World.thy ===== *)
theory World
  imports Policy Scan
begin

text \<open>
  The state the program's processes share and the outside they talk to. The database is a record
  of tables. Everything that is not the program's code is a field of \<open>outside\<close>: what Postgres'
  connection, GitHub, git and the clock answer, each a function of how many outside interactions
  there have been, so that any sequence of answers can be supposed. The world keeps the
  tables, that count, and the log of all calls that reach GitHub.
\<close>

section \<open>Tables\<close>

text \<open>One row of \<open>runs\<close>; columns that may be NULL are options. The grant is kept decoded.\<close>

record run_row =
  rn_id :: string
  rn_repo :: string
  rn_trigger :: string
  rn_scope_kind :: string
  rn_scope_number :: "int option"
  rn_grant :: grant
  rn_decision :: string
  rn_deny_reason :: "policy_error option"
  rn_status :: string
  rn_meta :: json
  rn_model :: "string option"
  rn_tokens_in :: "int option"
  rn_tokens_out :: "int option"
  rn_cost :: "int option"
  rn_failure :: "string option"
  rn_started :: "go_time option"
  rn_ended :: "go_time option"
  rn_ref :: "string option"

record finding_row =
  fr_finding :: finding
  fr_status :: string
  fr_run :: string

record update_row =
  ur_update :: update
  ur_run :: string

record config_row =
  cf_owner :: string
  cf_name :: string
  cf_rules :: rules

record db =
  db_runs :: "run_row list"
  db_intents :: "string \<Rightarrow> (string \<times> string) option"
  db_reviews :: "string \<times> int \<Rightarrow> int option"
  db_config :: "config_row list"
  db_findings :: "finding_row list"
  db_updates :: "update_row list"
  db_gaps :: "(string \<times> string \<times> string option) list"
  db_jobs :: "string list"

definition empty_db :: db where
  "empty_db = \<lparr>db_runs = [], db_intents = (\<lambda>_. None), db_reviews = (\<lambda>_. None), db_config = [],
     db_findings = [], db_updates = [], db_gaps = [], db_jobs = []\<rparr>"

datatype db_error =
    ConnError
  | NoRows
  | UniqueViolation
  | ForeignKeyViolation
  | NumericOutOfRange

section \<open>The outside\<close>

text \<open>A request to the GitHub API; owner and name are the path of the request.\<close>

datatype gh_call =
    PullsCreate (pc_owner: string) (pc_name: string) (pc_title: string) (pc_head: string)
      (pc_base: string) (pc_text: string) (pc_draft: bool)
  | PullsPatch string string int "string option" "bool option"
  | EditComment string string int string
  | CreateComment string string int string
  | CreateReviewComment string string int string string int string string
  | UsersGet
  | ListComments string string int int
  | AddLabels string string int "string list"
  | RemoveLabel string string int string

record gh_reply =
  rp_err :: bool
  rp_status :: "int option"          \<comment> \<open>the response's status code; none for a nil response\<close>
  rp_number :: int
  rp_id :: int
  rp_login :: string
  rp_comments :: "(int \<times> string \<times> string) list"   \<comment> \<open>id, login, body\<close>
  rp_next :: int

datatype db_fault = Healthy | Refused | Unacknowledged

record outside =
  o_db :: "nat \<Rightarrow> db_fault"
  o_gh :: "nat \<Rightarrow> string \<Rightarrow> gh_call \<Rightarrow> gh_reply"
  o_git :: "nat \<Rightarrow> string list \<Rightarrow> string option"    \<comment> \<open>the output, or none for a failure\<close>
  o_clock :: "nat \<Rightarrow> go_time"
  o_pages :: nat          \<comment> \<open>how many pages of a listing are followed\<close>

text \<open>What reached GitHub: an API call or a push, with the token it was made under.\<close>

datatype event =
    GhEvent string gh_call
  | PushEvent string string string string   \<comment> \<open>token, owner, name, branch\<close>

record world =
  w_tick :: nat
  w_db :: db
  w_log :: "event list"

definition tick :: "world \<Rightarrow> world" where
  "tick w = w\<lparr>w_tick := Suc (w_tick w)\<rparr>"

definition clock :: "outside \<Rightarrow> (world, 'e, go_time) eff" where
  "clock E w = (Inr (o_clock E (w_tick w)), tick w)"

definition gh :: "outside \<Rightarrow> string \<Rightarrow> gh_call \<Rightarrow> (world, 'e, gh_reply) eff" where
  "gh E token c w = (Inr (o_gh E (w_tick w) token c), (tick w)\<lparr>w_log := w_log w @ [GhEvent token c]\<rparr>)"

definition git :: "outside \<Rightarrow> string list \<Rightarrow> (world, unit, string) eff" where
  "git E args w = ((case o_git E (w_tick w) args of None \<Rightarrow> Inl () | Some out \<Rightarrow> Inr out), tick w)"

text \<open>
  One statement: a function of the database's clock and the tables. A refused statement does nothing; an unacknowledged one takes effect but the caller sees an error.
\<close>

type_synonym 'a stmt = "go_time \<Rightarrow> db \<Rightarrow> (db_error, 'a) result \<times> db"

definition exec_stmt :: "outside \<Rightarrow> 'a stmt \<Rightarrow> (world, db_error, 'a) eff" where
  "exec_stmt E f w =
     (let (r, d) = f (o_clock E (w_tick w)) (w_db w) in
      case o_db E (w_tick w) of
        Healthy \<Rightarrow> (r, (tick w)\<lparr>w_db := d\<rparr>)
      | Refused \<Rightarrow> (Inl ConnError, tick w)
      | Unacknowledged \<Rightarrow> (Inl ConnError, (tick w)\<lparr>w_db := d\<rparr>))"

section \<open>What the outside keeps\<close>

lemma tick_simps [simp]: "w_db (tick w) = w_db w" "w_log (tick w) = w_log w" "w_tick (tick w) = Suc (w_tick w)"
  by (simp_all add: tick_def)

lemma exec_stmt_log: "exec_stmt E f w = (r, v) \<Longrightarrow> w_log v = w_log w"
  by (auto simp: exec_stmt_def Let_def split: prod.splits db_fault.splits)

lemma exec_stmt_db:
  "exec_stmt E f w = (r, v) \<Longrightarrow>
     w_db v = w_db w \<or> w_db v = snd (f (o_clock E (w_tick w)) (w_db w))"
  by (auto simp: exec_stmt_def Let_def split: prod.splits db_fault.splits)

lemma exec_stmt_Inr:
  "exec_stmt E f w = (Inr x, v) \<longleftrightarrow>
     o_db E (w_tick w) = Healthy \<and> fst (f (o_clock E (w_tick w)) (w_db w)) = Inr x \<and>
     v = (tick w)\<lparr>w_db := snd (f (o_clock E (w_tick w)) (w_db w))\<rparr>"
  by (auto simp: exec_stmt_def Let_def split: prod.splits db_fault.splits)

text \<open>A statement that only reads.\<close>

definition reads_only :: "'a stmt \<Rightarrow> bool" where
  "reads_only f \<longleftrightarrow> (\<forall>t d. snd (f t d) = d)"

lemma exec_stmt_reads: "reads_only f \<Longrightarrow> exec_stmt E f w = (r, v) \<Longrightarrow> w_db v = w_db w"
  using exec_stmt_db [of E f w r v] by (auto simp: reads_only_def)

end
