(* ===== verification/Trace.thy ===== *)
theory Trace
  imports World
begin

text \<open>
  Reasoning about what a piece of the program does to the world without running it: which calls it
  adds to the log (\<open>logs P m\<close>: only calls that satisfy \<open>P\<close>) and that it leaves the tables alone
  (\<open>db_still m\<close>). Both are compositional; the rules are collected in \<open>trace_intros\<close>.
\<close>

section \<open>What a piece of the program adds to the log\<close>

definition adds :: "(event \<Rightarrow> bool) \<Rightarrow> world \<Rightarrow> world \<Rightarrow> bool" where
  "adds P w v \<longleftrightarrow> (\<exists>es. w_log v = w_log w @ es \<and> list_all P es)"

lemma adds_refl [simp]: "adds P w w"
  by (simp add: adds_def)

lemma adds_same: "w_log v = w_log w \<Longrightarrow> adds P w v"
  by (simp add: adds_def)

lemma adds_trans: "adds P u v \<Longrightarrow> adds P v w \<Longrightarrow> adds P u w"
  by (auto simp: adds_def)

lemma adds_mono: "adds P w v \<Longrightarrow> (\<And>e. P e \<Longrightarrow> Q e) \<Longrightarrow> adds Q w v"
  by (auto simp: adds_def list_all_iff)

lemma adds_none: "adds (\<lambda>_. False) w v \<longleftrightarrow> w_log v = w_log w"
  by (auto simp: adds_def list_all_iff)

lemma adds_in: "adds P w v \<Longrightarrow> e \<in> set (w_log v) \<Longrightarrow> e \<in> set (w_log w) \<or> P e"
  by (auto simp: adds_def list_all_iff)

definition logs :: "(event \<Rightarrow> bool) \<Rightarrow> (world, 'e, 'a) eff \<Rightarrow> bool" where
  "logs P m \<longleftrightarrow> keeps (adds P) m"

definition db_still :: "(world, 'e, 'a) eff \<Rightarrow> bool" where
  "db_still m \<longleftrightarrow> keeps (\<lambda>w v. w_db v = w_db w) m"

lemma logsD: "logs P m \<Longrightarrow> m w = (r, v) \<Longrightarrow> adds P w v"
  unfolding logs_def by (rule keepsD)

lemma logsI: "(\<And>w r v. m w = (r, v) \<Longrightarrow> adds P w v) \<Longrightarrow> logs P m"
  unfolding logs_def by (rule keepsI)

lemma db_stillD: "db_still m \<Longrightarrow> m w = (r, v) \<Longrightarrow> w_db v = w_db w"
  unfolding db_still_def by (rule keepsD)

lemma db_stillI: "(\<And>w r v. m w = (r, v) \<Longrightarrow> w_db v = w_db w) \<Longrightarrow> db_still m"
  unfolding db_still_def by (rule keepsI)

lemma logs_mono: "logs P m \<Longrightarrow> (\<And>e. P e \<Longrightarrow> Q e) \<Longrightarrow> logs Q m"
  unfolding logs_def keeps_def using adds_mono by blast

section \<open>Composition\<close>

lemma logs_ebind [trace_intros]: "logs P m \<Longrightarrow> (\<And>x. logs P (f x)) \<Longrightarrow> logs P (ebind m f)"
  unfolding logs_def by (rule keeps_ebind [where R = "adds P"]) (auto intro: adds_trans)

lemma logs_basic [trace_intros]:
  "logs P (eret x)" "logs P (efail e)" "logs P (elift r)"
  unfolding logs_def by (simp_all add: keeps_eret keeps_efail keeps_elift)

lemma logs_wrapped [trace_intros]:
  "logs P m \<Longrightarrow> logs P (ewrap w m)" "logs P m \<Longrightarrow> logs P (eignore m)" "logs P m \<Longrightarrow> logs P (etry m)"
  unfolding logs_def by (simp_all add: keeps_ewrap keeps_eignore keeps_etry)

lemma logs_if [trace_intros]: "(b \<Longrightarrow> logs P m) \<Longrightarrow> (\<not> b \<Longrightarrow> logs P n) \<Longrightarrow> logs P (if b then m else n)"
  by simp

lemma logs_option [trace_intros]:
  "(x = None \<Longrightarrow> logs P m) \<Longrightarrow> (\<And>y. x = Some y \<Longrightarrow> logs P (f y)) \<Longrightarrow> logs P (case x of None \<Rightarrow> m | Some y \<Rightarrow> f y)"
  by (cases x) simp_all

lemma logs_prod [trace_intros]:
  "(\<And>a b. x = (a, b) \<Longrightarrow> logs P (f a b)) \<Longrightarrow> logs P (case x of (a, b) \<Rightarrow> f a b)"
  by (cases x) simp

lemma logs_sum [trace_intros]:
  "(\<And>a. x = Inl a \<Longrightarrow> logs P (f a)) \<Longrightarrow> (\<And>b. x = Inr b \<Longrightarrow> logs P (g b)) \<Longrightarrow> logs P (case x of Inl a \<Rightarrow> f a | Inr b \<Rightarrow> g b)"
  by (cases x) simp_all

lemma db_still_ebind [trace_intros]: "db_still m \<Longrightarrow> (\<And>x. db_still (f x)) \<Longrightarrow> db_still (ebind m f)"
  unfolding db_still_def by (rule keeps_ebind [where R = "\<lambda>w v. w_db v = w_db w"]) auto

lemma db_still_basic [trace_intros]:
  "db_still (eret x)" "db_still (efail e)" "db_still (elift r)"
  unfolding db_still_def by (simp_all add: keeps_eret keeps_efail keeps_elift)

lemma db_still_wrapped [trace_intros]:
  "db_still m \<Longrightarrow> db_still (ewrap w m)" "db_still m \<Longrightarrow> db_still (eignore m)" "db_still m \<Longrightarrow> db_still (etry m)"
  unfolding db_still_def by (simp_all add: keeps_ewrap keeps_eignore keeps_etry)

lemma db_still_if [trace_intros]: "(b \<Longrightarrow> db_still m) \<Longrightarrow> (\<not> b \<Longrightarrow> db_still n) \<Longrightarrow> db_still (if b then m else n)"
  by simp

lemma db_still_option [trace_intros]:
  "db_still m \<Longrightarrow> (\<And>y. db_still (f y)) \<Longrightarrow> db_still (case x of None \<Rightarrow> m | Some y \<Rightarrow> f y)"
  by (cases x) simp_all

lemma db_still_prod [trace_intros]:
  "(\<And>a b. db_still (f a b)) \<Longrightarrow> db_still (case x of (a, b) \<Rightarrow> f a b)"
  by (cases x) simp

lemma db_still_sum [trace_intros]:
  "(\<And>a. db_still (f a)) \<Longrightarrow> (\<And>b. db_still (g b)) \<Longrightarrow> db_still (case x of Inl a \<Rightarrow> f a | Inr b \<Rightarrow> g b)"
  by (cases x) simp_all

section \<open>The primitive interactions\<close>

lemma logs_gh [trace_intros]: "P (GhEvent t c) \<Longrightarrow> logs P (gh E t c)"
  by (rule logsI) (auto simp: gh_def adds_def)

lemma logs_quiet [trace_intros]: "logs P (clock E)" "logs P (git E args)" "logs P (exec_stmt E f)"
  by (rule logsI, auto simp: clock_def git_def intro!: adds_same dest: exec_stmt_log)+

lemma db_still_quiet [trace_intros]: "db_still (clock E)" "db_still (git E args)" "db_still (gh E t c)"
  by (rule db_stillI, auto simp: clock_def git_def gh_def)+

lemma db_still_exec [trace_intros]: "reads_only f \<Longrightarrow> db_still (exec_stmt E f)"
  by (rule db_stillI) (rule exec_stmt_reads)

end
