(* ===== verification/GoSort.thy ===== *)
theory GoSort
  imports Prelude "HOL-Library.Multiset"
begin

text \<open>
  Go's order of strings, and sorting by a \<open>less\<close> function (\<open>sort.Slice\<close>, \<open>sort.Strings\<close>, \<open>ORDER BY\<close>).
  What a sort by a \<open>less\<close> gives is proved once for the orders a \<open>less\<close> has to be, which are the locales
  here, and used through their interpretations.
\<close>

section \<open>Sorting\<close>

fun insert_by :: "('a \<Rightarrow> 'a \<Rightarrow> bool) \<Rightarrow> 'a \<Rightarrow> 'a list \<Rightarrow> 'a list" where
  "insert_by lt x [] = [x]"
| "insert_by lt x (y # ys) = (if lt x y then x # y # ys else y # insert_by lt x ys)"

definition order_by :: "('a \<Rightarrow> 'a \<Rightarrow> bool) \<Rightarrow> 'a list \<Rightarrow> 'a list" where
  "order_by lt xs = foldl (\<lambda>acc x. insert_by lt x acc) [] xs"

lemma mset_insert_by [simp]: "mset (insert_by lt x ys) = add_mset x (mset ys)"
  by (induction ys) auto

lemma set_insert_by [simp]: "set (insert_by lt x ys) = insert x (set ys)"
  by (induction ys) auto

lemma mset_order_by [simp]: "mset (order_by lt xs) = mset xs"
proof -
  have "mset (foldl (\<lambda>acc x. insert_by lt x acc) ys xs) = mset ys + mset xs" for ys
    by (induction xs arbitrary: ys) auto
  then show ?thesis by (simp add: order_by_def)
qed

lemma set_order_by [simp]: "set (order_by lt xs) = set xs"
  by (metis mset_order_by set_mset_mset)

lemma distinct_order_by [simp]: "distinct (order_by lt xs) = distinct xs"
  by (rule mset_eq_imp_distinct_iff) simp

lemma length_order_by [simp]: "length (order_by lt xs) = length xs"
  by (metis mset_order_by size_mset)

section \<open>What a \<open>less\<close> has to be\<close>

locale weak_order =
  fixes lt :: "'a \<Rightarrow> 'a \<Rightarrow> bool"
  assumes asym: "lt x y \<Longrightarrow> \<not> lt y x"
    and split: "lt x z \<Longrightarrow> lt x y \<or> lt y z"
begin

lemma trans: "lt x y \<Longrightarrow> lt y z \<Longrightarrow> lt x z"
  using asym split by blast

lemma insert_sorted: "sorted_wrt (\<lambda>a b. \<not> lt b a) ys \<Longrightarrow> sorted_wrt (\<lambda>a b. \<not> lt b a) (insert_by lt x ys)"
proof (induction ys)
  case (Cons y ys)
  show ?case
  proof (cases "lt x y")
    case True
    then have "\<not> lt z x" if "z \<in> set (y # ys)" for z
      using Cons.prems that asym split by fastforce
    then show ?thesis using Cons.prems True by simp
  qed (use Cons in auto)
qed simp

lemma sorted_order_by: "sorted_wrt (\<lambda>a b. \<not> lt b a) (order_by lt xs)"
proof -
  have "sorted_wrt (\<lambda>a b. \<not> lt b a) ys \<Longrightarrow> sorted_wrt (\<lambda>a b. \<not> lt b a) (foldl (\<lambda>acc x. insert_by lt x acc) ys xs)" for ys
    by (induction xs arbitrary: ys) (auto intro: insert_sorted)
  then show ?thesis unfolding order_by_def by simp
qed

end

text \<open>An order that tells any two elements apart: sorting a list without duplicates has one result.\<close>

locale strict_order = weak_order +
  assumes total: "x \<noteq> y \<Longrightarrow> lt x y \<or> lt y x"
begin

lemma distinct_strict: "distinct ys \<Longrightarrow> sorted_wrt (\<lambda>a b. \<not> lt b a) ys \<Longrightarrow> sorted_wrt lt ys"
  by (induction ys) (auto, metis total)

lemma strictly_sorted: "distinct xs \<Longrightarrow> sorted_wrt lt (order_by lt xs)"
  by (simp add: distinct_strict sorted_order_by)

end

text \<open>A \<open>less\<close> that looks at one key after the other.\<close>

lemma weak_order_key: "weak_order lt \<Longrightarrow> weak_order (\<lambda>a b. lt (f a) (f b))"
  unfolding weak_order_def by blast

lemma weak_order_then:
  assumes "strict_order lt" "weak_order lt'"
  shows "weak_order (\<lambda>a b. if f a \<noteq> f b then lt (f a) (f b) else lt' a b)"
proof -
  have lt: "\<And>x y. lt x y \<Longrightarrow> \<not> lt y x" "\<And>x y z. lt x z \<Longrightarrow> lt x y \<or> lt y z" "\<And>x y. x \<noteq> y \<Longrightarrow> lt x y \<or> lt y x"
    using assms(1) unfolding strict_order_def strict_order_axioms_def weak_order_def by blast+
  have lt': "\<And>x y. lt' x y \<Longrightarrow> \<not> lt' y x" "\<And>x y z. lt' x z \<Longrightarrow> lt' x y \<or> lt' y z"
    using assms(2) unfolding weak_order_def by blast+
  show ?thesis
  proof
    fix x y z
    show "(if f x \<noteq> f y then lt (f x) (f y) else lt' x y) \<Longrightarrow> \<not> (if f y \<noteq> f x then lt (f y) (f x) else lt' y x)"
      using lt(1) lt'(1) by (auto split: if_splits)
    show "(if f x \<noteq> f z then lt (f x) (f z) else lt' x z) \<Longrightarrow>
        (if f x \<noteq> f y then lt (f x) (f y) else lt' x y) \<or> (if f y \<noteq> f z then lt (f y) (f z) else lt' y z)"
      using lt(2) [of "f x" "f z" "f y"] lt(3) [of "f x" "f y"] lt(1) lt'(2) [of x z y]
      by (cases "f x = f y"; cases "f y = f z"; cases "f x = f z") auto
  qed
qed

lemma strict_order_less: "strict_order ((<) :: 'a :: linorder \<Rightarrow> 'a \<Rightarrow> bool)"
  by unfold_locales auto

section \<open>The order of strings\<close>

text \<open>Byte by byte.\<close>

fun byte_less :: "string \<Rightarrow> string \<Rightarrow> bool" where
  "byte_less [] ys = (ys \<noteq> [])"
| "byte_less (x # xs) [] = False"
| "byte_less (x # xs) (y # ys) =
     (if (of_char x :: nat) < of_char y then True else if x = y then byte_less xs ys else False)"

lemma byte_less_Nil [simp]: "\<not> byte_less xs []"
  by (cases xs) auto

lemma byte_less_asym: "byte_less xs ys \<Longrightarrow> \<not> byte_less ys xs"
  by (induction xs ys rule: byte_less.induct) (auto split: if_splits)

lemma byte_less_split: "byte_less xs zs \<Longrightarrow> byte_less xs ys \<or> byte_less ys zs"
proof (induction xs zs arbitrary: ys rule: byte_less.induct)
  case (1 zs)
  then show ?case by (cases ys) auto
next
  case (3 x xs z zs)
  show ?case
  proof (cases ys)
    case (Cons y ys')
    then show ?thesis using 3 by (auto split: if_splits)
  qed (use 3 in auto)
qed simp

lemma byte_less_total: "xs \<noteq> ys \<Longrightarrow> byte_less xs ys \<or> byte_less ys xs"
proof (induction xs ys rule: byte_less.induct)
  case (3 x xs y ys)
  show ?case
  proof (cases "x = y")
    case False
    then have "(of_char x :: nat) \<noteq> of_char y" by simp
    then show ?thesis by auto
  qed (use 3 in auto)
qed auto

interpretation bytes_order: strict_order byte_less
  by unfold_locales (auto dest: byte_less_asym byte_less_split byte_less_total)

text \<open>\<open>sort.Strings\<close>.\<close>

definition sort_strings :: "string list \<Rightarrow> string list" where
  "sort_strings = order_by byte_less"

lemma set_sort_strings [simp]: "set (sort_strings xs) = set xs"
  by (simp add: sort_strings_def)

end
