(* ===== verification/Ledger.thy ===== *)
theory Ledger
  imports World GoSort
begin

text \<open>
  The ledger (\<open>internal/ledger/ledger.go\<close> over \<open>schema.sql\<close>): each method is the SQL statement it
  sends, as a function on the tables with the constraints of the schema (primary keys, the
  foreign key of \<open>intents\<close>, the width of \<open>scope_number\<close>, the upsert keys), run by
  \<open>exec_stmt\<close>. A statement that fails leaves the tables as they were, and a batch is one
  implicit transaction.
\<close>

section \<open>Run statuses and runs\<close>

definition RunQueued :: string where [string_consts]: "RunQueued = ''queued''"
definition RunRunning :: string where [string_consts]: "RunRunning = ''running''"
definition RunSucceeded :: string where [string_consts]: "RunSucceeded = ''succeeded''"
definition RunFailed :: string where [string_consts]: "RunFailed = ''failed''"
definition RunDenied :: string where [string_consts]: "RunDenied = ''denied''"
definition RunNeedsInput :: string where [string_consts]: "RunNeedsInput = ''needs_input''"

record ledger_run =
  lr_id :: string
  lr_repo :: string
  lr_trigger :: string
  lr_scope_kind :: string
  lr_scope_number :: int
  lr_grant :: grant
  lr_decision :: string
  lr_deny_reason :: "policy_error option"
  lr_status :: string
  lr_meta :: "json option"

text \<open>\<open>NULLIF\<close> and \<open>COALESCE\<close>.\<close>

definition nullif :: "'a \<Rightarrow> 'a \<Rightarrow> 'a option" where
  "nullif x y = (if x = y then None else Some x)"

fun coalesce :: "'a option \<Rightarrow> 'a option \<Rightarrow> 'a option" where
  "coalesce (Some x) y = Some x"
| "coalesce None y = y"

definition int4 :: "int \<Rightarrow> bool" where
  "int4 i \<longleftrightarrow> - (2 ^ 31) \<le> i \<and> i < 2 ^ 31"

definition find_run :: "string \<Rightarrow> db \<Rightarrow> run_row option" where
  "find_run i d = List.find (\<lambda>r. rn_id r = i) (db_runs d)"

definition update_run :: "string \<Rightarrow> (run_row \<Rightarrow> run_row) \<Rightarrow> db \<Rightarrow> db" where
  "update_run i f d = d\<lparr>db_runs := map (\<lambda>r. if rn_id r = i then f r else r) (db_runs d)\<rparr>"

section \<open>Statements\<close>

definition stmt_insert_run :: "ledger_run \<Rightarrow> unit stmt" where
  "stmt_insert_run r t d =
     (if \<not> int4 (lr_scope_number r) then (Inl NumericOutOfRange, d)
      else if find_run (lr_id r) d \<noteq> None then (Inl UniqueViolation, d)
      else (Inr (), d\<lparr>db_runs := db_runs d @
        [\<lparr>rn_id = lr_id r, rn_repo = lr_repo r, rn_trigger = lr_trigger r,
          rn_scope_kind = lr_scope_kind r, rn_scope_number = nullif (lr_scope_number r) 0,
          rn_grant = lr_grant r, rn_decision = lr_decision r, rn_deny_reason = lr_deny_reason r,
          rn_status = lr_status r,
          rn_meta = (case lr_meta r of None \<Rightarrow> JObj [] | Some m \<Rightarrow> m),
          rn_model = None, rn_tokens_in = None, rn_tokens_out = None, rn_cost = None,
          rn_failure = None, rn_started = None, rn_ended = None, rn_ref = None\<rparr>]\<rparr>))"

definition stmt_run_by_id :: "string \<Rightarrow> ledger_run stmt" where
  "stmt_run_by_id i t d =
     (case find_run i d of
        None \<Rightarrow> (Inl NoRows, d)
      | Some r \<Rightarrow> (Inr \<lparr>lr_id = rn_id r, lr_repo = rn_repo r, lr_trigger = rn_trigger r,
          lr_scope_kind = rn_scope_kind r,
          lr_scope_number = (case rn_scope_number r of None \<Rightarrow> 0 | Some n \<Rightarrow> n),
          lr_grant = rn_grant r, lr_decision = rn_decision r, lr_deny_reason = rn_deny_reason r,
          lr_status = rn_status r, lr_meta = Some (rn_meta r)\<rparr>, d))"

definition terminal :: "string \<Rightarrow> bool" where
  "terminal s \<longleftrightarrow> s \<in> {RunSucceeded, RunFailed, RunDenied, RunNeedsInput}"

definition stmt_set_status :: "string \<Rightarrow> string \<Rightarrow> unit stmt" where
  "stmt_set_status i s t d =
     (Inr (), update_run i (\<lambda>r. r\<lparr>rn_status := s,
        rn_started := (if s = RunRunning \<and> rn_started r = None then Some t else rn_started r),
        rn_ended := (if terminal s then Some t else rn_ended r)\<rparr>) d)"

definition stmt_set_ref :: "string \<Rightarrow> string \<Rightarrow> unit stmt" where
  "stmt_set_ref i ref t d = (Inr (), update_run i (\<lambda>r. r\<lparr>rn_ref := Some ref\<rparr>) d)"

text \<open>The cost is in the smallest unit a report carries.\<close>

definition stmt_set_usage :: "string \<Rightarrow> string \<Rightarrow> int \<Rightarrow> int \<Rightarrow> int \<Rightarrow> unit stmt" where
  "stmt_set_usage i model tokensIn tokensOut cost t d =
     (if \<not> int4 tokensIn \<or> \<not> int4 tokensOut then (Inl NumericOutOfRange, d)
      else (Inr (), update_run i (\<lambda>r. r\<lparr>
        rn_model := coalesce (nullif model []) (rn_model r),
        rn_tokens_in := coalesce (nullif tokensIn 0) (rn_tokens_in r),
        rn_tokens_out := coalesce (nullif tokensOut 0) (rn_tokens_out r),
        rn_cost := (if cost > 0 then Some cost else rn_cost r)\<rparr>) d))"

definition stmt_set_failure :: "string \<Rightarrow> string \<Rightarrow> unit stmt" where
  "stmt_set_failure i reason t d =
     (Inr (), update_run i (\<lambda>r. r\<lparr>rn_status := RunFailed, rn_failure := Some reason, rn_ended := Some t\<rparr>) d)"

definition stmt_set_needs_input :: "string \<Rightarrow> string \<Rightarrow> unit stmt" where
  "stmt_set_needs_input i reason t d =
     (Inr (), update_run i (\<lambda>r. r\<lparr>rn_status := RunNeedsInput, rn_failure := Some reason, rn_ended := Some t\<rparr>) d)"

definition stmt_lookup :: "string \<Rightarrow> (string \<times> bool) stmt" where
  "stmt_lookup key t d =
     (case db_intents d key of None \<Rightarrow> (Inr ([], False), d) | Some (_, ref) \<Rightarrow> (Inr (ref, True), d))"

definition stmt_record :: "string \<Rightarrow> string \<Rightarrow> string \<Rightarrow> unit stmt" where
  "stmt_record key runID ref t d =
     (if db_intents d key \<noteq> None then (Inr (), d)
      else if find_run runID d = None then (Inl ForeignKeyViolation, d)
      else (Inr (), d\<lparr>db_intents := (db_intents d)(key \<mapsto> (runID, ref))\<rparr>))"

definition stmt_review_comment :: "string \<Rightarrow> int \<Rightarrow> (int \<times> bool) stmt" where
  "stmt_review_comment repoID pr t d =
     (if \<not> int4 pr then (Inl NumericOutOfRange, d)
      else case db_reviews d (repoID, pr) of None \<Rightarrow> (Inr (0, False), d) | Some c \<Rightarrow> (Inr (c, True), d))"

definition stmt_upsert_review :: "string \<Rightarrow> int \<Rightarrow> int \<Rightarrow> unit stmt" where
  "stmt_upsert_review repoID pr c t d =
     (if \<not> int4 pr then (Inl NumericOutOfRange, d)
      else (Inr (), d\<lparr>db_reviews := (db_reviews d)((repoID, pr) \<mapsto> c)\<rparr>))"

definition no_rules :: rules where
  "no_rules = \<lparr>r_enabled = False, r_labels = [], r_actors = [], r_auto_review = False, r_denied = []\<rparr>"

definition stmt_rules :: "string \<Rightarrow> string \<Rightarrow> rules stmt" where
  "stmt_rules owner name t d =
     (case List.find (\<lambda>c. cf_owner c = owner \<and> cf_name c = name) (db_config d) of
        None \<Rightarrow> (Inr no_rules, d)
      | Some c \<Rightarrow> (Inr (cf_rules c), d))"

definition stmt_gap :: "string \<Rightarrow> string \<Rightarrow> string \<Rightarrow> unit stmt" where
  "stmt_gap runID kind ctx t d = (Inr (), d\<lparr>db_gaps := db_gaps d @ [(runID, kind, nullif ctx [])]\<rparr>)"

text \<open>Upserts: in place when the key is there, else at the end.\<close>

fun upsert :: "('a \<Rightarrow> 'k) \<Rightarrow> 'a \<Rightarrow> 'a list \<Rightarrow> 'a list" where
  "upsert k x [] = [x]"
| "upsert k x (y # ys) = (if k y = k x then x # ys else y # upsert k x ys)"

definition finding_key :: "finding_row \<Rightarrow> string \<times> string \<times> string \<times> string" where
  "finding_key r = (let f = fr_finding r in (f_repo f, f_scanner f, f_package f, f_advisory f))"

definition update_key :: "update_row \<Rightarrow> string \<times> string \<times> string" where
  "update_key r = (let u = ur_update r in (u_repo u, u_ecosystem u, u_package u))"

definition stmt_upsert_findings :: "string \<Rightarrow> finding list \<Rightarrow> unit stmt" where
  "stmt_upsert_findings runID fs t d =
     (if find_run runID d = None then (Inl ForeignKeyViolation, d)
      else (Inr (), d\<lparr>db_findings := foldl (\<lambda>rows f.
        upsert finding_key \<lparr>fr_finding = f, fr_status = ''open'', fr_run = runID\<rparr> rows) (db_findings d) fs\<rparr>))"

definition stmt_upsert_updates :: "string \<Rightarrow> update list \<Rightarrow> unit stmt" where
  "stmt_upsert_updates runID us t d =
     (if find_run runID d = None then (Inl ForeignKeyViolation, d)
      else (Inr (), d\<lparr>db_updates := foldl (\<lambda>rows u.
        upsert update_key \<lparr>ur_update = u, ur_run = runID\<rparr> rows) (db_updates d) us\<rparr>))"

record candidate =
  cd_repo :: string
  cd_package :: string
  cd_current :: string
  cd_target :: string
  cd_severity :: string
  cd_advisory :: string

text \<open>\<open>ORDER BY\<close> critical first, then high, then by package.\<close>

definition candidate_rank :: "finding \<Rightarrow> nat" where
  "candidate_rank f = (if f_severity f = ''CRITICAL'' then 0 else if f_severity f = ''HIGH'' then 1 else 2)"

definition candidate_before :: "finding \<Rightarrow> finding \<Rightarrow> bool" where
  "candidate_before f g \<longleftrightarrow> candidate_rank f < candidate_rank g \<or>
     (candidate_rank f = candidate_rank g \<and> byte_less (f_package f) (f_package g))"

definition stmt_candidates :: "string \<Rightarrow> candidate list stmt" where
  "stmt_candidates repo t d =
     (Inr (map (\<lambda>f. \<lparr>cd_repo = f_repo f, cd_package = f_package f, cd_current = f_current f,
         cd_target = f_target f, cd_severity = f_severity f, cd_advisory = f_advisory f\<rparr>)
       (order_by candidate_before
         (filter (\<lambda>f. f_repo f = repo \<and> f_target f \<noteq> []) (map fr_finding (db_findings d))))), d)"

definition stmt_updates :: "string \<Rightarrow> update list stmt" where
  "stmt_updates repo t d =
     (Inr (order_by (\<lambda>u v. byte_less (u_package u) (u_package v))
       (filter (\<lambda>u. u_repo u = repo) (map ur_update (db_updates d)))), d)"

definition stmt_findings :: "string \<Rightarrow> finding list stmt" where
  "stmt_findings repo t d =
     (Inr (order_by (\<lambda>f g. byte_less (f_severity g) (f_severity f) \<or>
         (f_severity f = f_severity g \<and> byte_less (f_package f) (f_package g)))
       (filter (\<lambda>f. f_repo f = repo) (map fr_finding (db_findings d)))), d)"

section \<open>Methods\<close>

definition InsertRun where "InsertRun E r = exec_stmt E (stmt_insert_run r)"
definition RunByID where "RunByID E i = exec_stmt E (stmt_run_by_id i)"
definition SetRunStatus where "SetRunStatus E i s = exec_stmt E (stmt_set_status i s)"
definition SetRunRef where "SetRunRef E i ref = exec_stmt E (stmt_set_ref i ref)"
definition SetRunUsage where
  "SetRunUsage E i model tin tout cost = exec_stmt E (stmt_set_usage i model tin tout cost)"
definition SetRunFailure where "SetRunFailure E i reason = exec_stmt E (stmt_set_failure i reason)"
definition SetRunNeedsInput where
  "SetRunNeedsInput E i reason = exec_stmt E (stmt_set_needs_input i reason)"
definition Lookup where "Lookup E key = exec_stmt E (stmt_lookup key)"
definition Record where "Record E key runID ref = exec_stmt E (stmt_record key runID ref)"
definition ReviewCommentID where "ReviewCommentID E repoID pr = exec_stmt E (stmt_review_comment repoID pr)"
definition UpsertReviewComment where
  "UpsertReviewComment E repoID pr c = exec_stmt E (stmt_upsert_review repoID pr c)"
definition RulesForRepo where "RulesForRepo E owner name = exec_stmt E (stmt_rules owner name)"
definition RecordCapabilityGap where
  "RecordCapabilityGap E runID kind ctx = exec_stmt E (stmt_gap runID kind ctx)"

definition UpsertFindings :: "outside \<Rightarrow> string \<Rightarrow> finding list \<Rightarrow> (world, db_error, unit) eff" where
  "UpsertFindings E runID fs = (if fs = [] then eret () else exec_stmt E (stmt_upsert_findings runID fs))"

definition UpsertUpdates :: "outside \<Rightarrow> string \<Rightarrow> update list \<Rightarrow> (world, db_error, unit) eff" where
  "UpsertUpdates E runID us = (if us = [] then eret () else exec_stmt E (stmt_upsert_updates runID us))"

definition ActionableCandidates where "ActionableCandidates E repo = exec_stmt E (stmt_candidates repo)"
definition Updates where "Updates E repo = exec_stmt E (stmt_updates repo)"
definition Findings where "Findings E repo = exec_stmt E (stmt_findings repo)"

lemmas ledger_methods = InsertRun_def RunByID_def SetRunStatus_def SetRunRef_def SetRunUsage_def
  SetRunFailure_def SetRunNeedsInput_def Lookup_def Record_def ReviewCommentID_def
  UpsertReviewComment_def RulesForRepo_def RecordCapabilityGap_def

section \<open>Interface: a table with one row per key\<close>

lemma upsert_keys: "k ` set (upsert k x xs) = insert (k x) (k ` set xs)"
  by (induction xs) auto

lemma upsert_distinct: "distinct (map k xs) \<Longrightarrow> distinct (map k (upsert k x xs))"
proof (induction xs)
  case (Cons y ys)
  have "k ` set (upsert k x ys) = insert (k x) (k ` set ys)" by (rule upsert_keys)
  then show ?case using Cons by (auto simp: image_iff)
qed simp

lemma upsert_in: "x \<in> set (upsert k x xs)"
  by (induction xs) auto

lemma upsert_other: "k y \<noteq> k x \<Longrightarrow> y \<in> set (upsert k x xs) \<longleftrightarrow> y \<in> set xs"
  by (induction xs) auto

text \<open>
  What \<open>INSERT ... ON CONFLICT DO UPDATE\<close> promises: the rows after it are the rows before with the
  new row in the place of the one with its key.
\<close>

locale keyed_table =
  fixes key :: "'r \<Rightarrow> 'k"
    and rows :: "'s \<Rightarrow> 'r list"
    and put :: "'r \<Rightarrow> 's \<Rightarrow> 's"
  assumes rows_put: "rows (put r s) = upsert key r (rows s)"
begin

definition one_per_key :: "'s \<Rightarrow> bool" where
  "one_per_key s \<longleftrightarrow> distinct (map key (rows s))"

lemma put_one_per_key: "one_per_key s \<Longrightarrow> one_per_key (put r s)"
  by (simp add: one_per_key_def rows_put upsert_distinct)

lemma puts_one_per_key: "one_per_key s \<Longrightarrow> one_per_key (foldl (\<lambda>s r. put r s) s rs)"
  by (induction rs arbitrary: s) (simp_all add: put_one_per_key)

lemma puts_keys: "key ` set (rows (foldl (\<lambda>s r. put r s) s rs)) = key ` set rs \<union> key ` set (rows s)"
  by (induction rs arbitrary: s) (simp_all add: rows_put upsert_keys Un_assoc insert_commute)

lemma puts_other:
  "\<forall>q \<in> set rs. key q \<noteq> key r \<Longrightarrow> r \<in> set (rows (foldl (\<lambda>s r. put r s) s rs)) \<longleftrightarrow> r \<in> set (rows s)"
proof (induction rs arbitrary: s)
  case (Cons q rs)
  then have "key r \<noteq> key q" by auto
  then show ?case using Cons by (simp add: rows_put upsert_other)
qed simp

text \<open>Of the rows put with one key the last is there.\<close>

lemma last_put_there:
  assumes "\<forall>q \<in> set rs. key q \<noteq> key r"
  shows "r \<in> set (rows (foldl (\<lambda>s r. put r s) s (ps @ r # rs)))"
proof -
  let ?t = "put r (foldl (\<lambda>s r. put r s) s ps)"
  have "r \<in> set (rows ?t)" by (simp add: rows_put upsert_in)
  then show ?thesis using puts_other [OF assms, of ?t] by simp
qed

end

definition put_finding :: "finding_row \<Rightarrow> db \<Rightarrow> db" where
  "put_finding r d = d\<lparr>db_findings := upsert finding_key r (db_findings d)\<rparr>"

definition put_update :: "update_row \<Rightarrow> db \<Rightarrow> db" where
  "put_update r d = d\<lparr>db_updates := upsert update_key r (db_updates d)\<rparr>"

interpretation findings_table: keyed_table finding_key db_findings put_finding
  by unfold_locales (simp add: put_finding_def)

interpretation updates_table: keyed_table update_key db_updates put_update
  by unfold_locales (simp add: put_update_def)

lemma upsert_findings_puts:
  "d\<lparr>db_findings := foldl (\<lambda>rows f. upsert finding_key \<lparr>fr_finding = f, fr_status = ''open'', fr_run = i\<rparr> rows)
     (db_findings d) fs\<rparr> =
   foldl (\<lambda>d r. put_finding r d) d (map (\<lambda>f. \<lparr>fr_finding = f, fr_status = ''open'', fr_run = i\<rparr>) fs)"
proof (induction fs arbitrary: d)
  case (Cons f fs)
  let ?r = "\<lparr>fr_finding = f, fr_status = ''open'', fr_run = i\<rparr>"
  show ?case using Cons.IH [of "put_finding ?r d"] by (simp add: put_finding_def [of ?r d])
qed simp

lemma upsert_updates_puts:
  "d\<lparr>db_updates := foldl (\<lambda>rows u. upsert update_key \<lparr>ur_update = u, ur_run = i\<rparr> rows) (db_updates d) us\<rparr> =
   foldl (\<lambda>d r. put_update r d) d (map (\<lambda>u. \<lparr>ur_update = u, ur_run = i\<rparr>) us)"
proof (induction us arbitrary: d)
  case (Cons u us)
  let ?r = "\<lparr>ur_update = u, ur_run = i\<rparr>"
  show ?case using Cons.IH [of "put_update ?r d"] by (simp add: put_update_def [of ?r d])
qed simp

section \<open>Interface: a log in which the first entry of a key stays\<close>

text \<open>What the executor relies on to act once: \<open>Record\<close> never replaces an entry, \<open>Lookup\<close> finds it.\<close>

locale first_wins =
  fixes look :: "'s \<Rightarrow> 'k \<Rightarrow> 'v option"
    and put :: "'k \<Rightarrow> 'v \<Rightarrow> 's \<Rightarrow> 's"
    and valid :: "'s \<Rightarrow> 'v \<Rightarrow> bool"
  assumes look_put: "valid s v \<Longrightarrow> look (put k v s) k = (case look s k of None \<Rightarrow> Some v | Some u \<Rightarrow> Some u)"
    and look_other: "k' \<noteq> k \<Longrightarrow> look (put k v s) k' = look s k'"
    and look_stays: "look s k = Some u \<Longrightarrow> look (put k v s) k = Some u"
begin

lemma stays: "look s k = Some u \<Longrightarrow> look (put k' v s) k = Some u"
  by (cases "k' = k") (simp_all add: look_stays look_other)

lemma stays_all: "look s k = Some u \<Longrightarrow> look (foldl (\<lambda>s (k, v). put k v s) s ps) k = Some u"
  by (induction ps arbitrary: s) (auto simp: stays)

lemma found_after: "valid s v \<Longrightarrow> \<exists>u. look (foldl (\<lambda>s (k, v). put k v s) (put k v s) ps) k = Some u"
  using look_put [of s v k] stays_all by (cases "look s k") fastforce+

end

definition intent_ref :: "db \<Rightarrow> string \<Rightarrow> (string \<times> string) option" where
  "intent_ref d k = db_intents d k"

definition put_intent :: "string \<Rightarrow> string \<times> string \<Rightarrow> db \<Rightarrow> db" where
  "put_intent k v d = snd (stmt_record k (fst v) (snd v) 0 d)"

definition run_exists :: "db \<Rightarrow> string \<times> string \<Rightarrow> bool" where
  "run_exists d v \<longleftrightarrow> find_run (fst v) d \<noteq> None"

interpretation intents_log: first_wins intent_ref put_intent run_exists
  by unfold_locales
    (auto simp: intent_ref_def put_intent_def run_exists_def stmt_record_def split: option.splits)

lemma stmt_record_put: "snd (stmt_record k i r t d) = put_intent k (i, r) d"
  by (simp add: put_intent_def stmt_record_def)

section \<open>Invariant\<close>

text \<open>
  The tables' constraints: run ids, finding keys and update keys are unique, and what is recorded
  under a key or found belongs to a run that exists.
\<close>

definition db_ok :: "db \<Rightarrow> bool" where
  "db_ok d \<longleftrightarrow> distinct (map rn_id (db_runs d)) \<and>
     findings_table.one_per_key d \<and> updates_table.one_per_key d \<and>
     (\<forall>k i r. db_intents d k = Some (i, r) \<longrightarrow> i \<in> rn_id ` set (db_runs d)) \<and>
     (\<forall>r \<in> set (db_findings d). fr_run r \<in> rn_id ` set (db_runs d)) \<and>
     (\<forall>r \<in> set (db_updates d). ur_run r \<in> rn_id ` set (db_runs d))"

definition preserves :: "(db \<Rightarrow> bool) \<Rightarrow> 'a stmt \<Rightarrow> bool" where
  "preserves P f \<longleftrightarrow> (\<forall>t d. P d \<longrightarrow> P (snd (f t d)))"

lemma find_run_iff: "find_run i d \<noteq> None \<longleftrightarrow> i \<in> rn_id ` set (db_runs d)"
  by (auto simp: find_run_def find_None_iff image_iff)

lemma update_run_ids:
  assumes "\<And>r. rn_id (f r) = rn_id r"
  shows "map rn_id (db_runs (update_run i f d)) = map rn_id (db_runs d)"
  using assms by (simp add: update_run_def)

lemma update_run_others [simp]:
  "db_intents (update_run i f d) = db_intents d" "db_findings (update_run i f d) = db_findings d"
  "db_updates (update_run i f d) = db_updates d" "db_jobs (update_run i f d) = db_jobs d"
  "db_reviews (update_run i f d) = db_reviews d"
  by (simp_all add: update_run_def)

lemma db_ok_update_run:
  assumes "\<And>r. rn_id (f r) = rn_id r" "db_ok d"
  shows "db_ok (update_run i f d)"
proof -
  have ids: "map rn_id (db_runs (update_run i f d)) = map rn_id (db_runs d)"
    using assms(1) by (rule update_run_ids)
  then have "rn_id ` set (db_runs (update_run i f d)) = rn_id ` set (db_runs d)"
    by (metis list.set_map)
  with ids show ?thesis
    using assms(2) by (simp add: db_ok_def findings_table.one_per_key_def updates_table.one_per_key_def)
qed

lemma find_update_run:
  assumes "\<And>r. rn_id (f r) = rn_id r"
  shows "find_run j (update_run i f d) = map_option (\<lambda>r. if rn_id r = i then f r else r) (find_run j d)"
proof -
  have "List.find (\<lambda>r. rn_id r = j) (map (\<lambda>r. if rn_id r = i then f r else r) xs) =
      map_option (\<lambda>r. if rn_id r = i then f r else r) (List.find (\<lambda>r. rn_id r = j) xs)" for xs
    using assms by (induction xs) auto
  then show ?thesis by (simp add: find_run_def update_run_def)
qed


lemma preserves_update_run:
  assumes "\<And>r t. rn_id (f t r) = rn_id r"
  shows "preserves db_ok (\<lambda>t d. (x, update_run i (f t) d))"
  using assms by (simp add: preserves_def db_ok_update_run)

lemma preserves_reads: "reads_only f \<Longrightarrow> preserves P f"
  by (simp add: preserves_def reads_only_def)

lemma reads_stmts [simp]:
  "reads_only (stmt_run_by_id i)" "reads_only (stmt_lookup k)" "reads_only (stmt_review_comment r n)"
  "reads_only (stmt_rules ow nm)" "reads_only (stmt_candidates rp)" "reads_only (stmt_updates rp)"
  "reads_only (stmt_findings rp)"
  by (simp_all add: reads_only_def stmt_run_by_id_def stmt_lookup_def stmt_review_comment_def stmt_rules_def
      stmt_candidates_def stmt_updates_def stmt_findings_def split: option.splits)

lemma ok_set_status: "preserves db_ok (stmt_set_status i s)"
  unfolding stmt_set_status_def [abs_def] by (rule preserves_update_run) simp

lemma ok_set_ref: "preserves db_ok (stmt_set_ref i r)"
  unfolding stmt_set_ref_def [abs_def] by (rule preserves_update_run) simp

lemma ok_set_failure: "preserves db_ok (stmt_set_failure i r)"
  unfolding stmt_set_failure_def [abs_def] by (rule preserves_update_run) simp

lemma ok_set_needs_input: "preserves db_ok (stmt_set_needs_input i r)"
  unfolding stmt_set_needs_input_def [abs_def] by (rule preserves_update_run) simp

lemma ok_set_usage: "preserves db_ok (stmt_set_usage i m a b c)"
  unfolding preserves_def stmt_set_usage_def by (auto intro!: db_ok_update_run)

lemma ok_insert_run: "preserves db_ok (stmt_insert_run r)"
  unfolding preserves_def stmt_insert_run_def
  by (auto simp: db_ok_def find_run_iff findings_table.one_per_key_def updates_table.one_per_key_def simp del: not_None_eq)

lemma ok_record: "preserves db_ok (stmt_record k i r)"
  unfolding preserves_def stmt_record_def
  by (auto simp: db_ok_def find_run_iff findings_table.one_per_key_def updates_table.one_per_key_def simp del: not_None_eq)

lemma ok_upsert_review: "preserves db_ok (stmt_upsert_review r n c)"
  unfolding preserves_def stmt_upsert_review_def
  by (auto simp: db_ok_def findings_table.one_per_key_def updates_table.one_per_key_def)

lemma ok_gap: "preserves db_ok (stmt_gap i k c)"
  unfolding preserves_def stmt_gap_def
  by (auto simp: db_ok_def findings_table.one_per_key_def updates_table.one_per_key_def)

lemma upsert_set: "set (upsert k x xs) \<subseteq> insert x (set xs)"
  by (induction xs) auto

lemma ok_put_finding: "db_ok d \<Longrightarrow> fr_run r \<in> rn_id ` set (db_runs d) \<Longrightarrow> db_ok (put_finding r d)"
  using findings_table.put_one_per_key [of d r] upsert_set [of finding_key r "db_findings d"]
  by (auto simp: db_ok_def put_finding_def updates_table.one_per_key_def)

lemma ok_put_update: "db_ok d \<Longrightarrow> ur_run r \<in> rn_id ` set (db_runs d) \<Longrightarrow> db_ok (put_update r d)"
  using updates_table.put_one_per_key [of d r] upsert_set [of update_key r "db_updates d"]
  by (auto simp: db_ok_def put_update_def findings_table.one_per_key_def)

lemma ok_put_findings:
  "db_ok d \<Longrightarrow> \<forall>r \<in> set rs. fr_run r \<in> rn_id ` set (db_runs d) \<Longrightarrow> db_ok (foldl (\<lambda>d r. put_finding r d) d rs)"
  by (induction rs arbitrary: d) (auto simp: ok_put_finding put_finding_def [THEN arg_cong, of db_runs])

lemma ok_put_updates:
  "db_ok d \<Longrightarrow> \<forall>r \<in> set rs. ur_run r \<in> rn_id ` set (db_runs d) \<Longrightarrow> db_ok (foldl (\<lambda>d r. put_update r d) d rs)"
  by (induction rs arbitrary: d) (auto simp: ok_put_update put_update_def [THEN arg_cong, of db_runs])

lemma ok_upsert_findings: "preserves db_ok (stmt_upsert_findings i fs)"
  unfolding preserves_def stmt_upsert_findings_def upsert_findings_puts
  by (auto simp: find_run_iff intro!: ok_put_findings simp del: not_None_eq)

lemma ok_upsert_updates: "preserves db_ok (stmt_upsert_updates i us)"
  unfolding preserves_def stmt_upsert_updates_def upsert_updates_puts
  by (auto simp: find_run_iff intro!: ok_put_updates simp del: not_None_eq)


section \<open>Properties\<close>

text \<open>The statements a ledger method can send.\<close>

datatype ledger_call =
    MInsert ledger_run | MStatus string string | MRef string string | MUsage string string int int int
  | MFailure string string | MNeedsInput string string | MRecord string string string
  | MReview string int int | MGap string string string
  | MFindings string "finding list" | MUpdates string "update list"

fun stmt_of :: "ledger_call \<Rightarrow> unit stmt" where
  "stmt_of (MInsert r) = stmt_insert_run r"
| "stmt_of (MStatus i s) = stmt_set_status i s"
| "stmt_of (MRef i r) = stmt_set_ref i r"
| "stmt_of (MUsage i m a b c) = stmt_set_usage i m a b c"
| "stmt_of (MFailure i r) = stmt_set_failure i r"
| "stmt_of (MNeedsInput i r) = stmt_set_needs_input i r"
| "stmt_of (MRecord k i r) = stmt_record k i r"
| "stmt_of (MReview r n c) = stmt_upsert_review r n c"
| "stmt_of (MGap i k c) = stmt_gap i k c"
| "stmt_of (MFindings i fs) = stmt_upsert_findings i fs"
| "stmt_of (MUpdates i us) = stmt_upsert_updates i us"

lemma stmt_of_ok: "db_ok d \<Longrightarrow> db_ok (snd (stmt_of m t d))"
  using ok_insert_run ok_set_status ok_set_ref ok_set_usage ok_set_failure ok_set_needs_input ok_record
    ok_upsert_review ok_gap ok_upsert_findings ok_upsert_updates
  by (cases m) (simp_all add: preserves_def)

text \<open>
  C27: The ledger's invariant: whatever methods are called, in whatever order, with whatever faults of
  the connection, run ids and upsert keys stay unique and everything recorded belongs to a run.
\<close>

theorem ledger_invariant:
  assumes "db_ok (w_db w)"
  shows "db_ok (w_db (foldl (\<lambda>v m. snd (exec_stmt E (stmt_of m) v)) w ms))"
  using assms
proof (induction ms arbitrary: w)
  case (Cons m ms)
  obtain r v where e: "exec_stmt E (stmt_of m) w = (r, v)" by fastforce
  then have "w_db v = w_db w \<or> w_db v = snd (stmt_of m (o_clock E (w_tick w)) (w_db w))"
    by (rule exec_stmt_db)
  then have "db_ok (w_db v)" using stmt_of_ok Cons.prems by auto
  then show ?case using Cons.IH e by simp
qed simp

definition still_outside :: outside where
  "still_outside = \<lparr>o_db = (\<lambda>_. Healthy),
     o_gh = (\<lambda>_ _ _. \<lparr>rp_err = False, rp_status = None, rp_number = 9, rp_id = 5, rp_login = ''bot'', rp_comments = [], rp_next = 0\<rparr>),
     o_git = (\<lambda>_ _. None), o_clock = (\<lambda>_. 0), o_pages = 1\<rparr>"

lemma still_fields: "o_db still_outside t = Healthy" "o_pages still_outside = 1" "o_clock still_outside t = 0" "o_git still_outside t a = None"
  "o_gh still_outside t k c = \<lparr>rp_err = False, rp_status = None, rp_number = 9, rp_id = 5, rp_login = ''bot'', rp_comments = [], rp_next = 0\<rparr>"
  by (simp_all add: still_outside_def)

lemma still_stmt: "exec_stmt still_outside f w = (fst (f 0 (w_db w)), (tick w)\<lparr>w_db := snd (f 0 (w_db w))\<rparr>)"
  by (simp add: exec_stmt_def still_fields split: prod.splits)

definition start_world :: "db \<Rightarrow> world" where
  "start_world d = \<lparr>w_tick = 0, w_db = d, w_log = []\<rparr>"

lemma db_ok_empty: "db_ok empty_db"
  by (simp add: db_ok_def empty_db_def findings_table.one_per_key_def updates_table.one_per_key_def)

lemma ledger_invariant_witness:
  "db_ok (w_db (foldl (\<lambda>v m. snd (exec_stmt still_outside (stmt_of m) v)) (start_world empty_db) [MStatus ''r'' RunFailed]))"
  by (rule ledger_invariant) (simp add: start_world_def db_ok_empty)

text \<open>
  A recorded intent stays: once \<open>Record\<close> was acknowledged for a key, every later lookup finds a
  reference, the first one recorded, whatever is recorded after it for any key.
\<close>

theorem record_then_lookup:
  assumes "Record E key runID ref w = (Inr (), v)"
  shows "\<exists>u. (\<forall>t ps. fst (stmt_lookup key t (foldl (\<lambda>d (k, i, r). snd (stmt_record k i r t d)) (w_db v) ps)) = Inr (u, True)) \<and>
    u = (case db_intents (w_db w) key of None \<Rightarrow> ref | Some (_, first) \<Rightarrow> first)"
proof -
  let ?u = "case db_intents (w_db w) key of None \<Rightarrow> (runID, ref) | Some e \<Rightarrow> e"
  have v: "fst (stmt_record key runID ref (o_clock E (w_tick w)) (w_db w)) = Inr ()"
    "w_db v = snd (stmt_record key runID ref (o_clock E (w_tick w)) (w_db w))"
    using assms by (simp_all add: Record_def exec_stmt_Inr)
  then have "intent_ref (w_db v) key = Some ?u"
    by (auto simp: stmt_record_def intent_ref_def split: option.splits if_splits)
  then have "intent_ref (foldl (\<lambda>d (k, i). put_intent k i d) (w_db v) ps) key = Some ?u" for ps
    by (rule intents_log.stays_all)
  moreover have "(\<lambda>d (k, i, r). snd (stmt_record k i r t d)) = (\<lambda>d (k, i). put_intent k i d)" for t
    by (auto simp: fun_eq_iff stmt_record_put)
  ultimately have "fst (stmt_lookup key t (foldl (\<lambda>d (k, i, r). snd (stmt_record k i r t d)) (w_db v) ps)) = Inr (snd ?u, True)" for t ps
    by (simp add: stmt_lookup_def intent_ref_def split: prod.splits)
  then show ?thesis by (auto split: option.splits)
qed

text \<open>
  A finding reported again replaces the row of its key, and of several reports in one batch the
  last one counts; no report ever adds a second row.
\<close>

theorem findings_upsert:
  assumes "stmt_upsert_findings i (fs @ f # gs) t d = (Inr (), d')" "db_ok d"
    and "\<forall>g \<in> set gs. (f_repo g, f_scanner g, f_package g, f_advisory g) \<noteq> (f_repo f, f_scanner f, f_package f, f_advisory f)"
  shows "distinct (map finding_key (db_findings d')) \<and>
    \<lparr>fr_finding = f, fr_status = ''open'', fr_run = i\<rparr> \<in> set (db_findings d')"
proof -
  let ?row = "\<lambda>f. \<lparr>fr_finding = f, fr_status = ''open'', fr_run = i\<rparr>"
  have "d' = foldl (\<lambda>d r. put_finding r d) d (map ?row (fs @ f # gs))"
    using assms(1) unfolding stmt_upsert_findings_def upsert_findings_puts by (simp split: if_splits)
  then have d': "d' = foldl (\<lambda>d r. put_finding r d) d (map ?row fs @ ?row f # map ?row gs)" by simp
  have "findings_table.one_per_key d'"
    unfolding d' by (rule findings_table.puts_one_per_key) (use assms(2) in \<open>simp add: db_ok_def\<close>)
  moreover have "?row f \<in> set (db_findings d')"
    unfolding d' by (rule findings_table.last_put_there) (use assms(3) in \<open>auto simp: finding_key_def\<close>)
  ultimately show ?thesis by (simp add: findings_table.one_per_key_def)
qed

text \<open>
  \<open>SetRunStatus\<close> stamps the start of a run at most once and an end at every terminal status, and
  touches no other run.
\<close>

theorem set_status_stamps:
  assumes "SetRunStatus E i s w = (Inr (), v)" "find_run i (w_db w) = Some r"
  shows "\<exists>q. find_run i (w_db v) = Some q \<and> rn_status q = s \<and>
    (rn_started r \<noteq> None \<longrightarrow> rn_started q = rn_started r) \<and>
    (s = RunRunning \<longrightarrow> rn_started q \<noteq> None) \<and> (terminal s \<longrightarrow> rn_ended q = Some (o_clock E (w_tick w))) \<and>
    (\<forall>j. j \<noteq> i \<longrightarrow> find_run j (w_db v) = find_run j (w_db w))"
proof -
  let ?f = "\<lambda>r. r\<lparr>rn_status := s,
      rn_started := if s = RunRunning \<and> rn_started r = None then Some (o_clock E (w_tick w)) else rn_started r,
      rn_ended := if terminal s then Some (o_clock E (w_tick w)) else rn_ended r\<rparr>"
  have v: "w_db v = update_run i ?f (w_db w)"
    using assms(1) by (simp add: SetRunStatus_def exec_stmt_Inr stmt_set_status_def)
  have ids: "rn_id (?f r) = rn_id r" for r by simp
  have "rn_id r = i" using assms(2) by (auto simp: find_run_def dest: find_Some_set)
  then have "find_run i (w_db v) = Some (?f r)"
    unfolding v find_update_run [OF ids] using assms(2) by simp
  moreover have "find_run j (w_db v) = find_run j (w_db w)" if "j \<noteq> i" for j
  proof (cases "find_run j (w_db w)")
    case (Some q)
    then have "rn_id q = j" by (auto simp: find_run_def dest: find_Some_set)
    then show ?thesis unfolding v find_update_run [OF ids] using Some that by simp
  qed (simp add: v find_update_run [OF ids])
  ultimately show ?thesis by auto
qed

section \<open>Witnesses\<close>

definition example_run :: ledger_run where
  "example_run = \<lparr>lr_id = ''r1'', lr_repo = ''acme/widget'', lr_trigger = ''webhook_issue_labeled'',
     lr_scope_kind = ScopeIssue, lr_scope_number = 12, lr_grant = example_grant, lr_decision = ''allow'',
     lr_deny_reason = None, lr_status = RunQueued, lr_meta = None\<rparr>"

definition example_db :: db where
  "example_db = snd (stmt_insert_run example_run 0 empty_db)"

lemma example_find: "\<exists>r. find_run ''r1'' example_db = Some r \<and> rn_started r = None \<and> rn_grant r = example_grant"
  by (simp add: example_db_def example_run_def empty_db_def stmt_insert_run_def find_run_def int4_def)

lemma example_db_ok: "db_ok example_db"
  using ok_insert_run [of example_run] db_ok_empty by (simp add: example_db_def preserves_def)

lemma example_intents: "db_intents example_db = (\<lambda>_. None)"
  by (simp add: example_db_def example_run_def empty_db_def stmt_insert_run_def find_run_def int4_def)

lemma record_then_lookup_witness:
  "\<exists>d. fst (stmt_lookup ''k'' 0 d) = Inr (''acme/widget#9'', True)"
proof -
  have "fst (Record still_outside ''k'' ''r1'' ''acme/widget#9'' (start_world example_db)) = Inr ()"
    using example_find
    by (auto simp: Record_def exec_stmt_def still_outside_def start_world_def stmt_record_def example_intents)
  then obtain v where "Record still_outside ''k'' ''r1'' ''acme/widget#9'' (start_world example_db) = (Inr (), v)"
    by (metis prod.collapse)
  from record_then_lookup [OF this] obtain u where
    u: "\<forall>t ps. fst (stmt_lookup ''k'' t (foldl (\<lambda>d (k, i, r). snd (stmt_record k i r t d)) (w_db v) ps)) = Inr (u, True)"
    "u = (case db_intents (w_db (start_world example_db)) ''k'' of None \<Rightarrow> ''acme/widget#9'' | Some (_, first) \<Rightarrow> first)"
    by blast
  from u(1) [rule_format, of 0 "[]"] u(2) show ?thesis
    by (auto simp: start_world_def example_intents)
qed

definition example_finding :: finding where
  "example_finding = \<lparr>f_repo = ''acme/widget'', f_scanner = ScannerOSV, f_ecosystem = ''npm'', f_package = ''tar'',
     f_current = ''1'', f_target = ''2'', f_severity = ''HIGH'', f_advisory = ''GHSA-1''\<rparr>"

lemma findings_upsert_witness:
  "\<exists>d' :: db. distinct (map finding_key (db_findings d')) \<and>
     \<lparr>fr_finding = example_finding, fr_status = ''open'', fr_run = ''r1''\<rparr> \<in> set (db_findings d')"
proof -
  let ?old = "example_finding\<lparr>f_target := ''1.5''\<rparr>"
  obtain r where r: "find_run ''r1'' example_db = Some r" using example_find by blast
  have "\<exists>d'. stmt_upsert_findings ''r1'' fs 0 example_db = (Inr (), d')" for fs
    by (simp add: stmt_upsert_findings_def r)
  then obtain d' where d': "stmt_upsert_findings ''r1'' ([?old] @ example_finding # []) 0 example_db = (Inr (), d')"
    by blast
  have "\<forall>g \<in> set []. (f_repo g, f_scanner g, f_package g, f_advisory g) \<noteq>
      (f_repo example_finding, f_scanner example_finding, f_package example_finding, f_advisory example_finding)" by simp
  from findings_upsert [OF d' example_db_ok this] show ?thesis by blast
qed

lemma set_status_stamps_witness: "\<exists>q :: run_row. rn_status q = RunRunning \<and> rn_started q \<noteq> None"
proof -
  obtain r where r: "find_run ''r1'' (w_db (start_world example_db)) = Some r"
    using example_find by (auto simp: start_world_def)
  have "fst (SetRunStatus still_outside ''r1'' RunRunning (start_world example_db)) = Inr ()"
    by (simp add: SetRunStatus_def exec_stmt_def still_outside_def stmt_set_status_def)
  then obtain v where "SetRunStatus still_outside ''r1'' RunRunning (start_world example_db) = (Inr (), v)"
    by (metis prod.collapse)
  from set_status_stamps [OF this r] show ?thesis
  proof (elim exE conjE)
    fix q :: run_row
    assume "rn_status q = RunRunning" "RunRunning = RunRunning \<longrightarrow> rn_started q \<noteq> None"
    then show ?thesis by (intro exI [of _ q]) simp
  qed
qed

end
