(* ===== verification/GithubWriter.thy ===== *)
theory GithubWriter
  imports Trace Ledger
begin

text \<open>
  The writer (\<open>internal/executor/github_writer.go\<close>): the only code that calls GitHub. go-github is
  outside; each of its calls is one interaction whose reply is arbitrary. A request that the client
  refuses to build is one of the error replies.
\<close>

section \<open>Credentials and write specs\<close>

record credential =
  cr_account :: string
  cr_scope :: string
  cr_token :: string
  cr_repo :: repo

record open_pr_write =
  ow_branch :: string
  ow_base :: string
  ow_title :: string
  ow_body :: string
  ow_draft :: bool

record update_pr_write =
  uw_number :: int
  uw_body :: "string option"
  uw_draft :: "bool option"

record post_review_write =
  rw_number :: int
  rw_comment_id :: int
  rw_head_sha :: string
  rw_verdict :: string
  rw_summary :: string
  rw_comments :: "review_comment list"

record post_comment_write =
  cw_number :: int
  cw_body :: string

record set_labels_write =
  lw_number :: int
  lw_add :: "string list"
  lw_remove :: "string list"

datatype gh_error =
    GhError "int option"
  | PushFailed
  | EmptyLogin
  | OutOfPages        \<comment> \<open>the model gave up following a listing; see \<open>find_pages_enough\<close>\<close>

section \<open>Rendering\<close>

definition reviewCommentMarker :: string where
  "reviewCommentMarker = ''<!-- bothos-pr-review -->''"

definition newline :: string where
  "newline = [CHR 0x0A]"

definition reviewQueuedBody :: string where
  "reviewQueuedBody = reviewCommentMarker @ newline @ [CHR 0xF0, CHR 0x9F, CHR 0x91, CHR 0x80] @ '' Review queued.''"

definition renderInlineReviewComment :: "review_comment \<Rightarrow> string" where
  "renderInlineReviewComment c =
     (if rc_verified c then ''[verified] '' else ''[opinion] '') @ rc_body c @
     (if rc_verified c \<and> rc_evidence c \<noteq> [] then
        newline @ newline @ ''<details><summary>Evidence</summary>'' @ newline @ newline @ ''<pre>'' @
        html_escape (rc_evidence c) @ ''</pre>'' @ newline @ ''</details>''
      else [])"

definition em_dash :: string where
  "em_dash = [CHR 0xE2, CHR 0x80, CHR 0x94]"

definition review_tag :: "review_comment \<Rightarrow> string" where
  "review_tag c = (if rc_verified c then ''verified'' else ''opinion'')"

definition render_remark :: "review_comment \<Rightarrow> string" where
  "render_remark c =
     (if rc_path c = [] \<or> rc_line c \<le> 0 then
        newline @ ''- ['' @ review_tag c @ ''] '' @ html_escape (rc_body c) @ newline
      else
        newline @ ''- ['' @ review_tag c @ ''] `'' @ html_escape (rc_path c) @ '':'' @ itoa (rc_line c) @
        ''` '' @ em_dash @ '' '' @ html_escape (rc_body c) @ newline @
        (if rc_verified c \<and> rc_evidence c \<noteq> [] then
           ''  <details><summary>Evidence</summary>'' @ newline @ newline @ ''  <pre>'' @
           html_escape (rc_evidence c) @ ''</pre>'' @ newline @ ''  </details>'' @ newline
         else []))"

definition renderPostReview :: "post_review_write \<Rightarrow> string" where
  "renderPostReview spec =
     reviewCommentMarker @ newline @ ''## Bothos review'' @ newline @ newline @
     html_escape (rw_summary spec) @ newline @
     (if rw_verdict spec = VerdictRequestChanges
      then newline @ ''[opinion] Recommendation: request changes'' @ newline else []) @
     (if rw_comments spec = [] then newline @ ''No inline remarks.'' @ newline
      else newline @ ''### Inline remarks (on the diff)'' @ newline @ concat (map render_remark (rw_comments spec)))"

section \<open>Calls\<close>

definition ref :: "credential \<Rightarrow> int \<Rightarrow> string" where
  "ref cred n = repo_owner (cr_repo cred) @ ''/'' @ repo_name (cr_repo cred) @ ''#'' @ itoa n"

text \<open>A call whose error reply ends the method.\<close>

definition gh_ok :: "outside \<Rightarrow> credential \<Rightarrow> gh_call \<Rightarrow> (world, gh_error, gh_reply) eff" where
  "gh_ok E cred c = ebind (gh E (cr_token cred) c) (\<lambda>r. if rp_err r then efail (GhError (rp_status r)) else eret r)"

definition PushBranch :: "outside \<Rightarrow> credential \<Rightarrow> string \<Rightarrow> string \<Rightarrow> (world, gh_error, unit) eff" where
  "PushBranch E cred branch worktree w =
     (let url = ''https://x-access-token:'' @ cr_token cred @ ''@github.com/'' @ repo_owner (cr_repo cred) @
            ''/'' @ repo_name (cr_repo cred) @ ''.git'';
          (r, v) = git E [''-C'', worktree, ''push'', url, branch] w
      in ((case r of Inl _ \<Rightarrow> Inl PushFailed | Inr _ \<Rightarrow> Inr ()),
          v\<lparr>w_log := w_log v @ [PushEvent (cr_token cred) (repo_owner (cr_repo cred)) (repo_name (cr_repo cred)) branch]\<rparr>))"

definition OpenPR :: "outside \<Rightarrow> credential \<Rightarrow> open_pr_write \<Rightarrow> (world, gh_error, string) eff" where
  "OpenPR E cred spec =
     ebind (gh_ok E cred (PullsCreate (repo_owner (cr_repo cred)) (repo_name (cr_repo cred))
       (ow_title spec) (ow_branch spec) (ow_base spec) (ow_body spec) (ow_draft spec))) (\<lambda>r.
     eret (ref cred (rp_number r)))"

definition UpdatePR :: "outside \<Rightarrow> credential \<Rightarrow> update_pr_write \<Rightarrow> (world, gh_error, string) eff" where
  "UpdatePR E cred spec =
     ebind (if uw_body spec \<noteq> None \<or> uw_draft spec \<noteq> None
            then ebind (gh_ok E cred (PullsPatch (repo_owner (cr_repo cred)) (repo_name (cr_repo cred))
                   (uw_number spec) (uw_body spec) (uw_draft spec))) (\<lambda>_. eret ())
            else eret ()) (\<lambda>_.
     eret (ref cred (uw_number spec)))"

definition owned :: "string \<Rightarrow> int \<times> string \<times> string \<Rightarrow> bool" where
  "owned login c \<longleftrightarrow> equal_fold (fst (snd c)) login \<and> contains (snd (snd c)) reviewCommentMarker"

fun find_pages :: "nat \<Rightarrow> outside \<Rightarrow> credential \<Rightarrow> int \<Rightarrow> string \<Rightarrow> int \<Rightarrow> (world, gh_error, int) eff" where
  "find_pages 0 E cred n login page = efail OutOfPages"
| "find_pages (Suc k) E cred n login page =
     ebind (gh_ok E cred (ListComments (repo_owner (cr_repo cred)) (repo_name (cr_repo cred)) n page)) (\<lambda>r.
     case find (owned login) (rp_comments r) of
       Some c \<Rightarrow> eret (fst c)
     | None \<Rightarrow> if rp_next r = 0 then eret 0 else find_pages k E cred n login (rp_next r))"

definition findOwnedReviewComment :: "outside \<Rightarrow> credential \<Rightarrow> int \<Rightarrow> (world, gh_error, int) eff" where
  "findOwnedReviewComment E cred n =
     ebind (gh_ok E cred UsersGet) (\<lambda>u.
     if rp_login u = [] then efail EmptyLogin
     else find_pages (o_pages E) E cred n (rp_login u) 0)"

definition create_comment :: "outside \<Rightarrow> credential \<Rightarrow> int \<Rightarrow> string \<Rightarrow> (world, gh_error, string \<times> int) eff" where
  "create_comment E cred n body =
     ebind (gh_ok E cred (CreateComment (repo_owner (cr_repo cred)) (repo_name (cr_repo cred)) n body)) (\<lambda>r.
     eret (ref cred n, rp_id r))"

definition PostReview :: "outside \<Rightarrow> credential \<Rightarrow> post_review_write \<Rightarrow> (world, gh_error, string \<times> int) eff" where
  "PostReview E cred spec =
     (let n = rw_number spec; body = renderPostReview spec in
      ebind (if rw_comment_id spec = 0 then findOwnedReviewComment E cred n else eret (rw_comment_id spec)) (\<lambda>cid.
      if cid \<noteq> 0 then
        ebind (gh E (cr_token cred) (EditComment (repo_owner (cr_repo cred)) (repo_name (cr_repo cred)) cid body)) (\<lambda>r.
        if \<not> rp_err r then eret (ref cred n, rp_id r)
        else if rp_status r \<noteq> Some 404 then efail (GhError (rp_status r))
        else create_comment E cred n body)
      else create_comment E cred n body))"

fun post_comments :: "outside \<Rightarrow> credential \<Rightarrow> post_review_write \<Rightarrow> int \<Rightarrow> review_comment list \<Rightarrow> (world, int \<times> gh_error, int) eff" where
  "post_comments E cred spec posted [] = eret posted"
| "post_comments E cred spec posted (c # cs) =
     (if rc_path c = [] \<or> rc_line c \<le> 0 then post_comments E cred spec posted cs
      else
        ebind (gh E (cr_token cred) (CreateReviewComment (repo_owner (cr_repo cred)) (repo_name (cr_repo cred))
          (rw_number spec) (rw_head_sha spec) (rc_path c) (rc_line c)
          (if rc_side c = [] then ''RIGHT'' else rc_side c) (renderInlineReviewComment c))) (\<lambda>r.
        if \<not> rp_err r then post_comments E cred spec (posted + 1) cs
        else if rp_status r = Some 422 then post_comments E cred spec posted cs
        else efail (posted, GhError (rp_status r))))"

definition PostReviewComments :: "outside \<Rightarrow> credential \<Rightarrow> post_review_write \<Rightarrow> (world, int \<times> gh_error, int) eff" where
  "PostReviewComments E cred spec =
     (if rw_number spec = 0 \<or> repo_owner (cr_repo cred) = [] \<or> repo_name (cr_repo cred) = [] then eret 0
      else post_comments E cred spec 0 (rw_comments spec))"

definition writer_AcknowledgeReview :: "outside \<Rightarrow> credential \<Rightarrow> int \<Rightarrow> (world, gh_error, string \<times> int) eff" where
  "writer_AcknowledgeReview E cred n =
     ebind (findOwnedReviewComment E cred n) (\<lambda>cid.
     if cid \<noteq> 0 then eret (ref cred n, cid) else create_comment E cred n reviewQueuedBody)"

definition PostComment :: "outside \<Rightarrow> credential \<Rightarrow> post_comment_write \<Rightarrow> (world, gh_error, string) eff" where
  "PostComment E cred spec = ebind (create_comment E cred (cw_number spec) (cw_body spec)) (\<lambda>r. eret (fst r))"

fun remove_labels :: "outside \<Rightarrow> credential \<Rightarrow> int \<Rightarrow> string list \<Rightarrow> (world, gh_error, unit) eff" where
  "remove_labels E cred n [] = eret ()"
| "remove_labels E cred n (l # ls) =
     ebind (gh_ok E cred (RemoveLabel (repo_owner (cr_repo cred)) (repo_name (cr_repo cred)) n l)) (\<lambda>_.
     remove_labels E cred n ls)"

definition SetLabels :: "outside \<Rightarrow> credential \<Rightarrow> set_labels_write \<Rightarrow> (world, gh_error, string) eff" where
  "SetLabels E cred spec =
     ebind (if lw_add spec \<noteq> []
            then ebind (gh_ok E cred (AddLabels (repo_owner (cr_repo cred)) (repo_name (cr_repo cred)) (lw_number spec) (lw_add spec))) (\<lambda>_. eret ())
            else eret ()) (\<lambda>_.
     ebind (remove_labels E cred (lw_number spec) (lw_remove spec)) (\<lambda>_.
     eret (ref cred (lw_number spec))))"

section \<open>Where the calls go\<close>

text \<open>The place a call writes to: the repository and, for calls that name one, the number.\<close>

fun call_at :: "repo \<Rightarrow> int \<Rightarrow> gh_call \<Rightarrow> bool" where
  "call_at r n (PullsCreate ow nm _ _ _ _ _) \<longleftrightarrow> ow = repo_owner r \<and> nm = repo_name r"
| "call_at r n (PullsPatch ow nm k _ _) \<longleftrightarrow> ow = repo_owner r \<and> nm = repo_name r \<and> k = n"
| "call_at r n (EditComment ow nm _ _) \<longleftrightarrow> ow = repo_owner r \<and> nm = repo_name r"
| "call_at r n (CreateComment ow nm k _) \<longleftrightarrow> ow = repo_owner r \<and> nm = repo_name r \<and> k = n"
| "call_at r n (CreateReviewComment ow nm k _ _ _ _ _) \<longleftrightarrow> ow = repo_owner r \<and> nm = repo_name r \<and> k = n"
| "call_at r n UsersGet \<longleftrightarrow> True"
| "call_at r n (ListComments ow nm k _) \<longleftrightarrow> ow = repo_owner r \<and> nm = repo_name r \<and> k = n"
| "call_at r n (AddLabels ow nm k _) \<longleftrightarrow> ow = repo_owner r \<and> nm = repo_name r \<and> k = n"
| "call_at r n (RemoveLabel ow nm k _) \<longleftrightarrow> ow = repo_owner r \<and> nm = repo_name r \<and> k = n"

text \<open>An event under the credential's token, at its repository and the given number; \<open>Q\<close> says more of it.\<close>

fun event_at :: "credential \<Rightarrow> int \<Rightarrow> (string \<Rightarrow> bool) \<Rightarrow> (gh_call \<Rightarrow> bool) \<Rightarrow> event \<Rightarrow> bool" where
  "event_at cred n B Q (GhEvent t c) \<longleftrightarrow> t = cr_token cred \<and> call_at (cr_repo cred) n c \<and> Q c"
| "event_at cred n B Q (PushEvent t ow nm b) \<longleftrightarrow>
     t = cr_token cred \<and> ow = repo_owner (cr_repo cred) \<and> nm = repo_name (cr_repo cred) \<and> B b"

text \<open>The kinds of call a method makes.\<close>

fun reads_call :: "gh_call \<Rightarrow> bool" where
  "reads_call UsersGet = True"
| "reads_call (ListComments _ _ _ _) = True"
| "reads_call _ = False"

fun creates_pr :: "gh_call \<Rightarrow> bool" where
  "creates_pr (PullsCreate _ _ _ _ _ _ _) = True"
| "creates_pr _ = False"

lemma reads_not_creates: "reads_call c \<Longrightarrow> \<not> creates_pr c"
  by (cases c) simp_all

lemma logs_gh_ok [trace_intros]: "P (GhEvent (cr_token cred) c) \<Longrightarrow> logs P (gh_ok E cred c)"
  unfolding gh_ok_def by (intro trace_intros)

lemma still_gh_ok [trace_intros]: "db_still (gh_ok E cred c)"
  unfolding gh_ok_def by (intro trace_intros)

lemma logs_PushBranch [trace_intros]:
  "P (PushEvent (cr_token cred) (repo_owner (cr_repo cred)) (repo_name (cr_repo cred)) b) \<Longrightarrow>
   logs P (PushBranch E cred b wt)"
  by (rule logsI) (auto simp: PushBranch_def git_def Let_def adds_def)

lemma still_PushBranch [trace_intros]: "db_still (PushBranch E cred b wt)"
  by (rule db_stillI) (auto simp: PushBranch_def git_def Let_def)

lemma logs_OpenPR [trace_intros]:
  "Q (PullsCreate (repo_owner (cr_repo cred)) (repo_name (cr_repo cred)) (ow_title s) (ow_branch s) (ow_base s) (ow_body s) (ow_draft s)) \<Longrightarrow>
   logs (event_at cred n B Q) (OpenPR E cred s)"
  unfolding OpenPR_def by (intro trace_intros) simp

lemma logs_UpdatePR [trace_intros]:
  "(\<And>c. call_at (cr_repo cred) (uw_number s) c \<Longrightarrow> \<not> creates_pr c \<Longrightarrow> Q c) \<Longrightarrow> logs (event_at cred (uw_number s) B Q) (UpdatePR E cred s)"
  unfolding UpdatePR_def by (intro trace_intros) simp

lemma logs_find_pages [trace_intros]:
  "(\<And>c. reads_call c \<Longrightarrow> Q c) \<Longrightarrow> logs (event_at cred n B Q) (find_pages k E cred n login page)"
  by (induction k arbitrary: page) (auto intro!: trace_intros)

lemma logs_find_owned [trace_intros]:
  "(\<And>c. reads_call c \<Longrightarrow> Q c) \<Longrightarrow> logs (event_at cred n B Q) (findOwnedReviewComment E cred n)"
  unfolding findOwnedReviewComment_def by (intro trace_intros) auto

lemma logs_create_comment [trace_intros]:
  "Q (CreateComment (repo_owner (cr_repo cred)) (repo_name (cr_repo cred)) n body) \<Longrightarrow>
   logs (event_at cred n B Q) (create_comment E cred n body)"
  unfolding create_comment_def by (intro trace_intros) simp

lemma logs_PostReview:
  assumes "\<And>c. call_at (cr_repo cred) (rw_number s) c \<Longrightarrow> \<not> creates_pr c \<Longrightarrow> Q c"
  shows "logs (event_at cred (rw_number s) B Q) (PostReview E cred s)"
proof -
  have find: "logs (event_at cred (rw_number s) B Q) (findOwnedReviewComment E cred (rw_number s))"
    by (rule logs_mono [OF logs_find_owned [where Q = reads_call and B = B]])
       (use assms reads_not_creates in \<open>auto elim!: event_at.elims\<close>)
  show ?thesis
    unfolding PostReview_def Let_def by (intro trace_intros find) (simp_all add: assms)
qed

lemma logs_post_comments:
  assumes "\<And>c. call_at (cr_repo cred) (rw_number s) c \<Longrightarrow> \<not> creates_pr c \<Longrightarrow> Q c"
  shows "logs (event_at cred (rw_number s) B Q) (post_comments E cred s posted cs)"
  by (induction cs arbitrary: posted) (auto intro!: trace_intros simp: assms)

lemma logs_PostReviewComments:
  assumes "\<And>c. call_at (cr_repo cred) (rw_number s) c \<Longrightarrow> \<not> creates_pr c \<Longrightarrow> Q c"
  shows "logs (event_at cred (rw_number s) B Q) (PostReviewComments E cred s)"
  unfolding PostReviewComments_def by (intro trace_intros logs_post_comments assms)

lemma logs_remove_labels:
  assumes "\<And>c. call_at (cr_repo cred) n c \<Longrightarrow> \<not> creates_pr c \<Longrightarrow> Q c"
  shows "logs (event_at cred n B Q) (remove_labels E cred n ls)"
  by (induction ls) (auto intro!: trace_intros simp: assms)

lemma logs_SetLabels:
  assumes "\<And>c. call_at (cr_repo cred) (lw_number s) c \<Longrightarrow> \<not> creates_pr c \<Longrightarrow> Q c"
  shows "logs (event_at cred (lw_number s) B Q) (SetLabels E cred s)"
  unfolding SetLabels_def by (intro trace_intros logs_remove_labels) (simp_all add: assms)

lemma logs_PostComment:
  assumes "\<And>c. call_at (cr_repo cred) (cw_number s) c \<Longrightarrow> \<not> creates_pr c \<Longrightarrow> Q c"
  shows "logs (event_at cred (cw_number s) B Q) (PostComment E cred s)"
  unfolding PostComment_def by (intro trace_intros) (simp add: assms)

lemma logs_writer_AcknowledgeReview:
  "logs (event_at cred n B (\<lambda>c. reads_call c \<or> (\<exists>ow nm. c = CreateComment ow nm n reviewQueuedBody))) (writer_AcknowledgeReview E cred n)"
  unfolding writer_AcknowledgeReview_def by (intro trace_intros) auto

text \<open>No call of the writer touches the tables.\<close>

lemma still_find_pages [trace_intros]: "db_still (find_pages k E cred n login page)"
  by (induction k arbitrary: page) (auto intro!: trace_intros)

lemma still_post_comments [trace_intros]: "db_still (post_comments E cred s posted cs)"
  by (induction cs arbitrary: posted) (auto intro!: trace_intros)

lemma still_remove_labels [trace_intros]: "db_still (remove_labels E cred n ls)"
  by (induction ls) (auto intro!: trace_intros)

lemma still_writer [trace_intros]:
  "db_still (findOwnedReviewComment E cred n)"
  "db_still (create_comment E cred n body)"
  "db_still (OpenPR E cred s1)" "db_still (UpdatePR E cred s2)" "db_still (PostReview E cred s3)"
  "db_still (PostReviewComments E cred s3)" "db_still (PostComment E cred s4)" "db_still (SetLabels E cred s5)"
  "db_still (writer_AcknowledgeReview E cred n)"
proof -
  show 1: "db_still (findOwnedReviewComment E cred n)" for n
    unfolding findOwnedReviewComment_def by (intro trace_intros)
  show 2: "db_still (create_comment E cred n body)" for n body
    unfolding create_comment_def by (intro trace_intros)
  show "db_still (OpenPR E cred s1)" "db_still (UpdatePR E cred s2)" "db_still (PostReview E cred s3)"
    "db_still (PostReviewComments E cred s3)" "db_still (PostComment E cred s4)" "db_still (SetLabels E cred s5)"
    "db_still (writer_AcknowledgeReview E cred n)"
    unfolding OpenPR_def UpdatePR_def PostReview_def Let_def PostReviewComments_def PostComment_def SetLabels_def
      writer_AcknowledgeReview_def by (intro trace_intros 1 2)+
qed

section \<open>The listing is followed to its end\<close>

lemma gh_pages: "gh (E\<lparr>o_pages := k\<rparr>) = gh E"
  by (simp add: gh_def fun_eq_iff)

lemma gh_ok_pages: "gh_ok (E\<lparr>o_pages := k\<rparr>) = gh_ok E"
  by (simp add: gh_ok_def gh_pages fun_eq_iff)

lemma find_pages_pages: "find_pages j (E\<lparr>o_pages := k\<rparr>) = find_pages j E"
proof (intro ext)
  fix cred n login page
  show "find_pages j (E\<lparr>o_pages := k\<rparr>) cred n login page x = find_pages j E cred n login page x" for x
    by (induction j arbitrary: page x) (simp_all add: gh_ok_pages ebind_def split: prod.splits sum.splits option.splits)
qed

text \<open>
  What GitHub documents of a listing: the page after a page has a larger number, and there is a last one.
\<close>

definition pages_end :: "outside \<Rightarrow> int \<Rightarrow> bool" where
  "pages_end E N \<longleftrightarrow> (\<forall>t tok ow nm n p. rp_next (o_gh E t tok (ListComments ow nm n p)) = 0 \<or>
     (p < rp_next (o_gh E t tok (ListComments ow nm n p)) \<and> rp_next (o_gh E t tok (ListComments ow nm n p)) \<le> N))"

lemma gh_ok_Inr:
  "gh_ok E cred c w = (Inr r, v) \<longleftrightarrow> r = o_gh E (w_tick w) (cr_token cred) c \<and> \<not> rp_err r \<and>
     v = (tick w)\<lparr>w_log := w_log w @ [GhEvent (cr_token cred) c]\<rparr>"
  by (auto simp: gh_ok_def gh_def ebind_def split: if_splits)

lemma pages_endD:
  "pages_end E N \<Longrightarrow> gh_ok E cred (ListComments ow nm n p) w = (Inr r, v) \<Longrightarrow> rp_next r = 0 \<or> (p < rp_next r \<and> rp_next r \<le> N)"
  using gh_ok_Inr pages_end_def by metis

lemma gh_ok_fails: "gh_ok E cred c w = (Inl e, v) \<Longrightarrow> \<exists>st. e = GhError st"
  by (auto simp: gh_ok_def gh_def ebind_def split: if_splits)

lemma gh_ok_pages_left: "gh_ok E cred c w \<noteq> (Inl OutOfPages, v)"
  using gh_ok_fails by fastforce

lemma find_pages_enough:
  assumes "pages_end E N" "N < page + int k" "0 < k" "k \<le> j"
  shows "find_pages j E cred n login page w = find_pages k E cred n login page w \<and>
    fst (find_pages k E cred n login page w) \<noteq> Inl OutOfPages"
  using assms(2-4)
proof (induction k arbitrary: j page w)
  case (Suc k)
  obtain i where j: "j = Suc i" "k \<le> i" using Suc.prems by (cases j) auto
  obtain r v where g: "gh_ok E cred (ListComments (repo_owner (cr_repo cred)) (repo_name (cr_repo cred)) n page) w = (r, v)"
    by fastforce
  show ?case
  proof (cases r)
    case (Inl e)
    then show ?thesis using g gh_ok_fails [of E cred] j by (auto simp: ebind_def)
  next
    case (Inr q)
    note next_page = pages_endD [OF assms(1) g [unfolded Inr]]
    show ?thesis
    proof (cases "find (owned login) (rp_comments q) = None \<and> rp_next q \<noteq> 0")
      case True
      then have p: "page < rp_next q" "rp_next q \<le> N" using next_page by auto
      then have "N < rp_next q + int k" "0 < k" using Suc.prems(1) by auto
      from Suc.IH [OF this j(2), of v] show ?thesis using g Inr True by (simp add: j(1) ebind_def)
    next
      case False
      then show ?thesis using g Inr by (auto simp: j(1) ebind_def eret_def split: option.splits)
    qed
  qed
qed simp

text \<open>
  C36: The search for the bot's own comment ends: with pages that grow up to a last one, following
  more of them than there are never runs out, and following even more changes nothing.
\<close>

theorem find_owned_returns:
  assumes "pages_end E N" "N < int (o_pages E)" "0 < o_pages E" "o_pages E \<le> k"
  shows "fst (findOwnedReviewComment E cred n w) \<noteq> Inl OutOfPages \<and>
    findOwnedReviewComment (E\<lparr>o_pages := k\<rparr>) cred n w = findOwnedReviewComment E cred n w"
proof -
  have "find_pages k E cred n login 0 v = find_pages (o_pages E) E cred n login 0 v \<and>
      fst (find_pages (o_pages E) E cred n login 0 v) \<noteq> Inl OutOfPages" for login v
    by (rule find_pages_enough [OF assms(1)]) (use assms in simp_all)
  then show ?thesis
    using gh_ok_pages_left [of E cred]
    by (auto simp: findOwnedReviewComment_def gh_ok_pages find_pages_pages ebind_def efail_def split: prod.splits sum.splits)
qed

section \<open>One summary comment\<close>

text \<open>A comment that GitHub listed as the bot's own, with the review marker.\<close>

definition listed_own :: "outside \<Rightarrow> credential \<Rightarrow> int \<Rightarrow> int \<Rightarrow> bool" where
  "listed_own E cred n i \<longleftrightarrow> (\<exists>t t' p c.
     c \<in> set (rp_comments (o_gh E t (cr_token cred) (ListComments (repo_owner (cr_repo cred)) (repo_name (cr_repo cred)) n p))) \<and>
     owned (rp_login (o_gh E t' (cr_token cred) UsersGet)) c \<and> fst c = i)"

lemma find_pages_own:
  "find_pages k E cred n (rp_login (o_gh E t' (cr_token cred) UsersGet)) page w = (Inr i, v) \<Longrightarrow> i = 0 \<or> listed_own E cred n i"
proof (induction k arbitrary: page w)
  case (Suc k)
  obtain r u where g: "gh_ok E cred (ListComments (repo_owner (cr_repo cred)) (repo_name (cr_repo cred)) n page) w = (Inr r, u)"
    using Suc.prems by (auto simp: ebind_Inr_iff)
  show ?case
  proof (cases "find (owned (rp_login (o_gh E t' (cr_token cred) UsersGet))) (rp_comments r)")
    case None
    then show ?thesis using Suc g by (auto simp: ebind_def split: if_splits)
  next
    case (Some c)
    then have c: "c \<in> set (rp_comments r)" "owned (rp_login (o_gh E t' (cr_token cred) UsersGet)) c"
      using find_Some_set by metis+
    have "i = fst c" using Suc.prems g Some by (simp add: ebind_def)
    moreover have "r = o_gh E (w_tick w) (cr_token cred) (ListComments (repo_owner (cr_repo cred)) (repo_name (cr_repo cred)) n page)"
      using g by (simp add: gh_ok_Inr)
    ultimately show ?thesis using c unfolding listed_own_def by blast
  qed
qed simp

lemma find_owned_own:
  assumes "findOwnedReviewComment E cred n w = (Inr i, v)"
  shows "i = 0 \<or> listed_own E cred n i"
proof -
  obtain u x where g: "gh_ok E cred UsersGet w = (Inr u, x)"
    and f: "find_pages (o_pages E) E cred n (rp_login u) 0 x = (Inr i, v)"
    using assms by (auto simp: findOwnedReviewComment_def ebind_Inr_iff split: if_splits)
  have "u = o_gh E (w_tick w) (cr_token cred) UsersGet" using g by (simp add: gh_ok_Inr)
  then show ?thesis using find_pages_own f by metis
qed

text \<open>The calls of an operation that change something at GitHub.\<close>

definition writes :: "event list \<Rightarrow> event list" where
  "writes es = filter (\<lambda>e. \<not> (\<exists>t c. e = GhEvent t c \<and> reads_call c)) es"

lemma writes_append [simp]: "writes (es @ fs) = writes es @ writes fs"
  by (simp add: writes_def)

lemma writes_Nil [simp]: "writes [] = []"
  by (simp add: writes_def)

lemma find_owned_writes:
  assumes "findOwnedReviewComment E cred n w = (r, v)"
  obtains es where "w_log v = w_log w @ es" "writes es = []"
proof -
  have "logs (event_at cred n (\<lambda>_. False) reads_call) (findOwnedReviewComment E cred n)"
    by (intro trace_intros)
  from logsD [OF this assms] obtain es where es: "w_log v = w_log w @ es"
    "list_all (event_at cred n (\<lambda>_. False) reads_call) es" by (auto simp: adds_def)
  have "writes es = []"
    unfolding writes_def filter_empty_conv using es(2)
    by (auto simp: list_all_iff) (metis event_at.simps event.exhaust)
  with es(1) that show thesis by blast
qed

lemma create_comment_log:
  "create_comment E cred n body w = (r, v) \<Longrightarrow>
     w_log v = w_log w @ [GhEvent (cr_token cred) (CreateComment (repo_owner (cr_repo cred)) (repo_name (cr_repo cred)) n body)]"
  by (auto simp: create_comment_def gh_ok_def gh_def ebind_def efail_def eret_def split: if_splits)

text \<open>
  A review's summary goes into one comment: the run edits the recorded comment, or one GitHub
  listed as the bot's own, and creates a comment only when there is none or GitHub no longer knows
  it. Nobody else's comment is ever edited.
\<close>

theorem PostReview_one_comment:
  assumes "PostReview E cred spec w = (r, v)"
  shows "\<exists>es i. w_log v = w_log w @ es \<and>
    (i = rw_comment_id spec \<or> listed_own E cred (rw_number spec) i) \<and>
    (let edit = GhEvent (cr_token cred) (EditComment (repo_owner (cr_repo cred)) (repo_name (cr_repo cred)) i (renderPostReview spec));
         create = GhEvent (cr_token cred) (CreateComment (repo_owner (cr_repo cred)) (repo_name (cr_repo cred)) (rw_number spec) (renderPostReview spec)) in
     writes es = [] \<and> (\<exists>e. r = Inl e) \<or> writes es = [edit] \<or> writes es = [create] \<or>
     writes es = [edit, create] \<and> (\<exists>t. rp_status (o_gh E t (cr_token cred) (EditComment (repo_owner (cr_repo cred)) (repo_name (cr_repo cred)) i (renderPostReview spec))) = Some 404))"
proof -
  let ?n = "rw_number spec" and ?body = "renderPostReview spec"
  define m where "m = (if rw_comment_id spec = 0 then findOwnedReviewComment E cred ?n else eret (rw_comment_id spec))"
  obtain c u where mu: "m w = (c, u)" by fastforce
  obtain es where es: "w_log u = w_log w @ es" "writes es = []"
    using mu find_owned_writes [of E cred ?n w c u] by (auto simp: m_def split: if_splits)
  show ?thesis
  proof (cases c)
    case (Inl e)
    then have "r = Inl e" "v = u" using assms mu by (auto simp: PostReview_def Let_def m_def ebind_def split: if_splits)
    then show ?thesis using es by (intro exI [of _ es] exI [of _ "rw_comment_id spec"]) simp
  next
    case (Inr i)
    let ?edit = "EditComment (repo_owner (cr_repo cred)) (repo_name (cr_repo cred)) i ?body"
    let ?create = "GhEvent (cr_token cred) (CreateComment (repo_owner (cr_repo cred)) (repo_name (cr_repo cred)) ?n ?body)"
    have own: "i = rw_comment_id spec \<or> listed_own E cred ?n i \<or> i = 0"
      using mu Inr find_owned_own [of E cred ?n w i u] by (auto simp: m_def split: if_splits)
    have rest: "(if i \<noteq> 0 then
        ebind (gh E (cr_token cred) ?edit) (\<lambda>r. if \<not> rp_err r then eret (ref cred ?n, rp_id r)
          else if rp_status r \<noteq> Some 404 then efail (GhError (rp_status r)) else create_comment E cred ?n ?body)
      else create_comment E cred ?n ?body) u = (r, v)"
      using assms mu Inr by (simp add: PostReview_def Let_def m_def ebind_def split: if_splits)
    have w1: "writes [GhEvent (cr_token cred) ?edit] = [GhEvent (cr_token cred) ?edit]" "writes [?create] = [?create]"
      by (simp_all add: writes_def)
    show ?thesis
    proof (cases "i = 0")
      case True
      then have "w_log v = w_log w @ es @ [?create]"
        using rest es create_comment_log [of E cred ?n ?body u r v] by simp
      then show ?thesis using es w1 by (intro exI [of _ "es @ [?create]"] exI [of _ "rw_comment_id spec"]) (simp add: Let_def)
    next
      case False
      let ?rep = "o_gh E (w_tick u) (cr_token cred) ?edit"
      let ?x = "(tick u)\<lparr>w_log := w_log u @ [GhEvent (cr_token cred) ?edit]\<rparr>"
      have g: "(gh E (cr_token cred) ?edit :: (world, gh_error, gh_reply) eff) u = (Inr ?rep, ?x)" by (simp add: gh_def)
      show ?thesis
      proof (cases "rp_err ?rep \<and> rp_status ?rep = Some 404")
        case True
        then have "create_comment E cred ?n ?body ?x = (r, v)" using rest False g by (simp add: ebind_def)
        then have "w_log v = w_log w @ es @ [GhEvent (cr_token cred) ?edit, ?create]"
          using es create_comment_log [of E cred ?n ?body ?x r v] by simp
        then show ?thesis using es w1 True own False
          by (intro exI [of _ "es @ [GhEvent (cr_token cred) ?edit, ?create]"] exI [of _ i]) (auto simp: Let_def writes_def)
      next
        case no404: False
        then have "v = ?x" using rest False g by (auto simp: ebind_def split: if_splits)
        then show ?thesis using es w1 own False
          by (intro exI [of _ "es @ [GhEvent (cr_token cred) ?edit]"] exI [of _ i]) (auto simp: Let_def)
      qed
    qed
  qed
qed

section \<open>Witnesses\<close>

definition example_cred :: credential where
  "example_cred = \<lparr>cr_account = ''acme'', cr_scope = TokenIssuesWrite, cr_token = ''c'', cr_repo = example_repo\<rparr>"

definition example_spec :: post_review_write where
  "example_spec = \<lparr>rw_number = 7, rw_comment_id = 5, rw_head_sha = ''abc'', rw_verdict = VerdictComment,
     rw_summary = ''hi'', rw_comments = []\<rparr>"

lemma PostReview_one_comment_witness:
  "\<exists>r v. PostReview still_outside example_cred example_spec (start_world empty_db) = (r, v) \<and> length (writes (w_log v)) \<le> 2"
proof -
  obtain r v where p: "PostReview still_outside example_cred example_spec (start_world empty_db) = (r, v)" by fastforce
  have "w_log (start_world empty_db) = []" by (simp add: start_world_def)
  with PostReview_one_comment [OF p] have "length (writes (w_log v)) \<le> 2" by (auto simp: Let_def)
  with p show ?thesis by blast
qed

lemma find_owned_returns_witness:
  "fst (findOwnedReviewComment still_outside example_cred 7 (start_world empty_db)) \<noteq> Inl OutOfPages"
proof -
  have "pages_end still_outside 0" "0 < int (o_pages still_outside)" "0 < o_pages still_outside"
    by (simp_all add: pages_end_def still_outside_def)
  from find_owned_returns [OF this order_refl] show ?thesis by (rule conjunct1)
qed

end
