(* ===== verification/Upgrade.thy ===== *)
theory Upgrade
  imports GithubWriter Validate
begin

text \<open>
  The upgrade package (\<open>internal/upgrade\<close>): the diff of a worktree against its base as git prints it,
  the branches git names, the grant of a scheduled run, and the scheduler. A transaction works on a
  copy of the tables that the commit puts in their place.
\<close>

section \<open>The diff of a worktree\<close>

text \<open>A field of a numstat line as a count; \<open>-\<close> and anything out of range leaves the sum as it is.\<close>

definition add_count :: "string \<Rightarrow> int \<Rightarrow> int" where
  "add_count s n = (case atoi s of None \<Rightarrow> n | Some k \<Rightarrow> wrap64 (n + k))"

definition numstat_line :: "diff \<Rightarrow> string \<Rightarrow> diff" where
  "numstat_line d line =
     (if line = [] then d
      else let parts = str_fields line in
        if length parts < 3 then d
        else d\<lparr>d_files := d_files d @ [parts ! 2],
               d_added := add_count (parts ! 0) (d_added d),
               d_deleted := add_count (parts ! 1) (d_deleted d)\<rparr>)"

definition trim_right_newlines :: "string \<Rightarrow> string" where
  "trim_right_newlines s = rev (dropWhile (\<lambda>c. c = CHR 0x0A) (rev s))"

definition zero_diff :: diff where
  "zero_diff = \<lparr>d_files = [], d_added = 0, d_deleted = 0\<rparr>"

definition parse_numstat :: "string \<Rightarrow> diff" where
  "parse_numstat out = foldl numstat_line zero_diff (lines (trim_right_newlines out))"

definition FromWorktree :: "outside \<Rightarrow> string \<Rightarrow> string \<Rightarrow> (world, unit, diff) eff" where
  "FromWorktree E runID worktree =
     ebind (git E [''-C'', worktree, ''diff'', ''--numstat'', ''origin/HEAD'']) (\<lambda>out. eret (parse_numstat out))"

datatype branch_error = BranchUnresolved | DefaultBranchUnresolved string

definition BaseBranch :: "outside \<Rightarrow> string \<Rightarrow> (world, branch_error, string) eff" where
  "BaseBranch E worktree =
     ebind (ewrap (\<lambda>_. BranchUnresolved) (git E [''-C'', worktree, ''rev-parse'', ''--abbrev-ref'', ''origin/HEAD''])) (\<lambda>out.
     let name = trim_prefix (trim_space out) ''origin/'' in
     if name = [] \<or> name = ''HEAD'' then efail (DefaultBranchUnresolved name) else eret name)"

definition CurrentBranch :: "outside \<Rightarrow> string \<Rightarrow> (world, branch_error, string) eff" where
  "CurrentBranch E worktree =
     ebind (ewrap (\<lambda>_. BranchUnresolved) (git E [''-C'', worktree, ''rev-parse'', ''--abbrev-ref'', ''HEAD''])) (\<lambda>out.
     eret (trim_space out))"

section \<open>Transactions\<close>

datatype tx_error = BeginError | StmtError nat db_error | CommitError

text \<open>
  One statement after the other on the working copy; \<open>now()\<close> is the time the transaction began. The
  number of the statement that failed says which error the caller wraps.
\<close>

fun tx_stmts :: "outside \<Rightarrow> go_time \<Rightarrow> nat \<Rightarrow> unit stmt list \<Rightarrow> db \<Rightarrow> (world, tx_error, db) eff" where
  "tx_stmts E t k [] d w = (Inr d, w)"
| "tx_stmts E t k (f # fs) d w =
     (if o_db E (w_tick w) \<noteq> Healthy then (Inl (StmtError k ConnError), tick w)
      else case f t d of
        (Inl e, _) \<Rightarrow> (Inl (StmtError k e), tick w)
      | (Inr _, d') \<Rightarrow> tx_stmts E t (Suc k) fs d' (tick w))"

definition tx_commit :: "outside \<Rightarrow> db \<Rightarrow> (world, tx_error, unit) eff" where
  "tx_commit E d w =
     (case o_db E (w_tick w) of
        Healthy \<Rightarrow> (Inr (), (tick w)\<lparr>w_db := d\<rparr>)
      | Refused \<Rightarrow> (Inl CommitError, tick w)
      | Unacknowledged \<Rightarrow> (Inl CommitError, (tick w)\<lparr>w_db := d\<rparr>))"

definition in_tx :: "outside \<Rightarrow> unit stmt list \<Rightarrow> (world, tx_error, unit) eff" where
  "in_tx E fs w =
     (if o_db E (w_tick w) \<noteq> Healthy then (Inl BeginError, tick w)
      else ebind (tx_stmts E (o_clock E (w_tick w)) 0 fs (w_db w)) (tx_commit E) (tick w))"

text \<open>\<open>queue.EnqueueTx\<close>: River's insert, one row of its job table.\<close>

definition stmt_enqueue :: "string \<Rightarrow> unit stmt" where
  "stmt_enqueue runID t d = (Inr (), d\<lparr>db_jobs := db_jobs d @ [runID]\<rparr>)"

text \<open>A transaction does all of its statements or nothing.\<close>

lemma tx_stmts_run:
  "tx_stmts E t k fs d w = (r, v) \<Longrightarrow> w_db v = w_db w \<and> w_log v = w_log w \<and>
     (\<forall>d'. r = Inr d' \<longrightarrow> d' = foldl (\<lambda>d f. snd (f t d)) d fs \<and>
        (\<forall>i < length fs. \<exists>x. fst ((fs ! i) t (foldl (\<lambda>d f. snd (f t d)) d (take i fs))) = Inr x))"
proof (induction fs arbitrary: k d w)
  case (Cons f fs)
  show ?case
  proof (cases "o_db E (w_tick w) = Healthy")
    case True
    obtain x e where f: "f t d = (x, e)" by fastforce
    show ?thesis
    proof (cases x)
      case (Inr u)
      then have "tx_stmts E t (Suc k) fs e (tick w) = (r, v)" using Cons.prems True f by simp
      from Cons.IH [OF this] show ?thesis using f Inr by (auto simp: nth_Cons' take_Cons')
    qed (use Cons.prems True f in auto)
  qed (use Cons.prems in auto)
qed auto

lemma in_tx_all_or_nothing:
  assumes "in_tx E fs w = (r, v)"
  obtains "w_log v = w_log w" "w_db v = w_db w" "\<exists>e. r = Inl e"
  | t where "w_log v = w_log w" "w_db v = foldl (\<lambda>d f. snd (f t d)) (w_db w) fs"
      "\<forall>i < length fs. \<exists>x. fst ((fs ! i) t (foldl (\<lambda>d f. snd (f t d)) (w_db w) (take i fs))) = Inr x"
      "r = Inr () \<or> r = Inl CommitError"
proof (cases "o_db E (w_tick w) = Healthy")
  case True
  let ?t = "o_clock E (w_tick w)"
  obtain q u where q: "tx_stmts E ?t 0 fs (w_db w) (tick w) = (q, u)" by fastforce
  note run = tx_stmts_run [OF q]
  show ?thesis
  proof (cases q)
    case (Inl e)
    then show ?thesis using that(1) assms True q run by (auto simp: in_tx_def ebind_def)
  next
    case (Inr d)
    then have c: "tx_commit E d u = (r, v)" using assms True q by (auto simp: in_tx_def ebind_def)
    then show ?thesis using that run Inr by (cases "o_db E (w_tick u)") (auto simp: tx_commit_def)
  qed
qed (use assms that(1) in \<open>auto simp: in_tx_def\<close>)

section \<open>The scheduler\<close>

definition enc_upgrade_meta :: "string \<Rightarrow> string \<Rightarrow> json" where
  "enc_upgrade_meta sc base = JObj [(asc ''scope'', jstr sc), (asc ''base_ref'', jstr base)]"

definition minute :: int where
  "minute = 60 * 10 ^ 9"

definition GrantForUpgrade :: "string \<Rightarrow> repo \<Rightarrow> string \<Rightarrow> go_time \<Rightarrow> grant" where
  "GrantForUpgrade runID r baseRef now =
     \<lparr>g_run = runID, g_repo = r,
      g_scope = \<lparr>sc_kind = ScopeScheduled, sc_number = 0, sc_base_ref = baseRef, sc_base_sha = [], sc_head_sha = []\<rparr>,
      g_kinds = [''open_pr''], g_token = TokenContentsWrite,
      g_limits = \<lparr>lim_intents = 1, lim_files = 50, lim_diff_lines = 2000, lim_body_bytes = 8000,
        lim_comments = 0, lim_labels = 0\<rparr>,
      g_manual = False,
      g_denied = [''.env'', ''.env.*'', ''deploy/.env'', ''**/secrets/**'', ''**/*.pem'', ''**/*.key''],
      g_issued = now, g_expires = now + 45 * minute\<rparr>"

datatype schedule_error =
    SchedLookup db_error
  | SchedLsRemote
  | SchedLsRemoteText
  | SchedTx tx_error

definition outstanding :: "string \<Rightarrow> run_row \<Rightarrow> bool" where
  "outstanding repoID r \<longleftrightarrow> rn_repo r = repoID \<and> rn_trigger r = ''upgrade'' \<and>
     (rn_status r = RunQueued \<or> rn_status r = RunRunning)"

definition stmt_outstanding :: "string \<Rightarrow> nat stmt" where
  "stmt_outstanding repoID t d = (Inr (length (filter (outstanding repoID) (db_runs d))), d)"

definition alreadyScheduled :: "outside \<Rightarrow> string \<Rightarrow> (world, db_error, bool) eff" where
  "alreadyScheduled E repoID = ebind (exec_stmt E (stmt_outstanding repoID)) (\<lambda>c. eret (c > 0))"

text \<open>\<open>env\<close> is \<open>os.Getenv\<close>.\<close>

definition ls_remote_branch :: "string \<Rightarrow> string option" where
  "ls_remote_branch out =
     (let fs = str_fields out in
      if 2 \<le> length fs \<and> fs ! 0 = ''ref:'' \<and> has_prefix (fs ! 1) ''refs/heads/''
      then Some (trim_prefix (fs ! 1) ''refs/heads/'') else None)"

definition ResolveDefaultBranch :: "outside \<Rightarrow> (string \<Rightarrow> string) \<Rightarrow> string \<Rightarrow> (world, schedule_error, string) eff" where
  "ResolveDefaultBranch E env repoID =
     (let tok = env ''GITHUB_READ_TOKEN'';
          url = (if tok \<noteq> [] then ''https://x-access-token:'' @ tok @ ''@github.com/'' @ repoID @ ''.git''
                 else ''https://github.com/'' @ repoID @ ''.git'') in
      ebind (ewrap (\<lambda>_. SchedLsRemote) (git E [''ls-remote'', ''--symref'', url, ''HEAD''])) (\<lambda>out.
      case ls_remote_branch out of Some b \<Rightarrow> eret b | None \<Rightarrow> efail SchedLsRemoteText))"

definition upgrade_run :: "string \<Rightarrow> string \<Rightarrow> string \<Rightarrow> string \<Rightarrow> go_time \<Rightarrow> ledger_run" where
  "upgrade_run runID owner name base now =
     \<lparr>lr_id = runID, lr_repo = owner @ ''/'' @ name, lr_trigger = ''upgrade'', lr_scope_kind = ''scheduled'',
      lr_scope_number = 0,
      lr_grant = GrantForUpgrade runID \<lparr>repo_owner = owner, repo_name = name, repo_account = owner\<rparr> base now,
      lr_decision = ''allow'', lr_deny_reason = None, lr_status = RunQueued,
      lr_meta = Some (enc_upgrade_meta ''security'' base)\<rparr>"

text \<open>\<open>runID\<close> is what \<open>newID\<close> drew.\<close>

definition Schedule ::
  "outside \<Rightarrow> (string \<Rightarrow> string) \<Rightarrow> string \<Rightarrow> string \<Rightarrow> string \<Rightarrow> string \<Rightarrow> bool \<Rightarrow> (world, schedule_error, int) eff" where
  "Schedule E env runID owner name baseRefOverride upgradesEnabled =
     (if \<not> upgradesEnabled then eret 0
      else let repoID = owner @ ''/'' @ name in
        ebind (ewrap SchedLookup (alreadyScheduled E repoID)) (\<lambda>skip.
        if skip then eret 0
        else
          ebind (if baseRefOverride = [] then ResolveDefaultBranch E env repoID else eret baseRefOverride) (\<lambda>base.
          ebind (clock E) (\<lambda>now.
          ebind (ewrap SchedTx (in_tx E [stmt_insert_run (upgrade_run runID owner name base now), stmt_enqueue runID])) (\<lambda>_.
          eret 1)))))"

text \<open>\<open>filepath.Join\<close>, and what \<open>os.Stat\<close> finds: \<open>is_file p\<close> for a file that is no directory.\<close>

definition filepath_join :: "string list \<Rightarrow> string" where
  "filepath_join ps =
     (let qs = filter (\<lambda>p. p \<noteq> []) ps in if qs = [] then [] else clean_path (join ''/'' qs))"

definition TestCommandFor :: "(string \<Rightarrow> bool) \<Rightarrow> string \<Rightarrow> string" where
  "TestCommandFor is_file worktree =
     (if is_file (filepath_join [worktree, ''go.mod'']) then ''go test ./...''
      else if is_file (filepath_join [worktree, ''package.json'']) then ''npm test''
      else [])"

section \<open>Lemmas\<close>

lemma split_when_map: "split_when p (map f xs) = map (map f) (split_when (\<lambda>x. p (f x)) xs)"
  by (induction xs) (auto split: list.splits)

lemma split_when_front: "p y \<Longrightarrow> \<forall>x \<in> set xs. \<not> p x \<Longrightarrow> split_when p (xs @ y # ys) = xs # split_when p ys"
  by (induction xs) auto

lemma str_fields_ascii:
  assumes "ascii s"
  shows "str_fields s = filter (\<lambda>w. w \<noteq> []) (split_when (\<lambda>c. is_space (of_char c)) s)"
proof -
  let ?f = "\<lambda>c :: char. (of_char c :: nat, [of_char c :: nat])"
  have "rune_chunks (bytes s) = map ?f s"
    using assms by (simp add: rune_chunks_ascii ascii_def bytes_def comp_def)
  moreover have "chunk_bytes (map ?f w) = w" for w
    by (induction w) (simp_all add: chunk_bytes_def unbytes_def)
  ultimately show ?thesis
    by (simp add: str_fields_def split_when_map comp_def)
qed

text \<open>A word: printable ASCII.\<close>

definition word :: "string \<Rightarrow> bool" where
  "word s \<longleftrightarrow> s \<noteq> [] \<and> ascii s \<and> (\<forall>c \<in> set s. \<not> is_space (of_char c))"

lemma word_no_newline: "word s \<Longrightarrow> CHR 0x0A \<notin> set s"
  by (auto simp: word_def is_space_def)

lemma trim_space_word: "word s \<Longrightarrow> trim_space s = s"
proof -
  assume s: "word s"
  let ?f = "\<lambda>c :: char. (of_char c :: nat, [of_char c :: nat])"
  have c: "rune_chunks (bytes s) = map ?f s"
    using s by (simp add: word_def rune_chunks_ascii ascii_def bytes_def comp_def)
  have drop: "dropWhile (\<lambda>c. is_space (fst c)) (map ?f xs) = map ?f xs" if "xs \<noteq> []" "set xs \<subseteq> set s" for xs
    using s that by (cases xs) (auto simp: word_def)
  have "s \<noteq> []" using s by (simp add: word_def)
  then have "dropWhile (\<lambda>c. is_space (fst c)) (map ?f s) = map ?f s"
    "dropWhile (\<lambda>c. is_space (fst c)) (rev (map ?f s)) = rev (map ?f s)"
    unfolding rev_map by (simp_all only: drop set_rev rev_is_Nil_conv order_refl not_False_eq_True)
  then have "trim_space s = chunk_bytes (map ?f s)" by (simp only: trim_space_def c rev_rev_ident)
  also have "\<dots> = s" by (induction s) (simp_all add: chunk_bytes_def unbytes_def)
  finally show ?thesis .
qed

definition tab :: string where
  "tab = [CHR 0x09]"

text \<open>A line of \<open>git diff --numstat\<close> for a file renamed from one path to another.\<close>

definition rename_line :: "string \<Rightarrow> string \<Rightarrow> string" where
  "rename_line src dst = ''1'' @ tab @ ''1'' @ tab @ src @ '' => '' @ dst @ newline"

lemma parse_rename:
  assumes "word src" "word dst"
  shows "parse_numstat (rename_line src dst) = \<lparr>d_files = [src], d_added = 1, d_deleted = 1\<rparr>"
proof -
  let ?l = "''1'' @ tab @ ''1'' @ tab @ src @ '' => '' @ dst"
  let ?sp = "\<lambda>c :: char. is_space (of_char c)"
  have src: "\<forall>x \<in> set src. \<not> ?sp x" and dst: "\<forall>x \<in> set dst. \<not> ?sp x"
    and ne: "src \<noteq> []" "dst \<noteq> []" using assms by (simp_all add: word_def)
  have a: "ascii ?l" using assms by (auto simp: word_def ascii_def tab_def)
  have "split_when ?sp (src @ CHR '' '' # ''=> '' @ dst) = src # split_when ?sp (''=> '' @ dst)"
    by (rule split_when_front [OF _ src]) (simp add: is_space_def)
  moreover have "split_when ?sp dst = [dst]" using dst by (intro split_when_none) blast
  ultimately have "split_when ?sp ?l = [''1'', ''1'', src, ''=>'', dst]"
    by (simp add: tab_def is_space_def)
  then have f: "str_fields ?l = [''1'', ''1'', src, ''=>'', dst]"
    unfolding str_fields_ascii [OF a] using ne by (simp only: filter.simps) simp
  have nn: "CHR 0x0A \<notin> set ?l" using word_no_newline assms by (auto simp: tab_def)
  have "rev dst \<noteq> []" "hd (rev dst) \<noteq> CHR 0x0A"
    using ne(2) word_no_newline [OF assms(2)] by (auto simp: hd_rev) (metis last_in_set)
  then have "dropWhile (\<lambda>c. c = CHR 0x0A) (rev dst @ xs) = rev dst @ xs" for xs
    by (cases "rev dst") auto
  then have "trim_right_newlines (rename_line src dst) = ?l"
    by (simp add: trim_right_newlines_def rename_line_def newline_def)
  moreover have "lines ?l = [?l]"
    unfolding lines_def using nn by (intro split_when_none) metis
  moreover have "?l \<noteq> []" by simp
  moreover have "atoi ''1'' = Some 1" by code_simp
  ultimately show ?thesis
    using f by (simp add: parse_numstat_def numstat_line_def add_count_def zero_diff_def wrap64_def del: append.simps)
qed

text \<open>
  Of a renamed file only the old path is looked at: git prints both on one line, the third field
  of the line is the old one. A run may thus rename a file to any path, denied or not.
\<close>

theorem rename_hides_target:
  assumes "word src" "word dst"
  shows "parse_numstat (rename_line src dst) = \<lparr>d_files = [src], d_added = 1, d_deleted = 1\<rparr>"
  using assms by (rule parse_rename)

text \<open>
  The paths a scheduled run may not touch include no secret: of the patterns that name the
  secrets directories, keys and certificates none matches a file below the root.
\<close>

theorem upgrade_grant_misses_secrets:
  "ValidateDiff \<lparr>d_files = [''deploy/secrets/token'', ''deploy/tls/server.pem'', ''deploy/tls/server.key''], d_added = 3, d_deleted = 0\<rparr>
     (GrantForUpgrade runID r base now) = Inr ()"
  by code_simp

section \<open>The scheduler\<close>

lemma exec_stmt_fst:
  "exec_stmt E f w = (Inr x, v) \<Longrightarrow> fst (f (o_clock E (w_tick w)) (w_db w)) = Inr x"
  by (simp add: exec_stmt_Inr)

definition outstanding_runs :: "string \<Rightarrow> db \<Rightarrow> run_row list" where
  "outstanding_runs repoID d = filter (outstanding repoID) (db_runs d)"

lemma alreadyScheduled_db: "alreadyScheduled E repoID w = (r, v) \<Longrightarrow>
   w_db v = w_db w \<and> (r = Inr False \<longrightarrow> outstanding_runs repoID (w_db w) = [])"
  by (auto simp: alreadyScheduled_def exec_stmt_def stmt_outstanding_def outstanding_runs_def Let_def ebind_def
      split: db_fault.splits)

lemma still_ResolveDefaultBranch: "db_still (ResolveDefaultBranch E env repoID)"
  unfolding ResolveDefaultBranch_def Let_def by (intro trace_intros)

lemma Schedule_cases:
  assumes "Schedule E env runID owner name over enabled w = (r, v)"
  obtains "w_db v = w_db w" "r \<noteq> Inr 1"
  | base now t where "outstanding_runs (owner @ ''/'' @ name) (w_db w) = []"
      "fst (stmt_insert_run (upgrade_run runID owner name base now) t (w_db w)) = Inr ()"
      "w_db v = snd (stmt_enqueue runID t (snd (stmt_insert_run (upgrade_run runID owner name base now) t (w_db w))))"
      "r = Inr 1 \<or> r = Inl (SchedTx CommitError)"
proof -
  let ?repo = "owner @ ''/'' @ name"
  obtain s u where s: "alreadyScheduled E ?repo w = (s, u)" by fastforce
  note sched = alreadyScheduled_db [OF s]
  define m where "m = (if over = [] then ResolveDefaultBranch E env ?repo else eret over)"
  show thesis
  proof (cases "enabled \<and> s = Inr False")
    case False
    then have "w_db v = w_db w \<and> r \<noteq> Inr 1" using assms s sched
      by (cases s) (auto simp: Schedule_def Let_def ebind_def ewrap_def split: if_splits)
    then show ?thesis using that(1) by blast
  next
    case True
    obtain b x where b: "m u = (b, x)" by fastforce
    have x: "w_db x = w_db u" using b db_stillD [OF still_ResolveDefaultBranch] by (auto simp: m_def split: if_splits)
    have rest: "(case b of Inl e \<Rightarrow> (Inl e, x) | Inr base \<Rightarrow>
        ebind (clock E) (\<lambda>now. ebind (ewrap SchedTx (in_tx E [stmt_insert_run (upgrade_run runID owner name base now), stmt_enqueue runID])) (\<lambda>_. eret 1)) x) = (r, v)"
      using assms s b True unfolding m_def by (auto simp: Schedule_def Let_def ebind_def ewrap_def eret_def split: if_splits sum.splits)
    show ?thesis
    proof (cases b)
      case (Inl e)
      then have "w_db v = w_db w" "r \<noteq> Inr 1" using rest x sched by auto
      then show ?thesis by (rule that(1))
    next
      case (Inr base)
      let ?now = "o_clock E (w_tick x)"
      let ?fs = "[stmt_insert_run (upgrade_run runID owner name base ?now), stmt_enqueue runID]"
      obtain q y where q: "in_tx E ?fs (tick x) = (q, y)" by fastforce
      have qv: "v = y" "r = (case q of Inl e \<Rightarrow> Inl (SchedTx e) | Inr _ \<Rightarrow> Inr 1)"
        using rest Inr q by (auto simp: ebind_def ewrap_def clock_def split: sum.splits)
      have dbx: "w_db (tick x) = w_db w" using x sched by simp
      show ?thesis using q
      proof (cases rule: in_tx_all_or_nothing)
        case 1
        then show ?thesis using that(1) qv dbx by auto
      next
        case (2 t)
        then have "\<exists>z. fst (stmt_insert_run (upgrade_run runID owner name base ?now) t (w_db w)) = Inr z"
          using dbx by (auto dest: spec [of _ 0])
        then show ?thesis using 2 qv dbx sched True by (intro that(2) [of base ?now t]) auto
      qed
    qed
  qed
qed

lemma enqueued_insert:
  assumes "fst (stmt_insert_run r t d) = Inr ()"
  shows "\<exists>row. db_runs (snd (stmt_enqueue i t (snd (stmt_insert_run r t d)))) = db_runs d @ [row] \<and>
      rn_id row = lr_id r \<and> rn_repo row = lr_repo r \<and> rn_trigger row = lr_trigger r \<and> rn_status row = lr_status r \<and>
      rn_decision row = lr_decision r \<and> rn_grant row = lr_grant r \<and>
    db_jobs (snd (stmt_enqueue i t (snd (stmt_insert_run r t d)))) = db_jobs d @ [i] \<and> find_run (lr_id r) d = None"
  using assms by (auto simp: stmt_insert_run_def stmt_enqueue_def split: if_splits)

text \<open>
  C28: Scheduling one repository leaves at most one of its upgrade runs outstanding: it queues a run
  only when there is none, the run and its job appear together or not at all, and no other
  repository's runs are touched. The queued run may only open a pull request.
\<close>

theorem Schedule_one_outstanding:
  assumes "Schedule E env runID owner name over enabled w = (r, v)"
  shows "w_db v = w_db w \<and> r \<noteq> Inr 1 \<or>
    (\<exists>row. outstanding_runs (owner @ ''/'' @ name) (w_db w) = [] \<and>
       db_runs (w_db v) = db_runs (w_db w) @ [row] \<and> db_jobs (w_db v) = db_jobs (w_db w) @ [rn_id row] \<and>
       outstanding_runs (owner @ ''/'' @ name) (w_db v) = [row] \<and>
       (\<forall>repoID. repoID \<noteq> owner @ ''/'' @ name \<longrightarrow> outstanding_runs repoID (w_db v) = outstanding_runs repoID (w_db w)) \<and>
       g_kinds (rn_grant row) = [KindOpenPR] \<and> rn_decision row = ''allow'' \<and>
       g_expires (rn_grant row) = g_issued (rn_grant row) + 45 * minute)"
  using assms
proof (cases rule: Schedule_cases)
  case (2 base now t)
  let ?run = "upgrade_run runID owner name base now"
  from enqueued_insert [OF 2(2), of runID] obtain row where row:
    "db_runs (w_db v) = db_runs (w_db w) @ [row]" "rn_id row = runID" "rn_repo row = owner @ ''/'' @ name"
    "rn_trigger row = ''upgrade''" "rn_status row = RunQueued" "rn_decision row = ''allow''"
    "rn_grant row = lr_grant ?run" "db_jobs (w_db v) = db_jobs (w_db w) @ [runID]"
    by (auto simp: 2(3) upgrade_run_def)
  then have "outstanding repoID row \<longleftrightarrow> repoID = owner @ ''/'' @ name" for repoID
    by (auto simp: outstanding_def)
  then show ?thesis using row 2(1)
    by (auto simp: outstanding_runs_def upgrade_run_def GrantForUpgrade_def KindOpenPR_def)
qed simp

section \<open>Witnesses\<close>

lemma rename_hides_target_witness:
  "ValidateDiff (parse_numstat (rename_line ''ci.yml'' ''.github/workflows/ci.yml'')) example_grant = Inr ()"
proof -
  have "word ''ci.yml''" "word ''.github/workflows/ci.yml''"
    by (simp_all add: word_def ascii_def is_space_def)
  note renamed = rename_hides_target [OF this]
  have "ValidateDiff \<lparr>d_files = [''ci.yml''], d_added = 1, d_deleted = 1\<rparr> example_grant = Inr ()" by code_simp
  then show ?thesis by (simp only: renamed)
qed

lemma Schedule_one_outstanding_witness:
  "\<exists>r v. Schedule still_outside (\<lambda>_. []) ''u1'' ''acme'' ''widget'' ''main'' True (start_world empty_db) = (r, v) \<and>
     length (outstanding_runs ''acme/widget'' (w_db v)) \<le> 1"
proof -
  obtain r v where p: "Schedule still_outside (\<lambda>_. []) ''u1'' ''acme'' ''widget'' ''main'' True (start_world empty_db) = (r, v)"
    by fastforce
  have e: "outstanding_runs ''acme/widget'' (w_db (start_world empty_db)) = []"
    by (simp add: outstanding_runs_def start_world_def empty_db_def)
  from Schedule_one_outstanding [OF p] e have "length (outstanding_runs ''acme/widget'' (w_db v)) \<le> 1"
    by (elim disjE) auto
  with p show ?thesis by blast
qed

end
