(* ===== verification/Diff.thy ===== *)
theory Diff
  imports Upgrade
begin

text \<open>
  The parser of git's zero-context diff (\<open>internal/review/diffcheck.go\<close>), the lines of a scanner, and
  what the parser reads back from a diff that git prints.
\<close>

section \<open>Types\<close>

record added_line =
  al_line :: int
  al_text :: string

record diff_file =
  df_path :: string
  df_header :: string
  df_added :: "added_line list"

datatype review_error =
    GitDiffFailed
  | DiffLineTooLong
  | BadHunk string
  | MissingPath string
  | LsTreeFailed string
  | GitShowFailed string
  | ReadHeadFailed string
  | ParseBaseFailed string
  | ParseHeadFailed string
  | TempDirFailed
  | ArchiveFailed
  | ArchiveUnreadable
  | UnsafeArchivePath string
  | ArchiveWriteFailed string
  | ScanBaseFailed scan_error
  | ScanHeadFailed scan_error

section \<open>Lines of a scanner\<close>

text \<open>
  \<open>bufio.Scanner\<close> over a text in memory: lines without their end, a carriage return before it
  dropped too, and no line for what is behind the last newline when that is nothing. The scanner stops
  in front of a line that does not fit its buffer; the second component says it did not.
\<close>

definition drop_cr :: "string \<Rightarrow> string" where
  "drop_cr s = (if s \<noteq> [] \<and> last s = CHR 0x0D then butlast s else s)"

definition text_lines :: "string \<Rightarrow> string list" where
  "text_lines raw = (let ls = lines raw in if last ls = [] then butlast ls else ls)"

definition scan_lines :: "nat \<Rightarrow> string \<Rightarrow> string list \<times> bool" where
  "scan_lines buf raw =
     (let ls = text_lines raw; fit = (\<lambda>l. length l < buf)
      in (map drop_cr (takeWhile fit ls), list_all fit ls))"

section \<open>The parser of diffs\<close>

text \<open>What follows the last occurrence of a marker.\<close>

fun after_last :: "string \<Rightarrow> string \<Rightarrow> string option" where
  "after_last m [] = (if m = [] then Some [] else None)"
| "after_last m (c # cs) =
     (case after_last m cs of
        Some r \<Rightarrow> Some r
      | None \<Rightarrow> if has_prefix (c # cs) m then Some (drop (length m) (c # cs)) else None)"

definition diffHeaderPath :: "string \<Rightarrow> string" where
  "diffHeaderPath header = (case after_last '' b/'' header of None \<Rightarrow> [] | Some r \<Rightarrow> trim_space r)"

definition hunkHeadLine :: "string \<Rightarrow> (review_error, int) result" where
  "hunkHeadLine header =
     (let fs = str_fields header in
      if length fs < 3 \<or> \<not> has_prefix (fs ! 2) ''+'' then Inl (BadHunk header)
      else case atoi (before (trim_prefix (fs ! 2) ''+'') '','') of
          None \<Rightarrow> Inl (BadHunk header)
        | Some n \<Rightarrow> Inr n)"

text \<open>The files read so far, the current one apart, and the line the next added line has.\<close>

record diff_state =
  ds_done :: "diff_file list"
  ds_current :: "diff_file option"
  ds_line :: int

definition ds_files :: "diff_state \<Rightarrow> diff_file list" where
  "ds_files st = ds_done st @ (case ds_current st of None \<Rightarrow> [] | Some f \<Rightarrow> [f])"

definition diff_line :: "string \<Rightarrow> diff_state \<Rightarrow> (review_error, diff_state) result" where
  "diff_line line st =
     (if has_prefix line ''diff --git '' then
        Inr \<lparr>ds_done = ds_files st,
          ds_current = Some \<lparr>df_path = diffHeaderPath line, df_header = line, df_added = []\<rparr>, ds_line = 0\<rparr>
      else case ds_current st of
        None \<Rightarrow> Inr st
      | Some f \<Rightarrow>
          if has_prefix line ''+++ b/'' then
            Inr (st\<lparr>ds_current := Some (f\<lparr>df_path := trim_prefix line ''+++ b/''\<rparr>)\<rparr>)
          else if has_prefix line ''@@ '' then
            rbind (hunkHeadLine line) (\<lambda>start. Inr (st\<lparr>ds_line := start\<rparr>))
          else if has_prefix line ''+'' \<and> \<not> has_prefix line ''+++'' then
            Inr (st\<lparr>ds_current := Some (f\<lparr>df_added := df_added f @ [\<lparr>al_line = ds_line st, al_text = trim_prefix line ''+''\<rparr>]\<rparr>),
              ds_line := wrap64 (ds_line st + 1)\<rparr>)
          else if has_prefix line ''-'' then Inr st
          else Inr (if ds_line st > 0 then st\<lparr>ds_line := wrap64 (ds_line st + 1)\<rparr> else st))"

fun diff_lines :: "string list \<Rightarrow> diff_state \<Rightarrow> (review_error, diff_state) result" where
  "diff_lines [] st = Inr st"
| "diff_lines (l # ls) st = rbind (diff_line l st) (diff_lines ls)"

fun first_pathless :: "diff_file list \<Rightarrow> string option" where
  "first_pathless [] = None"
| "first_pathless (f # fs) = (if df_path f = [] then Some (df_header f) else first_pathless fs)"

definition max_diff_line :: nat where
  "max_diff_line = 4 * 1024 * 1024"

definition parseDiff :: "string \<Rightarrow> (review_error, diff_file list) result" where
  "parseDiff raw =
     (let (ls, whole) = scan_lines max_diff_line raw in
      rbind (diff_lines ls \<lparr>ds_done = [], ds_current = None, ds_line = 0\<rparr>) (\<lambda>st.
      check (\<not> whole) DiffLineTooLong
        (case first_pathless (ds_files st) of Some h \<Rightarrow> Inl (MissingPath h) | None \<Rightarrow> Inr (ds_files st))))"

definition loadDiff :: "outside \<Rightarrow> string \<Rightarrow> (world, review_error, diff_file list) eff" where
  "loadDiff E worktree =
     ebind (ewrap (\<lambda>_. GitDiffFailed) (git E [''-C'', worktree, ''diff'', ''--unified=0'', ''refs/bothos/base..HEAD'', ''--''])) (\<lambda>out.
     elift (parseDiff out))"

section \<open>Reading back what git prints\<close>

text \<open>
  A diff as git prints it with \<open>--unified=0\<close>: a header line per file, the lines that say more of the
  change, the new name (with a tab behind a name that has a space in it), and the hunks: the lines they
  take away and the lines they put at a place of the new file.
\<close>

record hunk =
  hk_old :: string
  hk_start :: nat
  hk_context :: string
  hk_removed :: "string list"
  hk_added :: "string list"

record change =
  cg_path :: string
  cg_extra :: "string list"
  cg_hunks :: "hunk list"

definition header_line :: "string \<Rightarrow> string" where
  "header_line p = ''diff --git a/'' @ p @ '' b/'' @ p"

definition name_line :: "string \<Rightarrow> string" where
  "name_line p = ''+++ b/'' @ p @ (if CHR '' '' \<in> set p then tab else [])"

definition range_text :: "nat \<Rightarrow> nat \<Rightarrow> string" where
  "range_text start n = ''+'' @ show_nat start @ (if n = 1 then [] else '','' @ show_nat n)"

definition hunk_head :: "hunk \<Rightarrow> string" where
  "hunk_head h = ''@@ '' @ hk_old h @ '' '' @ range_text (hk_start h) (length (hk_added h)) @ '' @@'' @ hk_context h"

definition hunk_lines :: "hunk \<Rightarrow> string list" where
  "hunk_lines h = hunk_head h # map (\<lambda>l. ''-'' @ l) (hk_removed h) @ map (\<lambda>l. ''+'' @ l) (hk_added h)"

definition change_lines :: "change \<Rightarrow> string list" where
  "change_lines c = header_line (cg_path c) # cg_extra c @
     (if cg_hunks c = [] then [] else name_line (cg_path c) # concat (map hunk_lines (cg_hunks c)))"

definition print_lines :: "string list \<Rightarrow> string" where
  "print_lines ls = concat (map (\<lambda>l. l @ newline) ls)"

definition print_diff :: "change list \<Rightarrow> string" where
  "print_diff cs = print_lines (concat (map change_lines cs))"

text \<open>What should be read: the added lines with the numbers they have in the new file.\<close>

fun number_lines :: "nat \<Rightarrow> string list \<Rightarrow> added_line list" where
  "number_lines n [] = []"
| "number_lines n (l # ls) = \<lparr>al_line = int n, al_text = drop_cr l\<rparr> # number_lines (Suc n) ls"

definition read_change :: "change \<Rightarrow> diff_file" where
  "read_change c = \<lparr>df_path = cg_path c, df_header = header_line (cg_path c),
     df_added = concat (map (\<lambda>h. number_lines (hk_start h) (hk_added h)) (cg_hunks c))\<rparr>"

definition short_line :: "string \<Rightarrow> bool" where
  "short_line l \<longleftrightarrow> CHR 0x0A \<notin> set l \<and> length l < max_diff_line"

definition hunk_ok :: "hunk \<Rightarrow> bool" where
  "hunk_ok h \<longleftrightarrow> word (hk_old h) \<and> ascii (hk_context h) \<and>
     int (hk_start h) + int (length (hk_added h)) < 2 ^ 63 \<and>
     list_all (\<lambda>l. \<not> has_prefix l ''++'') (hk_added h)"

definition change_ok :: "change \<Rightarrow> bool" where
  "change_ok c \<longleftrightarrow> word (cg_path c) \<and>
     list_all (\<lambda>l. \<not> has_prefix l ''diff --git '' \<and> \<not> has_prefix l ''@@ '' \<and> \<not> has_prefix l ''+'') (cg_extra c) \<and>
     list_all hunk_ok (cg_hunks c) \<and> list_all short_line (change_lines c)"

lemma text_lines_print:
  "list_all (\<lambda>l. CHR 0x0A \<notin> set l) ls \<Longrightarrow> text_lines (print_lines ls) = ls"
proof -
  assume "list_all (\<lambda>l. CHR 0x0A \<notin> set l) ls"
  then have "lines (print_lines ls) = ls @ [[]]"
  proof (induction ls)
    case Nil
    then show ?case by (simp add: lines_def print_lines_def)
  next
    case (Cons l ls)
    have "lines (print_lines (l # ls)) = split_when (\<lambda>c. c = CHR 0x0A) (l @ CHR 0x0A # print_lines ls)"
      by (simp add: lines_def print_lines_def newline_def)
    also have "\<dots> = l # lines (print_lines ls)"
      using Cons.prems by (subst split_when_front) (auto simp: lines_def)
    finally show ?case using Cons by simp
  qed
  then show ?thesis by (simp add: text_lines_def)
qed

lemma scan_lines_print:
  "list_all short_line ls \<Longrightarrow> scan_lines max_diff_line (print_lines ls) = (map drop_cr ls, True)"
proof -
  assume "list_all short_line ls"
  then have "list_all (\<lambda>l. CHR 0x0A \<notin> set l) ls" "list_all (\<lambda>l. length l < max_diff_line) ls"
    by (simp_all add: list_all_iff short_line_def)
  note ls = this
  have tw: "takeWhile (\<lambda>l. length l < max_diff_line) ls = ls"
    using ls(2) by (subst takeWhile_eq_all_conv) (simp add: list_all_iff)
  show ?thesis unfolding scan_lines_def Let_def text_lines_print [OF ls(1)] tw using ls(2) by simp
qed

lemma diff_lines_append: "diff_lines (xs @ ys) st = rbind (diff_lines xs st) (diff_lines ys)"
  by (induction xs arbitrary: st) (auto simp: rbind_def split: sum.splits)

lemma drop_cr_Cons: "c \<noteq> CHR 0x0D \<Longrightarrow> drop_cr (c # l) = c # drop_cr l"
  by (auto simp: drop_cr_def)

lemma drop_cr_append: "p \<noteq> [] \<Longrightarrow> last p \<noteq> CHR 0x0D \<Longrightarrow> drop_cr (p @ l) = p @ drop_cr l"
  by (auto simp: drop_cr_def butlast_append)

lemma drop_cr_word: "word l \<Longrightarrow> drop_cr l = l"
proof -
  assume l: "word l"
  then have "\<not> is_space (of_char (last l))" by (simp add: word_def)
  then have "last l \<noteq> CHR 0x0D" by (auto simp: is_space_def)
  then show ?thesis by (simp add: drop_cr_def)
qed

lemma drop_cr_prefix: "\<not> has_prefix l p \<Longrightarrow> \<not> has_prefix (drop_cr l) p"
  unfolding drop_cr_def has_prefix_def by (metis append_butlast_last_id prefix_prefix)

lemma ascii_drop_cr: "ascii l \<Longrightarrow> ascii (drop_cr l)"
  by (auto simp: ascii_def drop_cr_def dest: in_set_butlastD)

text \<open>Three words and what is behind them.\<close>

lemma fields_three:
  assumes "word a" "word b" "word c" "ascii d"
  shows "str_fields (a @ '' '' @ b @ '' '' @ c @ '' '' @ d) = a # b # c # str_fields d"
proof -
  let ?sp = "\<lambda>c :: char. is_space (of_char c)"
  have w: "\<forall>x \<in> set w. \<not> ?sp x" if "word w" for w using that by (simp add: word_def)
  have sp: "?sp (CHR '' '')" by (simp add: is_space_def)
  have "ascii (a @ '' '' @ b @ '' '' @ c @ '' '' @ d)"
    using assms by (auto simp: word_def ascii_def)
  then show ?thesis
    using assms by (simp add: str_fields_ascii split_when_front [OF sp w] word_def)
qed


lemma path_header:
  assumes "word p"
  shows "diffHeaderPath (header_line p) = p"
proof -
  have sp: "CHR '' '' \<notin> set p" using assms by (auto simp: word_def is_space_def)
  have none: "after_last '' b/'' p = None"
    using sp by (induction p) (auto simp: has_prefix_def prefix_Cons)
  have "after_last '' b/'' ('' b/'' @ p) = Some p"
    using none by (simp add: has_prefix_def)
  moreover have "after_last m (xs @ ys) = Some z" if "after_last m ys = Some z" for m xs ys z
    using that by (induction xs) auto
  ultimately have "after_last '' b/'' ((''diff --git a/'' @ p) @ ('' b/'' @ p)) = Some p" by blast
  then show ?thesis
    by (simp add: diffHeaderPath_def header_line_def trim_space_word [OF assms])
qed

lemma read_show: "atoi (show_nat n) = Some (int n)" if "int n < 2 ^ 63"
proof -
  have "atoi (itoa (int n)) = Some (int n)" using that by (intro atoi_itoa) (simp add: int_ok_def)
  then show ?thesis by (simp add: itoa_def)
qed

lemma show_nat_word: "word (show_nat n)"
  using show_nat_digits [of _ n] by (auto simp: word_def ascii_def is_digit_def is_space_def) (fastforce dest: show_nat_digits simp: is_digit_def)+


lemma before_comma: "CHR '','' \<notin> set a \<Longrightarrow> before (a @ CHR '','' # b) '','' = a" "CHR '','' \<notin> set a \<Longrightarrow> before a '','' = a"
  by (induction a) (auto simp: before_def has_prefix_def split: prod.splits)

lemma range_start: "before (trim_prefix (range_text n k) ''+'') '','' = show_nat n"
proof -
  have "CHR '','' \<notin> set (show_nat n)" using show_nat_digits [of "CHR '',''" n] by (auto simp: is_digit_def)
  then show ?thesis by (simp add: range_text_def trim_prefix_def has_prefix_def before_comma)
qed

lemma range_word: "word (range_text n k)"
  using show_nat_word [of n] show_nat_word [of k] by (auto simp: range_text_def word_def ascii_def is_space_def)

lemma hunk_head_cr: "drop_cr (hunk_head h) = ''@@'' @ '' '' @ hk_old h @ '' '' @ range_text (hk_start h) (length (hk_added h)) @ '' '' @ (''@@'' @ drop_cr (hk_context h))"
  using drop_cr_append [of "''@@ '' @ hk_old h @ '' '' @ range_text (hk_start h) (length (hk_added h)) @ '' @@''" "hk_context h"]
  by (simp add: hunk_head_def)

lemma read_hunk_head:
  assumes "hunk_ok h"
  shows "hunkHeadLine (drop_cr (hunk_head h)) = Inr (int (hk_start h))"
proof -
  have a: "word (hk_old h)" "ascii (''@@'' @ drop_cr (hk_context h))" "int (hk_start h) < 2 ^ 63"
    using assms ascii_drop_cr [of "hk_context h"] by (auto simp: hunk_ok_def ascii_def)
  have at: "word ''@@''" by (simp add: word_def ascii_def is_space_def)
  have "has_prefix (range_text (hk_start h) (length (hk_added h))) ''+''"
    by (simp add: range_text_def has_prefix_def)
  then show ?thesis
    unfolding hunkHeadLine_def hunk_head_cr fields_three [OF at a(1) range_word a(2)]
    by (simp add: range_start read_show [OF a(3)])
qed

text \<open>Which line does what.\<close>

lemma read_head_line:
  "ds_current st = Some f \<Longrightarrow> hunk_ok h \<Longrightarrow>
   diff_line (drop_cr (hunk_head h)) st = Inr (st\<lparr>ds_line := int (hk_start h)\<rparr>)"
  using read_hunk_head [of h] by (simp add: diff_line_def) (simp add: hunk_head_cr has_prefix_def)

lemma read_removed: "ds_current st = Some f \<Longrightarrow> diff_lines (map drop_cr (map (\<lambda>l. ''-'' @ l) ls)) st = Inr st"
  by (induction ls) (simp_all add: diff_line_def has_prefix_def drop_cr_Cons)

lemma read_added:
  "ds_current st = Some f \<Longrightarrow> ds_line st = int n \<Longrightarrow> int n + int (length ls) < 2 ^ 63 \<Longrightarrow>
   list_all (\<lambda>l. \<not> has_prefix l ''++'') ls \<Longrightarrow>
   diff_lines (map drop_cr (map (\<lambda>l. ''+'' @ l) ls)) st =
     Inr (st\<lparr>ds_current := Some (f\<lparr>df_added := df_added f @ number_lines n ls\<rparr>), ds_line := int (n + length ls)\<rparr>)"
proof (induction ls arbitrary: st f n)
  case Nil
  then show ?case by simp
next
  case (Cons l ls)
  have p: "\<not> has_prefix (drop_cr l) ''++''" using Cons.prems(4) by (intro drop_cr_prefix) simp
  then have q: "\<not> has_prefix (drop_cr l) ''++ b/''" by (auto simp: has_prefix_def prefix_def)
  have w: "wrap64 (int n + 1) = int (Suc n)" using Cons.prems(3) by (simp add: wrap64_def)
  have "diff_line (drop_cr (''+'' @ l)) st =
      Inr (st\<lparr>ds_current := Some (f\<lparr>df_added := df_added f @ [\<lparr>al_line = int n, al_text = drop_cr l\<rparr>]\<rparr>), ds_line := int (Suc n)\<rparr>)"
    using p q Cons.prems(1,2) w by (simp add: diff_line_def has_prefix_def drop_cr_Cons trim_prefix_def)
  moreover let ?f = "f\<lparr>df_added := df_added f @ [\<lparr>al_line = int n, al_text = drop_cr l\<rparr>]\<rparr>"
  have "diff_lines (map drop_cr (map (\<lambda>l. ''+'' @ l) ls)) (st\<lparr>ds_current := Some ?f, ds_line := int (Suc n)\<rparr>) =
      Inr (st\<lparr>ds_current := Some (?f\<lparr>df_added := df_added ?f @ number_lines (Suc n) ls\<rparr>), ds_line := int (Suc n + length ls)\<rparr>)"
    using Cons.prems Cons.IH [of "st\<lparr>ds_current := Some ?f, ds_line := int (Suc n)\<rparr>" ?f "Suc n"] by simp
  ultimately show ?case by simp
qed

lemma read_hunk:
  assumes "ds_current st = Some f" "hunk_ok h"
  obtains st' where "diff_lines (map drop_cr (hunk_lines h)) st = Inr st'" "ds_done st' = ds_done st"
    "ds_current st' = Some (f\<lparr>df_added := df_added f @ number_lines (hk_start h) (hk_added h)\<rparr>)"
proof -
  let ?st = "st\<lparr>ds_line := int (hk_start h)\<rparr>"
  have "diff_lines (map drop_cr (hunk_lines h)) st = diff_lines (map drop_cr (map (\<lambda>l. ''+'' @ l) (hk_added h))) ?st"
    using assms read_head_line read_removed [of ?st f "hk_removed h"]
    by (simp add: hunk_lines_def diff_lines_append)
  then show ?thesis
    using that assms read_added [of ?st f "hk_start h" "hk_added h"] by (simp add: hunk_ok_def)
qed

lemma read_hunks:
  "ds_current st = Some f \<Longrightarrow> list_all hunk_ok hs \<Longrightarrow>
   \<exists>st'. diff_lines (map drop_cr (concat (map hunk_lines hs))) st = Inr st' \<and> ds_done st' = ds_done st \<and>
     ds_current st' = Some (f\<lparr>df_added := df_added f @ concat (map (\<lambda>h. number_lines (hk_start h) (hk_added h)) hs)\<rparr>)"
proof (induction hs arbitrary: st f)
  case (Cons h hs)
  then obtain st1 where st1: "diff_lines (map drop_cr (hunk_lines h)) st = Inr st1" "ds_done st1 = ds_done st"
    "ds_current st1 = Some (f\<lparr>df_added := df_added f @ number_lines (hk_start h) (hk_added h)\<rparr>)"
    by (auto elim: read_hunk)
  from Cons.IH [OF st1(3)] Cons.prems(2) show ?case
    using st1 by (simp add: diff_lines_append)
qed simp


lemma read_name_line:
  assumes "ds_current st = Some f" "word p"
  shows "diff_line (drop_cr (name_line p)) st = Inr (st\<lparr>ds_current := Some (f\<lparr>df_path := p\<rparr>)\<rparr>)"
proof -
  have "CHR '' '' \<notin> set p" using assms(2) by (auto simp: word_def is_space_def)
  then have "drop_cr (name_line p) = ''+++ b/'' @ p"
    using drop_cr_append [of "''+++ b/''" p] drop_cr_word [OF assms(2)] by (simp add: name_line_def)
  then show ?thesis using assms(1) by (simp add: diff_line_def has_prefix_def trim_prefix_def)
qed

lemma read_extra:
  "ds_current st = Some f \<Longrightarrow> ds_line st = 0 \<Longrightarrow>
   list_all (\<lambda>l. \<not> has_prefix l ''diff --git '' \<and> \<not> has_prefix l ''@@ '' \<and> \<not> has_prefix l ''+'') ls \<Longrightarrow>
   diff_lines (map drop_cr ls) st = Inr st"
proof (induction ls)
  case (Cons l ls)
  let ?l = "drop_cr l"
  have "\<not> has_prefix ?l ''diff --git ''" "\<not> has_prefix ?l ''@@ ''" "\<not> has_prefix ?l ''+''"
    using Cons.prems(3) by (simp_all add: drop_cr_prefix)
  moreover from this(3) have "\<not> has_prefix ?l ''+++ b/''" by (auto simp: has_prefix_def prefix_def)
  ultimately have "diff_line ?l st = Inr st" using Cons.prems(1,2) by (simp add: diff_line_def)
  then show ?case using Cons by simp
qed simp

lemma read_header:
  assumes "word p"
  shows "diff_line (drop_cr (header_line p)) st =
    Inr \<lparr>ds_done = ds_files st, ds_current = Some \<lparr>df_path = p, df_header = header_line p, df_added = []\<rparr>, ds_line = 0\<rparr>"
proof -
  have "drop_cr (header_line p) = header_line p"
    using drop_cr_append [of "''diff --git a/'' @ p @ '' b/''" p] drop_cr_word [OF assms] by (simp add: header_line_def)
  moreover have "has_prefix (header_line p) ''diff --git ''" by (simp add: header_line_def has_prefix_def)
  ultimately show ?thesis using path_header [OF assms] by (simp add: diff_line_def)
qed

lemma read_change_lines:
  assumes "change_ok c"
  obtains st' where "diff_lines (map drop_cr (change_lines c)) st = Inr st'" "ds_files st' = ds_files st @ [read_change c]"
proof -
  note ok = assms [unfolded change_ok_def]
  let ?f = "\<lparr>df_path = cg_path c, df_header = header_line (cg_path c), df_added = []\<rparr>"
  let ?st = "\<lparr>ds_done = ds_files st, ds_current = Some ?f, ds_line = 0\<rparr>"
  have head: "diff_lines (map drop_cr (header_line (cg_path c) # cg_extra c)) st = Inr ?st"
    using ok read_header [of "cg_path c" st] read_extra [of ?st ?f "cg_extra c"] by simp
  show ?thesis
  proof (cases "cg_hunks c = []")
    case True
    then show ?thesis using that head by (simp add: change_lines_def read_change_def ds_files_def)
  next
    case False
    have name: "diff_line (drop_cr (name_line (cg_path c))) ?st = Inr ?st"
      using ok read_name_line [of ?st ?f "cg_path c"] by simp
    have hunks: "list_all hunk_ok (cg_hunks c)" using ok by blast
    obtain st' where "diff_lines (map drop_cr (concat (map hunk_lines (cg_hunks c)))) ?st = Inr st'"
      "ds_done st' = ds_files st" "ds_current st' = Some (read_change c)"
      using read_hunks [OF _ hunks, of ?st ?f] by (auto simp: read_change_def)
    moreover have "change_lines c = (header_line (cg_path c) # cg_extra c) @ name_line (cg_path c) # concat (map hunk_lines (cg_hunks c))"
      using False by (simp add: change_lines_def)
    ultimately show ?thesis
      using that [of st'] head name by (simp only: map_append list.map diff_lines_append) (simp add: ds_files_def)
  qed
qed

lemma read_changes:
  "list_all change_ok cs \<Longrightarrow>
   \<exists>st'. diff_lines (map drop_cr (concat (map change_lines cs))) st = Inr st' \<and> ds_files st' = ds_files st @ map read_change cs"
proof (induction cs arbitrary: st)
  case (Cons c cs)
  then have "change_ok c" by simp
  then obtain st1 where st1: "diff_lines (map drop_cr (change_lines c)) st = Inr st1" "ds_files st1 = ds_files st @ [read_change c]"
    by (rule read_change_lines)
  from Cons.IH [of st1] Cons.prems show ?case using st1 by (auto simp: diff_lines_append)
qed simp

lemma first_pathless_None: "first_pathless fs = None \<longleftrightarrow> list_all (\<lambda>f. df_path f \<noteq> []) fs"
  by (induction fs) auto

lemma parse_printed_files:
  assumes "list_all change_ok cs"
  shows "parseDiff (print_diff cs) = Inr (map read_change cs)"
proof -
  let ?st = "\<lparr>ds_done = [], ds_current = None, ds_line = 0\<rparr>"
  have "list_all short_line (concat (map change_lines cs))"
    using assms by (auto simp: list_all_iff change_ok_def)
  then have scan: "scan_lines max_diff_line (print_diff cs) = (map drop_cr (concat (map change_lines cs)), True)"
    unfolding print_diff_def by (rule scan_lines_print)
  obtain st' where st': "diff_lines (map drop_cr (concat (map change_lines cs))) ?st = Inr st'"
    "ds_files st' = map read_change cs"
    using read_changes [OF assms, of ?st] by (auto simp: ds_files_def)
  have "first_pathless (map read_change cs) = None"
    using assms by (auto simp: first_pathless_None list_all_iff change_ok_def word_def read_change_def)
  then show ?thesis using scan st' by (simp add: parseDiff_def)
qed



section \<open>What it does not read\<close>

text \<open>A file that gets one line.\<close>

definition new_line :: "string \<Rightarrow> string \<Rightarrow> change" where
  "new_line p t = \<lparr>cg_path = p, cg_extra = [],
     cg_hunks = [\<lparr>hk_old = ''-0,0'', hk_start = 1, hk_context = [], hk_removed = [], hk_added = [t]\<rparr>]\<rparr>"

lemma new_line_lines:
  "change_lines (new_line p t) = [header_line p, name_line p, ''@@ -0,0 +1 @@'', ''+'' @ t]"
proof -
  have "show_nat 1 = ''1''" by code_simp
  then show ?thesis by (simp add: change_lines_def new_line_def hunk_lines_def hunk_head_def range_text_def)
qed

lemma read_new_head:
  assumes "ds_current st = Some f"
  shows "diff_line (drop_cr ''@@ -0,0 +1 @@'') st = Inr (st\<lparr>ds_line := 1\<rparr>)"
proof -
  let ?h = "\<lparr>hk_old = ''-0,0'', hk_start = 1, hk_context = [], hk_removed = [], hk_added = [[]]\<rparr>"
  have h: "hunk_head ?h = ''@@ -0,0 +1 @@''"
    using new_line_lines [of undefined "[]"] by (simp add: change_lines_def new_line_def hunk_lines_def)
  have "hunk_ok ?h" by (simp add: hunk_ok_def word_def ascii_def is_space_def has_prefix_def)
  from read_head_line [OF assms this, unfolded h] show ?thesis by simp
qed

lemma read_new_line:
  assumes "word p"
  shows "diff_lines [drop_cr (header_line p), drop_cr (name_line p), drop_cr ''@@ -0,0 +1 @@'']
      \<lparr>ds_done = [], ds_current = None, ds_line = 0\<rparr> =
    Inr \<lparr>ds_done = [], ds_current = Some \<lparr>df_path = p, df_header = header_line p, df_added = []\<rparr>, ds_line = 1\<rparr>"
  using assms read_name_line [of "\<lparr>ds_done = [], ds_current = Some \<lparr>df_path = p, df_header = header_line p, df_added = []\<rparr>, ds_line = 0\<rparr>" _ p]
    read_new_head [of "\<lparr>ds_done = [], ds_current = Some \<lparr>df_path = p, df_header = header_line p, df_added = []\<rparr>, ds_line = 0\<rparr>"]
  by (simp add: read_header ds_files_def)

lemma scan_new_line:
  "word p \<Longrightarrow> short_line (header_line p) \<Longrightarrow> short_line (''+'' @ t) \<Longrightarrow>
   scan_lines max_diff_line (print_diff [new_line p t]) =
     ([drop_cr (header_line p), drop_cr (name_line p), drop_cr ''@@ -0,0 +1 @@'', drop_cr (''+'' @ t)], True)"
  by (subst print_diff_def, subst scan_lines_print)
     (auto simp: new_line_lines short_line_def name_line_def header_line_def max_diff_line_def tab_def)

text \<open>
  A line that a pull request adds and that begins with two plus signs is never looked at: git prints
  it with three, which the parser takes for the new name of the file. When it goes on like such a name
  line, the file even gets the name it says, and every finding in the file is placed there.
\<close>

theorem plus_plus_line_lost:
  assumes "word p" "short_line (header_line p)" "short_line (''+++'' @ t)"
  shows "parseDiff (print_diff [new_line p (''++'' @ t)]) =
    (let u = drop_cr t in
     if u = '' b/'' then Inl (MissingPath (header_line p))
     else Inr [\<lparr>df_path = (if has_prefix u '' b/'' then drop 3 u else p), df_header = header_line p, df_added = []\<rparr>])"
proof -
  let ?u = "drop_cr t"
  let ?f = "\<lparr>df_path = p, df_header = header_line p, df_added = []\<rparr>"
  let ?st = "\<lparr>ds_done = [], ds_current = Some ?f, ds_line = 1\<rparr>"
  have "drop_cr (''+++'' @ t) = ''+++'' @ ?u" using drop_cr_append [of "''+++''" t] by simp
  then have line: "diff_line (drop_cr (''+++'' @ t)) ?st =
      Inr (if has_prefix ?u '' b/'' then ?st\<lparr>ds_current := Some (?f\<lparr>df_path := drop 3 ?u\<rparr>)\<rparr> else ?st\<lparr>ds_line := 2\<rparr>)"
    by (simp add: diff_line_def has_prefix_def trim_prefix_def wrap64_def numeral_3_eq_3)
  have "diff_lines [drop_cr (header_line p), drop_cr (name_line p), drop_cr ''@@ -0,0 +1 @@'', drop_cr (''+++'' @ t)]
      \<lparr>ds_done = [], ds_current = None, ds_line = 0\<rparr> = diff_line (drop_cr (''+++'' @ t)) ?st"
    using diff_lines_append [of "[drop_cr (header_line p), drop_cr (name_line p), drop_cr ''@@ -0,0 +1 @@'']" "[drop_cr (''+++'' @ t)]"]
      read_new_line [OF assms(1)] by (simp add: rbind_def split: sum.splits)
  moreover have "p \<noteq> []" using assms(1) by (simp add: word_def)
  moreover have "has_prefix ?u '' b/'' \<Longrightarrow> drop 3 ?u = [] \<longleftrightarrow> ?u = '' b/''" by (auto simp: has_prefix_def prefix_def)
  ultimately show ?thesis
    using scan_new_line [OF assms(1,2), of "''++'' @ t"] assms(3) line
    by (auto simp: parseDiff_def Let_def ds_files_def first_pathless_None check_def has_prefix_def)
qed

text \<open>A file whose name git quotes, as it does for every byte beyond ASCII; \<open>q\<close> is what stands between the quotes.\<close>

definition quoted_header :: "string \<Rightarrow> string" where
  "quoted_header q = ''diff --git '' @ [CHR 0x22] @ ''a/'' @ q @ [CHR 0x22] @ '' '' @ [CHR 0x22] @ ''b/'' @ q @ [CHR 0x22]"

definition quoted_lines :: "string \<Rightarrow> string \<Rightarrow> string list" where
  "quoted_lines q t = [quoted_header q, ''+++ '' @ [CHR 0x22] @ ''b/'' @ q @ [CHR 0x22], ''@@ -0,0 +1 @@'', ''+'' @ t]"

lemma quoted_header_path:
  assumes "word q"
  shows "diffHeaderPath (quoted_header q) = []" "drop_cr (quoted_header q) = quoted_header q"
proof -
  have sp: "CHR '' '' \<notin> set q" using assms by (auto simp: word_def is_space_def)
  have none: "after_last '' b/'' (xs @ ys) = None"
    if "CHR '' '' \<notin> set xs" "after_last '' b/'' ys = None" for xs ys
    using that by (induction xs) (auto simp: has_prefix_def)
  have "after_last '' b/'' (q @ [CHR 0x22]) = None" by (rule none [OF sp]) (simp add: has_prefix_def)
  then have "after_last '' b/'' (q @ [CHR 0x22] @ '' '' @ [CHR 0x22] @ ''b/'' @ q @ [CHR 0x22]) = None"
    by (intro none [OF sp]) (simp add: has_prefix_def)
  then show "diffHeaderPath (quoted_header q) = []"
    by (simp add: diffHeaderPath_def quoted_header_def has_prefix_def)
  show "drop_cr (quoted_header q) = quoted_header q" by (simp add: quoted_header_def drop_cr_def)
qed

text \<open>
  One file with a name beyond ASCII in a pull request makes the whole diff unreadable: git quotes
  its name, the parser finds none, and no check of any file is done.
\<close>

theorem quoted_name_fails:
  assumes "list_all change_ok cs" "word q" "list_all short_line (quoted_lines q t)" "\<not> has_prefix t ''++''"
  shows "parseDiff (print_lines (concat (map change_lines cs) @ quoted_lines q t)) = Inl (MissingPath (quoted_header q))"
proof -
  let ?ls = "concat (map change_lines cs) @ quoted_lines q t"
  have "list_all short_line ?ls" using assms(1,3) by (auto simp: list_all_iff change_ok_def)
  then have scan: "scan_lines max_diff_line (print_lines ?ls) = (map drop_cr ?ls, True)" by (rule scan_lines_print)
  obtain st where st: "diff_lines (map drop_cr (concat (map change_lines cs))) \<lparr>ds_done = [], ds_current = None, ds_line = 0\<rparr> = Inr st"
    "ds_files st = map read_change cs"
    using read_changes [OF assms(1), of "\<lparr>ds_done = [], ds_current = None, ds_line = 0\<rparr>"] by (auto simp: ds_files_def)
  let ?h = "quoted_header q"
  let ?f = "\<lparr>df_path = [], df_header = ?h, df_added = []\<rparr>"
  let ?st = "\<lambda>n. \<lparr>ds_done = map read_change cs, ds_current = Some ?f, ds_line = n\<rparr>"
  have 1: "diff_line (drop_cr ?h) st = Inr (?st 0)"
    using st(2) quoted_header_path [OF assms(2)] by (simp add: diff_line_def) (simp add: quoted_header_def has_prefix_def)
  have 2: "diff_line (drop_cr (''+++ '' @ [CHR 0x22] @ ''b/'' @ q @ [CHR 0x22])) (?st 0) = Inr (?st 0)"
    by (simp add: drop_cr_def diff_line_def has_prefix_def)
  have 3: "diff_line (drop_cr ''@@ -0,0 +1 @@'') (?st 0) = Inr (?st 1)"
    using read_new_head [of "?st 0"] by simp
  have "\<not> has_prefix (drop_cr t) ''++''" using assms(4) by (rule drop_cr_prefix)
  moreover from this have "\<not> has_prefix (drop_cr t) ''++ b/''" by (auto simp: has_prefix_def prefix_def)
  ultimately have 4: "diff_line (drop_cr (''+'' @ t)) (?st 1) =
      Inr ((?st 2)\<lparr>ds_current := Some (?f\<lparr>df_added := [\<lparr>al_line = 1, al_text = drop_cr t\<rparr>]\<rparr>)\<rparr>)"
    by (simp add: drop_cr_Cons diff_line_def has_prefix_def trim_prefix_def wrap64_def)
  let ?last = "(?st 2)\<lparr>ds_current := Some (?f\<lparr>df_added := [\<lparr>al_line = 1, al_text = drop_cr t\<rparr>]\<rparr>)\<rparr>"
  have "diff_lines (map drop_cr ?ls) \<lparr>ds_done = [], ds_current = None, ds_line = 0\<rparr> = Inr ?last"
    using st(1) 1 2 3 4 by (simp only: map_append diff_lines_append quoted_lines_def list.map) simp
  moreover have "first_pathless (ds_files ?last) = Some ?h"
    using assms(1) by (simp add: ds_files_def) (induction cs; auto simp: change_ok_def word_def read_change_def)
  ultimately show ?thesis using scan by (simp add: parseDiff_def check_def)
qed

text \<open>A name with a space in it: git puts a tab behind it, which the parser takes for a part of the name.\<close>

lemma spaced_name_tab:
  assumes "CHR '' '' \<in> set p" "ds_current st = Some f"
  shows "diff_line (drop_cr (name_line p)) st = Inr (st\<lparr>ds_current := Some (f\<lparr>df_path := p @ tab\<rparr>)\<rparr>)"
  using assms by (simp add: name_line_def tab_def drop_cr_def diff_line_def has_prefix_def trim_prefix_def)

text \<open>
  A file without a newline at its end that gets another last line: the line git prints behind the old one
  is counted, so the new one is placed a line too far down.
\<close>

lemma no_newline_shifts:
  assumes "ds_current st = Some f" "hunk_ok h" "hk_added h = [t]" "hk_start h > 0" "int (hk_start h) + 2 < 2 ^ 63"
  shows "diff_lines (map drop_cr [hunk_head h, ''-'' @ s, [CHR 0x5C] @ '' No newline at end of file'', ''+'' @ t]) st =
    Inr (st\<lparr>ds_current := Some (f\<lparr>df_added := df_added f @ [\<lparr>al_line = int (hk_start h) + 1, al_text = drop_cr t\<rparr>]\<rparr>),
      ds_line := int (hk_start h) + 2\<rparr>)"
proof -
  let ?n = "int (hk_start h)"
  have n: "?n + 1 < 2 ^ 63" "wrap64 (?n + 1) = ?n + 1" "\<not> has_prefix t ''++''"
    using assms(2,3) by (simp_all add: hunk_ok_def wrap64_def)
  have p: "\<not> has_prefix (drop_cr t) ''++''" using n(3) by (rule drop_cr_prefix)
  then have q: "\<not> has_prefix (drop_cr t) ''++ b/''" by (auto simp: has_prefix_def prefix_def)
  have w: "wrap64 (?n + 1 + 1) = ?n + 2" using assms(5) by (simp add: wrap64_def)
  show ?thesis
    using assms(1,4) read_head_line [OF assms(1,2)] n p q w
    by (simp add: diff_line_def has_prefix_def trim_prefix_def drop_cr_Cons)
qed

section \<open>Instances\<close>

lemma new_line_ok:
  "word p \<Longrightarrow> length p < 1000 \<Longrightarrow> CHR 0x0A \<notin> set t \<Longrightarrow> length t < 1000 \<Longrightarrow> \<not> has_prefix t ''++'' \<Longrightarrow> change_ok (new_line p t)"
  using word_no_newline [of p]
  by (simp add: change_ok_def new_line_lines)
     (auto simp: new_line_def hunk_ok_def short_line_def header_line_def name_line_def tab_def max_diff_line_def word_def ascii_def is_space_def)

lemma main_go: "word ''main.go''" "short_line (header_line ''main.go'')"
  by (simp_all add: word_def ascii_def is_space_def short_line_def header_line_def max_diff_line_def)


lemma plus_plus_line_lost_witness:
  "parseDiff (print_diff [new_line ''main.go'' ''++AKIA'']) =
     Inr [\<lparr>df_path = ''main.go'', df_header = ''diff --git a/main.go b/main.go'', df_added = []\<rparr>]"
proof -
  have "short_line (''+++'' @ ''AKIA'')" by (simp add: short_line_def max_diff_line_def)
  from plus_plus_line_lost [OF main_go this] show ?thesis
    by (simp add: Let_def drop_cr_def has_prefix_def header_line_def)
qed

lemma quoted_name_fails_witness:
  "parseDiff (print_lines (quoted_lines ([CHR 0x5C] @ ''303'' @ [CHR 0x5C] @ ''251'') ''x'')) =
     Inl (MissingPath (quoted_header ([CHR 0x5C] @ ''303'' @ [CHR 0x5C] @ ''251'')))"
proof -
  let ?q = "[CHR 0x5C] @ ''303'' @ [CHR 0x5C] @ ''251''"
  have "list_all change_ok []" by simp
  moreover have "word ?q" by (simp add: word_def ascii_def is_space_def)
  moreover have "list_all short_line (quoted_lines ?q ''x'')"
    by (simp add: quoted_lines_def quoted_header_def short_line_def max_diff_line_def)
  moreover have "\<not> has_prefix ''x'' ''++''" by (simp add: has_prefix_def)
  ultimately have "parseDiff (print_lines (concat (map change_lines []) @ quoted_lines ?q ''x'')) = Inl (MissingPath (quoted_header ?q))"
    by (rule quoted_name_fails)
  then show ?thesis by simp
qed

end
