(* ===== verification/Review.thy ===== *)
theory Review
  imports Diff GoSort "HOL-Library.AList"
begin

text \<open>
  The deterministic checks of a pull request (\<open>internal/review\<close>): the denied paths, the secrets among
  added lines, the changes of the dependency manifests, and the vulnerabilities the head has over the
  base. git, the scanner and the file system are outside; an archive is the list of its entries.
\<close>

section \<open>Findings\<close>

record review_finding =
  rf_rule :: string
  rf_path :: string
  rf_line :: int
  rf_detail :: string
  rf_evidence :: string
  rf_verified :: bool

section \<open>Denied paths\<close>

definition capBytes :: "string \<Rightarrow> nat \<Rightarrow> string" where
  "capBytes value limit = (if length value \<le> limit then value else take limit value)"

definition firstLine :: "diff_file \<Rightarrow> int" where
  "firstLine f = (case df_added f of [] \<Rightarrow> 1 | l # _ \<Rightarrow> al_line l)"

definition denied_path :: "string \<Rightarrow> bool" where
  "denied_path p \<longleftrightarrow> p = ''.env'' \<or> has_suffix p ''.key'' \<or> has_prefix p ''.github/workflows/''"

definition deniedPathFindings :: "diff_file list \<Rightarrow> review_finding list" where
  "deniedPathFindings files =
     map (\<lambda>f. \<lparr>rf_rule = ''denied_path'', rf_path = df_path f, rf_line = firstLine f, rf_detail = ''changed denied path'',
       rf_evidence = capBytes (df_header f @ (case df_added f of [] \<Rightarrow> [] | l # _ \<Rightarrow> newline @ ''+'' @ al_text l)) 240,
       rf_verified = True\<rparr>)
     (filter (\<lambda>f. denied_path (df_path f)) files)"

section \<open>Secrets\<close>

definition upper_digit :: "rune \<Rightarrow> bool" where
  "upper_digit r \<longleftrightarrow> is_upper r \<or> is_digit r"

text \<open>The rules: the finding's detail and its pattern.\<close>

definition addedSecretRules :: "(string \<times> rx) list" where
  "addedSecretRules =
     [(''possible AWS access key'', Seq (lit ''AKIA'') (Rep upper_digit 16 (Some 16))),
      (''possible GitHub token'', Seq (lit ''gh'') (Seq (Cls (\<lambda>r. r \<in> {112, 111, 117, 115, 114})) (Seq (lit ''_'') (Rep word_rune 20 None)))),
      (''possible GitHub fine-grained token'', Seq (lit ''github_pat_'') (Rep word_rune 20 None)),
      (''possible OpenAI API key'', Seq (lit ''sk-'') (Rep (\<lambda>r. word_rune r \<or> r = 45) 20 None)),
      (''PEM private material'', Seq (lit ''-----BEGIN '') (Seq (Rep (\<lambda>r. upper_digit r \<or> r = 32) 1 None) (lit ''-----'')))]"

definition allowsBareHTTPCheck :: "string \<Rightarrow> bool" where
  "allowsBareHTTPCheck path =
     (let base = to_lower (base_name path) in
      base = ''.env'' \<or> contains base ''config'' \<or>
      to_lower (file_ext base) \<in> {''.json'', ''.yaml'', ''.yml'', ''.toml'', ''.ini'', ''.conf'', ''.config''})"

definition secret_finding :: "diff_file \<Rightarrow> added_line \<Rightarrow> string \<Rightarrow> review_finding" where
  "secret_finding f l detail =
     \<lparr>rf_rule = ''secret'', rf_path = df_path f, rf_line = al_line l, rf_detail = detail,
      rf_evidence = capBytes (''+'' @ al_text l) 240, rf_verified = True\<rparr>"

definition line_secrets :: "diff_file \<Rightarrow> added_line \<Rightarrow> review_finding list" where
  "line_secrets f l =
     map (\<lambda>(detail, _). secret_finding f l detail) (filter (\<lambda>(_, pattern). match_string pattern (al_text l)) addedSecretRules) @
     (if contains (al_text l) ''http://'' \<and> allowsBareHTTPCheck (df_path f)
      then [secret_finding f l ''bare HTTP URL in configuration''] else [])"

definition secretFindings :: "diff_file list \<Rightarrow> review_finding list" where
  "secretFindings files = concat (map (\<lambda>f. concat (map (line_secrets f) (df_added f))) files)"

section \<open>Dependency manifests\<close>

definition isSupportedManifest :: "string \<Rightarrow> bool" where
  "isSupportedManifest path \<longleftrightarrow> base_name path \<in> {''package.json'', ''go.mod'', ''requirements.txt''}"

definition isRecognizedLockfile :: "string \<Rightarrow> bool" where
  "isRecognizedLockfile path =
     (let b = base_name path in
      b \<in> {''package-lock.json'', ''yarn.lock'', ''pnpm-lock.yaml'', ''go.sum''} \<or>
      has_prefix b ''requirements'' \<and> has_suffix b ''.lock'')"

text \<open>A Go map of versions: an association list with one entry for a name.\<close>

type_synonym deps = "(string \<times> string) list"

text \<open>\<open>map[string]json.RawMessage\<close> and \<open>map[string]string\<close>; the last of equal keys stays.\<close>

definition dec_raw_map :: "json \<Rightarrow> (string \<times> json) list option" where
  "dec_raw_map v = (case v of
      JNull \<Rightarrow> Some []
    | JObj ms \<Rightarrow> Some (foldl (\<lambda>m (k, x). AList.update (of_runes k) x m) [] ms)
    | _ \<Rightarrow> None)"

fun dec_dep_members :: "(rune list \<times> json) list \<Rightarrow> deps \<Rightarrow> deps option" where
  "dec_dep_members [] m = Some m"
| "dec_dep_members ((k, v) # ms) m =
     (case dec_string v [] of None \<Rightarrow> None | Some s \<Rightarrow> dec_dep_members ms (AList.update (of_runes k) s m))"

definition dec_dep_map :: "json \<Rightarrow> deps option" where
  "dec_dep_map v = (case v of JNull \<Rightarrow> Some [] | JObj ms \<Rightarrow> dec_dep_members ms [] | _ \<Rightarrow> None)"

fun package_sections :: "(string \<times> json) list \<Rightarrow> string list \<Rightarrow> deps \<Rightarrow> deps option" where
  "package_sections root [] m = Some m"
| "package_sections root (s # ss) m =
     (case map_of root s of
        None \<Rightarrow> package_sections root ss m
      | Some raw \<Rightarrow> (case dec_dep_map raw of
            None \<Rightarrow> None
          | Some ds \<Rightarrow> package_sections root ss (foldl (\<lambda>m (k, v). AList.update k v m) m ds)))"

definition parsePackageJSON :: "string \<Rightarrow> deps option" where
  "parsePackageJSON data =
     (case parse_json (to_runes data) of None \<Rightarrow> None
      | Some v \<Rightarrow> (case dec_raw_map v of None \<Rightarrow> None
          | Some root \<Rightarrow> package_sections root [''dependencies'', ''devDependencies'', ''peerDependencies'', ''optionalDependencies''] []))"

text \<open>One line of a \<open>go.mod\<close>; the flag says that a \<open>require\<close> block is open.\<close>

definition go_mod_line :: "bool \<times> deps \<Rightarrow> string \<Rightarrow> bool \<times> deps" where
  "go_mod_line st text =
     (let line = trim_space (before text ''//''); (open_block, m) = st in
      if line = ''require ('' then (True, m)
      else if open_block \<and> line = '')'' then (False, m)
      else let fs = str_fields line in
        if \<not> open_block then
          (open_block, if length fs = 3 \<and> fs ! 0 = ''require'' then AList.update (fs ! 1) (fs ! 2) m else m)
        else (open_block, if length fs \<ge> 2 then AList.update (fs ! 0) (fs ! 1) m else m))"

definition max_scan_token :: nat where
  "max_scan_token = 64 * 1024"

definition parseGoMod :: "string \<Rightarrow> deps" where
  "parseGoMod data = snd (foldl go_mod_line (False, []) (fst (scan_lines max_scan_token data)))"

definition requirement_line :: "deps \<Rightarrow> string \<Rightarrow> deps" where
  "requirement_line m raw =
     (let (l, r, found) = cut (trim_space (before raw ''#'')) ''=='';
          name = to_lower (trim_space l); version = trim_space r
      in if \<not> found \<or> name = [] \<or> version = [] then m else AList.update name version m)"

definition parseRequirements :: "string \<Rightarrow> deps" where
  "parseRequirements data = foldl requirement_line [] (lines data)"

definition parseManifest :: "string \<Rightarrow> string \<Rightarrow> deps option" where
  "parseManifest path data =
     (if trim_space data = [] then Some []
      else if base_name path = ''package.json'' then parsePackageJSON data
      else if base_name path = ''go.mod'' then Some (parseGoMod data)
      else if base_name path = ''requirements.txt'' then Some (parseRequirements data)
      else None)"

definition dep_detail :: "deps \<Rightarrow> deps \<Rightarrow> string \<Rightarrow> string option" where
  "dep_detail oldDeps newDeps name =
     (case (map_of oldDeps name, map_of newDeps name) of
        (None, new) \<Rightarrow> Some (name @ '': added -> '' @ (case new of None \<Rightarrow> [] | Some v \<Rightarrow> v))
      | (Some v, None) \<Rightarrow> Some (name @ '': '' @ v @ '' -> removed'')
      | (Some v, Some v') \<Rightarrow> if v = v' then None else Some (name @ '': '' @ v @ '' -> '' @ v'))"

definition dependencyDetails :: "deps \<Rightarrow> deps \<Rightarrow> string list" where
  "dependencyDetails oldDeps newDeps =
     List.map_filter (dep_detail oldDeps newDeps) (sort_strings (remdups (map fst oldDeps @ map fst newDeps)))"

section \<open>The outside of the checks\<close>

datatype file_read = NotExist | ReadFailed | FileText string

datatype tar_type = TarDir | TarFile | TarOther

record tar_entry =
  te_name :: string
  te_type :: tar_type
  te_content :: string

datatype fs_write = MadeDir string | Wrote string string

text \<open>
  \<open>os.ReadFile\<close>, \<open>os.MkdirTemp\<close>, the reader of archives (the entries it gives, and whether it then
  met the end), which writes to the file system succeed, and the scanners' processes.
\<close>

record review_env =
  re_read :: "string \<Rightarrow> file_read"
  re_temp :: "string option"
  re_untar :: "string \<Rightarrow> tar_entry list \<times> bool"
  re_writable :: "fs_write \<Rightarrow> bool"
  re_spawn :: "string \<Rightarrow> string list \<Rightarrow> string \<Rightarrow> exit_status"

definition readBaseFile :: "outside \<Rightarrow> string \<Rightarrow> string \<Rightarrow> (world, review_error, string) eff" where
  "readBaseFile E worktree path =
     ebind (ewrap (\<lambda>_. LsTreeFailed path) (git E [''-C'', worktree, ''ls-tree'', ''-r'', ''--name-only'', ''-z'', ''refs/bothos/base'', ''--'', path])) (\<lambda>names.
     if names = [] then eret []
     else ewrap (\<lambda>_. GitShowFailed path) (git E [''-C'', worktree, ''show'', ''refs/bothos/base:'' @ path]))"

definition readHeadFile :: "review_env \<Rightarrow> string \<Rightarrow> string \<Rightarrow> (review_error, string) result" where
  "readHeadFile R worktree path =
     (case re_read R (filepath_join [worktree, path]) of
        NotExist \<Rightarrow> Inr []
      | ReadFailed \<Rightarrow> Inl (ReadHeadFailed path)
      | FileText t \<Rightarrow> Inr t)"

text \<open>The last file of the diff with a path, as the map \<open>byPath\<close> has it.\<close>

definition by_path :: "diff_file list \<Rightarrow> string \<Rightarrow> diff_file" where
  "by_path files p = (case find (\<lambda>f. df_path f = p) (rev files) of
      Some f \<Rightarrow> f | None \<Rightarrow> \<lparr>df_path = [], df_header = [], df_added = []\<rparr>)"

definition dependency_finding :: "diff_file list \<Rightarrow> string \<Rightarrow> string \<Rightarrow> string \<Rightarrow> review_finding" where
  "dependency_finding files rule path detail =
     \<lparr>rf_rule = rule, rf_path = path, rf_line = firstLine (by_path files path), rf_detail = detail,
      rf_evidence = df_header (by_path files path), rf_verified = True\<rparr>"

fun manifest_deltas ::
  "outside \<Rightarrow> review_env \<Rightarrow> string \<Rightarrow> diff_file list \<Rightarrow> string list \<Rightarrow> (world, review_error, review_finding list) eff" where
  "manifest_deltas E R worktree files [] = eret []"
| "manifest_deltas E R worktree files (path # paths) =
     ebind (readBaseFile E worktree path) (\<lambda>base_text.
     ebind (elift (readHeadFile R worktree path)) (\<lambda>head_text.
     ebind (elift (case parseManifest path base_text of None \<Rightarrow> Inl (ParseBaseFailed path) | Some m \<Rightarrow> Inr m)) (\<lambda>old.
     ebind (elift (case parseManifest path head_text of None \<Rightarrow> Inl (ParseHeadFailed path) | Some m \<Rightarrow> Inr m)) (\<lambda>new.
     ebind (manifest_deltas E R worktree files paths) (\<lambda>rest.
     eret (map (dependency_finding files ''dependency_delta'' path) (dependencyDetails old new) @ rest))))))"

definition manifests_of :: "diff_file list \<Rightarrow> string list" where
  "manifests_of files = sort_strings (filter isSupportedManifest (map df_path files))"

definition lockfiles_of :: "diff_file list \<Rightarrow> string list" where
  "lockfiles_of files =
     sort_strings (filter (\<lambda>p. \<not> isSupportedManifest p \<and> isRecognizedLockfile p) (map df_path files))"

definition dependencyDeltaFindings ::
  "outside \<Rightarrow> review_env \<Rightarrow> string \<Rightarrow> diff_file list \<Rightarrow> (world, review_error, review_finding list \<times> string list) eff" where
  "dependencyDeltaFindings E R worktree files =
     (let manifests = manifests_of files; lockfiles = lockfiles_of files; inputs = manifests @ lockfiles in
      if manifests = [] then
        (case lockfiles of
           [] \<Rightarrow> eret ([], [])
         | path # _ \<Rightarrow> eret ([dependency_finding files ''lockfile_only'' path ''lockfile changed without a supported manifest''], inputs))
      else ebind (manifest_deltas E R worktree files manifests) (\<lambda>fs. eret (fs, inputs)))"

section \<open>Vulnerabilities the head adds\<close>

text \<open>The paths an archive may have; the writes are collected in the order they are made.\<close>

definition unsafe_entry :: "string \<Rightarrow> bool" where
  "unsafe_entry name =
     (let clean = clean_path name in clean = ''.'' \<or> is_abs clean \<or> clean = ''..'' \<or> has_prefix clean ''../'')"

definition fs_do :: "review_env \<Rightarrow> string \<Rightarrow> fs_write \<Rightarrow> (fs_write list, review_error, unit) eff" where
  "fs_do R name x ws = (if re_writable R x then (Inr (), ws @ [x]) else (Inl (ArchiveWriteFailed name), ws))"

text \<open>\<open>filepath.Dir\<close>.\<close>

definition dir_name :: "string \<Rightarrow> string" where
  "dir_name p = clean_path (rev (dropWhile (\<lambda>c. c \<noteq> slash) (rev p)))"

definition extract_entry :: "review_env \<Rightarrow> string \<Rightarrow> tar_entry \<Rightarrow> (fs_write list, review_error, unit) eff" where
  "extract_entry R destination e =
     (if unsafe_entry (te_name e) then efail (UnsafeArchivePath (te_name e))
      else
        let path = filepath_join [destination, clean_path (te_name e)] in
        case te_type e of
          TarDir \<Rightarrow> fs_do R (te_name e) (MadeDir path)
        | TarFile \<Rightarrow> ebind (fs_do R (te_name e) (MadeDir (dir_name path))) (\<lambda>_.
            fs_do R (te_name e) (Wrote path (te_content e)))
        | TarOther \<Rightarrow> eret ())"

fun extract_entries :: "review_env \<Rightarrow> string \<Rightarrow> bool \<Rightarrow> tar_entry list \<Rightarrow> (fs_write list, review_error, unit) eff" where
  "extract_entries R destination whole [] = (if whole then eret () else efail ArchiveUnreadable)"
| "extract_entries R destination whole (e # es) =
     ebind (extract_entry R destination e) (\<lambda>_. extract_entries R destination whole es)"

definition extract_archive :: "review_env \<Rightarrow> string \<Rightarrow> string \<Rightarrow> (fs_write list, review_error, unit) eff" where
  "extract_archive R destination archive =
     (let (es, whole) = re_untar R archive in extract_entries R destination whole es)"

definition materializeBase :: "outside \<Rightarrow> review_env \<Rightarrow> string \<Rightarrow> string \<Rightarrow> (world, review_error, unit) eff" where
  "materializeBase E R worktree destination =
     ebind (ewrap (\<lambda>_. ArchiveFailed) (git E [''-C'', worktree, ''archive'', ''refs/bothos/base''])) (\<lambda>archive.
     elift (fst (extract_archive R destination archive [])))"

text \<open>The key of a vulnerability: ecosystem, package and advisory, in that order.\<close>

datatype osv_key = OsvKey (ok_ecosystem: string) (ok_package: string) (ok_advisory: string)

definition key_of :: "finding \<Rightarrow> osv_key" where
  "key_of f = OsvKey (f_ecosystem f) (f_package f) (f_advisory f)"

instantiation osv_key :: linorder
begin

definition less_osv_key :: "osv_key \<Rightarrow> osv_key \<Rightarrow> bool" where
  "less_osv_key k l \<longleftrightarrow>
     (if ok_ecosystem k \<noteq> ok_ecosystem l then byte_less (ok_ecosystem k) (ok_ecosystem l)
      else if ok_package k \<noteq> ok_package l then byte_less (ok_package k) (ok_package l)
      else byte_less (ok_advisory k) (ok_advisory l))"

definition less_eq_osv_key :: "osv_key \<Rightarrow> osv_key \<Rightarrow> bool" where
  "less_eq_osv_key k l \<longleftrightarrow> k = l \<or> k < l"

instance
proof
  fix x y z :: osv_key
  show "(x < y) = (x \<le> y \<and> \<not> y \<le> x)"
    by (auto simp: less_osv_key_def less_eq_osv_key_def split: if_splits dest: byte_less_asym)
  show "x \<le> x" by (simp add: less_eq_osv_key_def)
  show "x \<le> y \<Longrightarrow> y \<le> z \<Longrightarrow> x \<le> z"
    by (auto simp: less_osv_key_def less_eq_osv_key_def split: if_splits intro: bytes_order.trans dest: byte_less_asym)
  show "x \<le> y \<Longrightarrow> y \<le> x \<Longrightarrow> x = y"
    by (auto simp: less_osv_key_def less_eq_osv_key_def split: if_splits dest: byte_less_asym)
  show "x \<le> y \<or> y \<le> x"
    by (cases x; cases y) (auto simp: less_osv_key_def less_eq_osv_key_def dest: byte_less_total)
qed

end

definition new_vulns :: "finding list \<Rightarrow> finding list \<Rightarrow> (osv_key \<times> finding) list" where
  "new_vulns base head_fs =
     foldl (\<lambda>m f. if key_of f \<in> set (map key_of base) then m else AList.update (key_of f) f m) [] head_fs"

definition osv_delta_finding :: "string \<Rightarrow> finding \<Rightarrow> review_finding" where
  "osv_delta_finding path f =
     \<lparr>rf_rule = ''osv_delta'', rf_path = path, rf_line = 1,
      rf_detail = f_package f @ ''@'' @ f_current f @ '' introduced '' @ f_advisory f,
      rf_evidence = ''osv-scanner --format json .: '' @ f_advisory f, rf_verified = True\<rparr>"

definition osv_delta :: "string \<Rightarrow> finding list \<Rightarrow> finding list \<Rightarrow> review_finding list" where
  "osv_delta path base head_fs =
     (let new = new_vulns base head_fs in
      map (\<lambda>k. osv_delta_finding path (the (map_of new k))) (order_by (<) (map fst new)))"

definition osvDeltaFindings ::
  "outside \<Rightarrow> review_env \<Rightarrow> string \<Rightarrow> string list \<Rightarrow> (world, review_error, review_finding list) eff" where
  "osvDeltaFindings E R worktree inputs =
     (case re_temp R of
        None \<Rightarrow> efail TempDirFailed
      | Some baseDir \<Rightarrow>
          ebind (materializeBase E R worktree baseDir) (\<lambda>_.
          ebind (ewrap ScanBaseFailed (elift (Run (re_spawn R) baseDir StandardTools))) (\<lambda>base.
          ebind (ewrap ScanHeadFailed (elift (Run (re_spawn R) worktree StandardTools))) (\<lambda>head_fs.
          eret (osv_delta (hd inputs) base head_fs)))))"

section \<open>All checks\<close>

definition finding_less :: "review_finding \<Rightarrow> review_finding \<Rightarrow> bool" where
  "finding_less a b =
     (if rf_rule a \<noteq> rf_rule b then byte_less (rf_rule a) (rf_rule b)
      else if rf_path a \<noteq> rf_path b then byte_less (rf_path a) (rf_path b)
      else if rf_line a \<noteq> rf_line b then rf_line a < rf_line b
      else byte_less (rf_detail a) (rf_detail b))"

text \<open>\<open>sort.Slice\<close> may leave findings that differ in nothing but their evidence in any order; this one is stable.\<close>

definition All_checks :: "outside \<Rightarrow> review_env \<Rightarrow> string \<Rightarrow> (world, review_error, review_finding list) eff" where
  "All_checks E R worktree =
     ebind (loadDiff E worktree) (\<lambda>files.
     ebind (dependencyDeltaFindings E R worktree files) (\<lambda>(deps, inputs).
     ebind (if inputs \<noteq> [] then osvDeltaFindings E R worktree inputs else eret []) (\<lambda>osv.
     eret (order_by finding_less (deniedPathFindings files @ secretFindings files @ deps @ osv)))))"

section \<open>ASCII text among other bytes\<close>

lemma decode_rune_before_ascii: "x < 128 \<Longrightarrow> decode_rune b (bs @ x # cs) = decode_rune b bs"
  by (cases bs rule: remdups_adj.cases; cases "tl (tl bs)")
     (auto simp: decode_rune_defs cont_def split: list.splits)

lemma rune_chunks_ascii_at: "x < 128 \<Longrightarrow> rune_chunks (as @ x # bs) = rune_chunks as @ (x, [x]) # rune_chunks bs"
proof (induction as rule: rune_chunks.induct)
  case 1
  then show ?case by (simp add: decode_rune_def)
next
  case (2 b as)
  obtain r w where d: "decode_rune b as = (r, w)" by fastforce
  then have "w - 1 \<le> length as" using decode_rune_width [OF d] by linarith
  moreover from this have "take w (b # as @ x # bs) = take w (b # as)"
    using decode_rune_width [OF d] by (cases w) simp_all
  ultimately show ?case
    using d decode_rune_width [OF d] 2 by (simp add: decode_rune_before_ascii)
qed

lemma to_runes_ascii_at: "of_char c < (128 :: nat) \<Longrightarrow> to_runes (a @ c # b) = to_runes a @ of_char c # to_runes b"
  by (simp add: to_runes_def bytes_def rune_chunks_ascii_at)

lemma to_runes_ascii_prefix: "ascii m \<Longrightarrow> to_runes (m @ b) = asc m @ to_runes b"
  by (induction m) (use to_runes_ascii_at [of _ "[]"] in \<open>auto simp: ascii_def asc_def to_runes_def [of "[]"] bytes_def\<close>)

lemma decode_rune_low: "decode_rune b bs = (r, w) \<Longrightarrow> r < 128 \<Longrightarrow> w = 1 \<and> r = b"
  by (auto simp: decode_rune_defs cont_def rune_error_def split: list.splits if_splits)

lemma rune_chunks_low: "(r, bs) \<in> set (rune_chunks as) \<Longrightarrow> r < 128 \<Longrightarrow> bs = [r]"
proof (induction as rule: rune_chunks.induct)
  case (2 b as)
  obtain r' w where d: "decode_rune b as = (r', w)" by fastforce
  show ?case using 2 d decode_rune_low [OF d] by (auto simp: d)
qed simp

lemma rune_chunks_low_list:
  "set cs \<subseteq> set (rune_chunks as) \<Longrightarrow> map fst cs = asc m \<Longrightarrow> ascii m \<Longrightarrow> concat (map snd cs) = bytes m"
proof (induction cs arbitrary: m)
  case Nil
  then show ?case by (simp add: asc_def bytes_def)
next
  case (Cons c cs)
  then obtain x m' where m: "m = x # m'" by (cases m) (auto simp: asc_def)
  have "c \<in> set (rune_chunks as)" "fst c < 128" using Cons.prems m by (auto simp: asc_def ascii_def)
  then have "snd c = [fst c]" using rune_chunks_low [of "fst c" "snd c" as] by simp
  then show ?case using Cons m by (auto simp: asc_def ascii_def bytes_def)
qed

lemma ascii_infix:
  assumes "ascii m" "m \<noteq> []"
  shows "(\<exists>ra rb. to_runes s = ra @ asc m @ rb) \<longleftrightarrow> (\<exists>a b. s = a @ m @ b)"
proof
  assume "\<exists>ra rb. to_runes s = ra @ asc m @ rb"
  then obtain ca cm cb where c: "rune_chunks (bytes s) = ca @ cm @ cb" "map fst cm = asc m"
    unfolding to_runes_def map_eq_append_conv by (metis map_eq_append_conv)
  have "concat (map snd cm) = bytes m"
    using c assms(1) by (intro rune_chunks_low_list [of cm "bytes s" m]) auto
  then have "bytes s = concat (map snd ca) @ bytes m @ concat (map snd cb)"
    using rune_chunks_concat [of "bytes s"] c(1) by simp
  then have "unbytes (bytes s) = unbytes (concat (map snd ca)) @ m @ unbytes (concat (map snd cb))"
    by (simp only: unbytes_def map_append) (simp flip: unbytes_def)
  then show "\<exists>a b. s = a @ m @ b" by auto
next
  assume "\<exists>a b. s = a @ m @ b"
  then obtain a b where s: "s = a @ m @ b" by blast
  obtain c m' where m: "m = c # m'" using assms(2) by (cases m) auto
  have "to_runes s = to_runes a @ asc m @ to_runes b"
    using assms(1) to_runes_ascii_at [of c a "m' @ b"] to_runes_ascii_prefix [of m' b] by (simp add: s m ascii_def asc_def)
  then show "\<exists>ra rb. to_runes s = ra @ asc m @ rb" by blast
qed

text \<open>A pattern without assertions, as a statement about the bytes of the text.\<close>

lemma match_string_words:
  assumes "plain_rx r"
  shows "match_string r s \<longleftrightarrow> (\<exists>ra w rb. to_runes s = ra @ w @ rb \<and> w \<in> words r)"
proof -
  have "find_here r pv b \<noteq> None \<longleftrightarrow> (\<exists>w rb. b = w @ rb \<and> w \<in> words r)" for pv b
    using reach_words [OF assms, of pv b "[]"] unfolding find_here_None_iff reach_def
    by (metis prod_cases3)
  then show ?thesis unfolding match_string_def match_from_iff by metis
qed

lemma match_string_ascii:
  assumes "plain_rx r" "\<And>w. w \<in> words r \<Longrightarrow> w \<noteq> [] \<and> (\<forall>x \<in> set w. x < 128)"
  shows "match_string r s \<longleftrightarrow> (\<exists>a m b. s = a @ m @ b \<and> asc m \<in> words r)"
proof -
  have w: "\<exists>m. w = asc m \<and> ascii m \<and> m \<noteq> []" if "w \<in> words r" for w
  proof (intro exI conjI)
    show "w = asc (unbytes w)" using assms(2) [OF that] by (auto simp: asc_def unbytes_def intro!: map_idI [symmetric])
    show "ascii (unbytes w)" using assms(2) [OF that] by (auto simp: ascii_def unbytes_def)
    show "unbytes w \<noteq> []" using assms(2) [OF that] by (auto simp: unbytes_def)
  qed
  have "ascii m \<and> m \<noteq> []" if "asc m \<in> words r" for m
    using assms(2) [OF that] by (auto simp: ascii_def asc_def)
  then show ?thesis
    unfolding match_string_words [OF assms(1)] using w ascii_infix by (metis (no_types, lifting))
qed


section \<open>The secret rules\<close>

text \<open>A text with a prefix in it that is followed by so many characters of a kind.\<close>

definition token :: "string \<Rightarrow> (rune \<Rightarrow> bool) \<Rightarrow> nat \<Rightarrow> string \<Rightarrow> bool" where
  "token p C n t \<longleftrightarrow> (\<exists>a k b. t = a @ p @ k @ b \<and> length k = n \<and> list_all (\<lambda>c. C (of_char c)) k)"

lemma match_token:
  assumes "ascii p" "\<And>r. C r \<Longrightarrow> r < 128" "0 < n" "hi = None \<or> hi = Some n"
  shows "match_string (Seq (lit p) (Rep C n hi)) t = token p C n t"
proof -
  have w: "w \<in> words (Seq (lit p) (Rep C n hi)) \<longleftrightarrow> (\<exists>k. w = asc p @ k \<and> list_all C k \<and> n \<le> length k \<and> (\<forall>h. hi = Some h \<longrightarrow> length k \<le> h))" for w
    by (auto simp: words_lit)
  have "match_string (Seq (lit p) (Rep C n hi)) t \<longleftrightarrow> (\<exists>a m b. t = a @ m @ b \<and> asc m \<in> words (Seq (lit p) (Rep C n hi)))"
  proof (rule match_string_ascii)
    fix v assume "v \<in> words (Seq (lit p) (Rep C n hi))"
    then show "v \<noteq> [] \<and> (\<forall>x \<in> set v. x < 128)"
      unfolding w using assms by (auto simp: list_all_iff ascii_def asc_def)
  qed simp
  also have "\<dots> \<longleftrightarrow> token p C n t"
  proof
    assume "\<exists>a m b. t = a @ m @ b \<and> asc m \<in> words (Seq (lit p) (Rep C n hi))"
    then obtain a m b k where t: "t = a @ m @ b" and k: "asc m = asc p @ k" "list_all C k" "n \<le> length k"
      unfolding w by blast
    obtain q l where m: "m = q @ l" "asc q = asc p" "asc l = k"
      using k(1) unfolding asc_def by (metis map_eq_append_conv)
    have "q = p" using m(2) by (metis asc_def bytes_def unbytes_bytes)
    have "t = a @ p @ take n l @ (drop n l @ b)" using t m \<open>q = p\<close> by simp
    moreover have "length (take n l) = n" using m(3) k(3) by (auto simp: asc_def)
    moreover have "list_all (\<lambda>c. C (of_char c)) (take n l)"
      using m(3) k(2) by (auto simp: asc_def list_all_iff dest: in_set_takeD)
    ultimately show "token p C n t" unfolding token_def by blast
  next
    assume "token p C n t"
    then obtain a k b where t: "t = a @ p @ k @ b" "length k = n" "list_all (\<lambda>c. C (of_char c)) k"
      unfolding token_def by blast
    then have "asc (p @ k) \<in> words (Seq (lit p) (Rep C n hi))"
      unfolding w using assms(4) by (auto simp: asc_def list_all_iff)
    then show "\<exists>a m b. t = a @ m @ b \<and> asc m \<in> words (Seq (lit p) (Rep C n hi))"
      using t(1) by (metis append.assoc)
  qed
  finally show ?thesis .
qed


lemma unbytes_asc: "unbytes (asc s) = s"
  by (metis asc_def bytes_def unbytes_bytes)

lemma unbytes_append: "unbytes (xs @ ys) = unbytes xs @ unbytes ys"
  by (simp add: unbytes_def)

lemma words_github:
  "words (Seq (lit ''gh'') (Seq (Cls (\<lambda>r. r \<in> {112, 111, 117, 115, 114})) (Seq (lit ''_'') q))) =
   (\<Union>x \<in> set ''pousr''. words (Seq (lit (''gh'' @ [x] @ ''_'')) q))"
proof -
  have "words (Seq (Cls c) r) = {x # v |x v. c x \<and> v \<in> words r}" for c r
    by auto (metis append_Cons append_Nil)
  moreover have "words (Seq (lit ''gh'') r) = {103 # 104 # v |v. v \<in> words r}" for r
    by (auto simp: words_lit asc_def)
  moreover have "words (Seq (lit ''_'') r) = {95 # v |v. v \<in> words r}" for r
    by (auto simp: words_lit asc_def)
  moreover have "words (Seq (lit (''gh'' @ [x] @ ''_'')) r) = {103 # 104 # of_char x # 95 # v |v. v \<in> words r}" for x r
    by (auto simp: words_lit asc_def)
  ultimately show ?thesis by (simp only:) auto
qed

lemma match_github:
  "match_string (Seq (lit ''gh'') (Seq (Cls (\<lambda>r. r \<in> {112, 111, 117, 115, 114})) (Seq (lit ''_'') (Rep word_rune 20 None)))) t
   \<longleftrightarrow> (\<exists>x \<in> set ''pousr''. token (''gh'' @ [x] @ ''_'') word_rune 20 t)"
  (is "match_string ?r t \<longleftrightarrow> _")
proof -
  have "plain_rx ?r" "plain_rx (Seq (lit p) (Rep word_rune 20 None))" for p by simp_all
  note m = match_string_words [OF this(1)] match_string_words [OF this(2)]
  have "match_string ?r t \<longleftrightarrow> (\<exists>x \<in> set ''pousr''. match_string (Seq (lit (''gh'' @ [x] @ ''_'')) (Rep word_rune 20 None)) t)"
    unfolding m words_github by blast
  moreover have "match_string (Seq (lit (''gh'' @ [x] @ ''_'')) (Rep word_rune 20 None)) t = token (''gh'' @ [x] @ ''_'') word_rune 20 t"
    if "x \<in> set ''pousr''" for x
    using that by (intro match_token) (auto simp: ascii_def word_rune_def is_alnum_def is_digit_def is_upper_def is_lower_def)
  ultimately show ?thesis by blast
qed

definition pem_block :: "string \<Rightarrow> bool" where
  "pem_block t \<longleftrightarrow> (\<exists>a k b. t = a @ ''-----BEGIN '' @ k @ ''-----'' @ b \<and> k \<noteq> [] \<and>
     list_all (\<lambda>c. upper_digit (of_char c) \<or> c = CHR '' '') k)"

definition pem_rx :: rx where
  "pem_rx = Seq (lit ''-----BEGIN '') (Seq (Rep (\<lambda>r. upper_digit r \<or> r = 32) 1 None) (lit ''-----''))"

definition pem_rune :: "rune \<Rightarrow> bool" where
  "pem_rune r \<longleftrightarrow> upper_digit r \<or> r = 32"

lemma pem_rune_low: "pem_rune r \<Longrightarrow> r < 128"
  by (auto simp: pem_rune_def upper_digit_def is_upper_def is_digit_def)

lemma pem_rune_char: "pem_rune (of_char c) \<longleftrightarrow> upper_digit (of_char c) \<or> c = CHR '' ''"
proof -
  have "of_char (CHR '' '') = (32 :: nat)" by simp
  then have "of_char c = (32 :: nat) \<longleftrightarrow> c = CHR '' ''" by (metis of_char_eq_iff)
  then show ?thesis by (simp add: pem_rune_def)
qed

lemma words_pem:
  "w \<in> words pem_rx \<longleftrightarrow> (\<exists>k. w = asc ''-----BEGIN '' @ k @ asc ''-----'' \<and> k \<noteq> [] \<and> list_all pem_rune k)"
  unfolding pem_rx_def pem_rune_def by (auto simp: words_lit Suc_le_eq)

lemma asc_low: "ascii s \<Longrightarrow> x \<in> set (asc s) \<Longrightarrow> x < 128"
  by (auto simp: asc_def ascii_def)

lemma words_pem_low:
  assumes "w \<in> words pem_rx"
  shows "w \<noteq> [] \<and> (\<forall>x \<in> set w. x < 128)"
proof -
  obtain k where k: "w = asc ''-----BEGIN '' @ k @ asc ''-----''" "k \<noteq> []" "list_all pem_rune k"
    using assms words_pem by blast
  have "ascii ''-----BEGIN ''" "ascii ''-----''" by (simp_all add: ascii_def)
  then show ?thesis using k asc_low pem_rune_low by (auto simp only: set_append list_all_iff)
qed

lemma match_pem: "match_string pem_rx t = pem_block t"
proof -
  have "plain_rx pem_rx" by (simp add: pem_rx_def)
  then have "match_string pem_rx t \<longleftrightarrow> (\<exists>a m b. t = a @ m @ b \<and> asc m \<in> words pem_rx)"
    using words_pem_low by (rule match_string_ascii)
  also have "\<dots> \<longleftrightarrow> pem_block t"
  proof
    assume "\<exists>a m b. t = a @ m @ b \<and> asc m \<in> words pem_rx"
    then obtain a m b k where t: "t = a @ m @ b"
      and k: "asc m = asc ''-----BEGIN '' @ k @ asc ''-----''" "k \<noteq> []" "list_all pem_rune k"
      unfolding words_pem by blast
    have "unbytes (asc m) = unbytes (asc ''-----BEGIN '' @ k @ asc ''-----'')" by (simp only: k(1))
    then have m: "m = ''-----BEGIN '' @ unbytes k @ ''-----''" by (simp only: unbytes_append unbytes_asc)
    have "pem_rune (of_char (char_of r :: char))" if "r \<in> set k" for r
    proof -
      have "pem_rune r" using that k(3) by (simp add: list_all_iff)
      moreover from this have "r < 256" using pem_rune_low by fastforce
      ultimately show ?thesis by simp
    qed
    then have "list_all (\<lambda>c. pem_rune (of_char c)) (unbytes k)" by (simp add: list_all_iff unbytes_def)
    moreover have "unbytes k \<noteq> []" using k(2) by (simp add: unbytes_def)
    moreover have "t = a @ ''-----BEGIN '' @ unbytes k @ ''-----'' @ b" unfolding t m by (simp only: append.assoc)
    ultimately show "pem_block t" unfolding pem_block_def pem_rune_char by blast
  next
    assume "pem_block t"
    then obtain a k b where t: "t = a @ ''-----BEGIN '' @ k @ ''-----'' @ b" "k \<noteq> []"
      "list_all (\<lambda>c. pem_rune (of_char c)) k" unfolding pem_block_def pem_rune_char by blast
    have "list_all pem_rune (asc k)" "asc k \<noteq> []" using t(2,3) by (simp_all add: asc_def list_all_iff)
    moreover have "asc (''-----BEGIN '' @ k @ ''-----'') = asc ''-----BEGIN '' @ asc k @ asc ''-----''"
      unfolding asc_def by (simp only: map_append)
    ultimately have "asc (''-----BEGIN '' @ k @ ''-----'') \<in> words pem_rx" unfolding words_pem by blast
    moreover have "t = a @ (''-----BEGIN '' @ k @ ''-----'') @ b" unfolding t by (simp only: append.assoc)
    ultimately show "\<exists>a m b. t = a @ m @ b \<and> asc m \<in> words pem_rx" by blast
  qed
  finally show ?thesis .
qed

text \<open>
  The rules for secrets, as statements about the bytes of a line: a key of Amazon is anywhere in it
  where the prefix is followed by sixteen capitals or digits, a token of GitHub or OpenAI where one of
  their prefixes is followed by twenty characters of its kind, whatever the bytes around it.
\<close>

theorem secret_rules_spec:
  "map (\<lambda>(detail, pattern). (detail, match_string pattern t)) addedSecretRules =
     [(''possible AWS access key'', token ''AKIA'' upper_digit 16 t),
      (''possible GitHub token'', \<exists>x \<in> set ''pousr''. token (''gh'' @ [x] @ ''_'') word_rune 20 t),
      (''possible GitHub fine-grained token'', token ''github_pat_'' word_rune 20 t),
      (''possible OpenAI API key'', token ''sk-'' (\<lambda>r. word_rune r \<or> r = 45) 20 t),
      (''PEM private material'', pem_block t)]"
proof -
  have "match_string (Seq (lit ''AKIA'') (Rep upper_digit 16 (Some 16))) t = token ''AKIA'' upper_digit 16 t"
    by (intro match_token) (auto simp: ascii_def upper_digit_def is_upper_def is_digit_def)
  moreover have "match_string (Seq (lit ''github_pat_'') (Rep word_rune 20 None)) t = token ''github_pat_'' word_rune 20 t"
    by (intro match_token) (auto simp: ascii_def word_rune_def is_alnum_def is_digit_def is_upper_def is_lower_def)
  moreover have "match_string (Seq (lit ''sk-'') (Rep (\<lambda>r. word_rune r \<or> r = 45) 20 None)) t = token ''sk-'' (\<lambda>r. word_rune r \<or> r = 45) 20 t"
    by (intro match_token) (auto simp: ascii_def word_rune_def is_alnum_def is_digit_def is_upper_def is_lower_def)
  ultimately show ?thesis unfolding addedSecretRules_def using match_github match_pem [unfolded pem_rx_def] by simp
qed

lemma addedSecretRules_match:
  assumes "(detail, True) \<in> set (map (\<lambda>(d, r). (d, match_string r t)) addedSecretRules)"
  shows "\<exists>r. (detail, r) \<in> set addedSecretRules \<and> match_string r t"
  using assms by auto

lemma secret_listed:
  assumes "f \<in> set files" "l \<in> set (df_added f)" "(d, r) \<in> set addedSecretRules" "match_string r (al_text l)"
  shows "secret_finding f l d \<in> set (secretFindings files)"
proof -
  have "secret_finding f l d \<in> set (line_secrets f l)"
    using assms(3,4) by (force simp: line_secrets_def)
  then show ?thesis using assms(1,2) by (auto simp: secretFindings_def)
qed

lemma number_lines_nth: "i < length ls \<Longrightarrow> number_lines n ls ! i = \<lparr>al_line = int (n + i), al_text = drop_cr (ls ! i)\<rparr>"
  by (induction ls arbitrary: n i) (auto simp: nth_Cons split: nat.splits)

lemma length_number_lines [simp]: "length (number_lines n ls) = length ls"
  by (induction ls arbitrary: n) auto

lemma of_char_cr: "of_char (CHR 0x0D) = (13 :: nat)"
  by simp

lemma token_drop_cr:
  assumes "token p C n t" "n > 0" "\<not> C 13"
  shows "token p C n (drop_cr t)"
proof -
  obtain a k b where t: "t = a @ p @ k @ b" "length k = n" "list_all (\<lambda>c. C (of_char c)) k"
    using assms(1) unfolding token_def by blast
  have k: "k \<noteq> []" using t(2) assms(2) by auto
  then have "C (of_char (last k))" using t(3) by (simp add: list_all_iff)
  then have "last k \<noteq> CHR 0x0D" using assms(3) by (metis of_char_cr)
  with k have "drop_cr t = a @ p @ k @ drop_cr b"
    using drop_cr_append [of "a @ p @ k" b] by (simp add: t(1) k)
  then show ?thesis unfolding token_def using t(2,3) by blast
qed

text \<open>
  A key of Amazon that a pull request adds is reported at its file and line: for every diff that git
  prints (with names that need no quoting and no line that begins with two plus signs) and every added
  line with such a key in it, the secrets found in what the parser reads have one for it there.
\<close>

theorem added_key_reported:
  assumes "list_all change_ok cs" "c \<in> set cs" "h \<in> set (cg_hunks c)" "i < length (hk_added h)"
    and "token ''AKIA'' upper_digit 16 (hk_added h ! i)"
  shows "\<exists>files r. parseDiff (print_diff cs) = Inr files \<and> r \<in> set (secretFindings files) \<and>
    rf_rule r = ''secret'' \<and> rf_path r = cg_path c \<and> rf_line r = int (hk_start h) + int i \<and>
    rf_detail r = ''possible AWS access key'' \<and> rf_verified r"
proof (intro exI conjI)
  show "parseDiff (print_diff cs) = Inr (map read_change cs)" using assms(1) by (rule parse_printed_files)
  let ?l = "number_lines (hk_start h) (hk_added h) ! i"
  let ?r = "secret_finding (read_change c) ?l ''possible AWS access key''"
  have l: "?l = \<lparr>al_line = int (hk_start h + i), al_text = drop_cr (hk_added h ! i)\<rparr>"
    using assms(4) by (rule number_lines_nth)
  have "\<not> upper_digit 13" by (simp add: upper_digit_def is_upper_def is_digit_def)
  then have "token ''AKIA'' upper_digit 16 (al_text ?l)"
    using token_drop_cr [OF assms(5)] l by simp
  then have "match_string (Seq (lit ''AKIA'') (Rep upper_digit 16 (Some 16))) (al_text ?l)"
    by (subst match_token) (auto simp: ascii_def upper_digit_def is_upper_def is_digit_def)
  moreover have "(''possible AWS access key'', Seq (lit ''AKIA'') (Rep upper_digit 16 (Some 16))) \<in> set addedSecretRules"
    by (simp add: addedSecretRules_def)
  moreover have "read_change c \<in> set (map read_change cs)" using assms(2) by simp
  moreover have "?l \<in> set (df_added (read_change c))"
    using assms(3,4) nth_mem [of i "number_lines (hk_start h) (hk_added h)"] by (auto simp: read_change_def intro!: bexI [of _ h])
  ultimately show "?r \<in> set (secretFindings (map read_change cs))" by (intro secret_listed)
  show "rf_rule ?r = ''secret''" "rf_path ?r = cg_path c" "rf_line ?r = int (hk_start h) + int i"
    "rf_detail ?r = ''possible AWS access key''" "rf_verified ?r"
    by (simp_all add: secret_finding_def read_change_def l)
qed

section \<open>All findings\<close>

interpretation findings_order: weak_order finding_less
proof -
  have "weak_order (\<lambda>a b. byte_less (rf_detail a) (rf_detail b))"
    by (rule weak_order_key [where f = rf_detail, OF bytes_order.weak_order_axioms])
  then have "weak_order (\<lambda>a b. if rf_line a \<noteq> rf_line b then rf_line a < rf_line b
      else byte_less (rf_detail a) (rf_detail b))"
    by (rule weak_order_then [where f = rf_line, OF strict_order_less])
  then have "weak_order (\<lambda>a b. if rf_path a \<noteq> rf_path b then byte_less (rf_path a) (rf_path b)
      else if rf_line a \<noteq> rf_line b then rf_line a < rf_line b
      else byte_less (rf_detail a) (rf_detail b))"
    by (rule weak_order_then [where f = rf_path, OF bytes_order.strict_order_axioms])
  then have "weak_order (\<lambda>a b. if rf_rule a \<noteq> rf_rule b then byte_less (rf_rule a) (rf_rule b)
      else if rf_path a \<noteq> rf_path b then byte_less (rf_path a) (rf_path b)
      else if rf_line a \<noteq> rf_line b then rf_line a < rf_line b
      else byte_less (rf_detail a) (rf_detail b))"
    by (rule weak_order_then [where f = rf_rule, OF bytes_order.strict_order_axioms])
  then show "weak_order finding_less" unfolding finding_less_def [abs_def] .
qed


section \<open>The archive stays in its directory\<close>

text \<open>A part of a clean path, and the absolute path of such parts.\<close>

definition good_part :: "string \<Rightarrow> bool" where
  "good_part q \<longleftrightarrow> q \<noteq> [] \<and> q \<noteq> ''.'' \<and> q \<noteq> ''..'' \<and> slash \<notin> set q"

definition abs_path :: "string list \<Rightarrow> string" where
  "abs_path ps = ''/'' @ join ''/'' ps"

definition beneath :: "string list \<Rightarrow> string \<Rightarrow> bool" where
  "beneath ds p \<longleftrightarrow> (\<exists>qs. p = abs_path (ds @ qs) \<and> list_all good_part qs)"

lemma split_join:
  "list_all (\<lambda>q. slash \<notin> set q) ps \<Longrightarrow> ps \<noteq> [] \<Longrightarrow> split_when (\<lambda>c. c = slash) (join ''/'' ps) = ps"
proof (induction ps)
  case (Cons q ps)
  show ?case
  proof (cases "ps = []")
    case True
    then show ?thesis using Cons.prems by (auto intro!: split_when_none)
  next
    case False
    then have "join ''/'' (q # ps) = q @ slash # join ''/'' ps" by (simp add: join_Cons slash_def)
    then show ?thesis using Cons False by (simp, subst split_when_front) auto
  qed
qed simp

lemma clean_parts_good:
  "list_all good_part ps \<Longrightarrow> clean_parts rooted acc ps = rev acc @ ps"
  by (induction ps arbitrary: acc) (auto simp: good_part_def)

lemma clean_abs_path: "list_all good_part ps \<Longrightarrow> clean_path (abs_path ps) = abs_path ps"
proof -
  assume ps: "list_all good_part ps"
  have s: "list_all (\<lambda>q. slash \<notin> set q) ps" using ps by (auto simp: list_all_iff good_part_def)
  have a: "is_abs (abs_path ps)" by (simp add: is_abs_def abs_path_def has_prefix_def)
  have "clean_parts True [] (split_when (\<lambda>c. c = slash) (abs_path ps)) = ps"
    using ps split_join [OF s] by (cases "ps = []") (simp_all add: abs_path_def slash_def [symmetric] clean_parts_good)
  then show ?thesis using a by (simp add: clean_path_def) (simp add: abs_path_def)
qed

text \<open>A clean relative path is some double dots and then good parts.\<close>

lemma clean_parts_shape:
  "list_all (\<lambda>q. slash \<notin> set q) ps \<Longrightarrow> rev acc = replicate k ''..'' @ gs \<Longrightarrow> list_all good_part gs \<Longrightarrow>
   \<exists>k' gs'. clean_parts False acc ps = replicate k' ''..'' @ gs' \<and> list_all good_part gs'"
proof (induction ps arbitrary: acc k gs)
  case Nil
  then show ?case by auto
next
  case (Cons p ps)
  consider (skip) "p = [] \<or> p = ''.''" | (up) "p = ''..''" | (part) "good_part p"
    using Cons.prems(1) by (auto simp: good_part_def)
  then show ?case
  proof cases
    case skip
    then show ?thesis using Cons by simp
  next
    case up
    show ?thesis
    proof (cases "gs = []")
      case True
      then have acc: "acc = replicate k ''..''" using Cons.prems(2) by (metis append_Nil2 rev_replicate rev_rev_ident)
      then have "\<not> (acc \<noteq> [] \<and> hd acc \<noteq> ''..'')" by (cases k) auto
      then have "clean_parts False acc (p # ps) = clean_parts False (p # acc) ps" using up by auto
      moreover have "rev (p # acc) = replicate (Suc k) ''..'' @ []" using acc up by (simp add: replicate_append_same)
      ultimately show ?thesis using Cons.IH [of "p # acc" "Suc k" "[]"] Cons.prems(1) by simp
    next
      case False
      then obtain gs' g where gs: "gs = gs' @ [g]" by (metis append_butlast_last_id)
      then have acc: "acc = g # rev (replicate k ''..'' @ gs')" using Cons.prems(2) by (metis append.assoc rev.simps(2) rev_rev_ident rev_append append_Cons append_Nil rev_singleton_conv)
      have "g \<noteq> ''..''" using Cons.prems(3) gs by (simp add: good_part_def)
      then have "clean_parts False acc (p # ps) = clean_parts False (tl acc) ps" using up acc by simp
      moreover have "rev (tl acc) = replicate k ''..'' @ gs'" using acc by simp
      ultimately show ?thesis using Cons.IH [of "tl acc" k gs'] Cons.prems gs by simp
    qed
  next
    case part
    then have "clean_parts False acc (p # ps) = clean_parts False (p # acc) ps" by (auto simp: good_part_def)
    moreover have "rev (p # acc) = replicate k ''..'' @ (gs @ [p])" using Cons.prems(2) by simp
    ultimately show ?thesis using Cons.IH [of "p # acc" k "gs @ [p]"] Cons.prems part by simp
  qed
qed

lemma safe_entry:
  assumes "\<not> unsafe_entry name"
  obtains qs where "clean_path name = join ''/'' qs" "qs \<noteq> []" "list_all good_part qs"
proof -
  let ?ps = "split_when (\<lambda>c. c = slash) name"
  note safe = assms [unfolded unsafe_entry_def Let_def]
  have rel: "\<not> is_abs name"
    using safe by (auto simp: clean_path_def Let_def is_abs_def has_prefix_def)
  have "list_all (\<lambda>q. slash \<notin> set q) ?ps" using split_when_no_sep by (fastforce simp: list_all_iff)
  then obtain k gs where qs: "clean_parts False [] ?ps = replicate k ''..'' @ gs" "list_all good_part gs"
    using clean_parts_shape [of ?ps "[]" 0 "[]"] by auto
  have c: "clean_path name = (if join ''/'' (replicate k ''..'' @ gs) = [] then ''.'' else join ''/'' (replicate k ''..'' @ gs))"
    using rel qs(1) by (simp add: clean_path_def Let_def)
  have "k = 0"
  proof (rule ccontr)
    assume "k \<noteq> 0"
    then obtain j where k: "k = Suc j" by (cases k) auto
    let ?rest = "replicate j ''..'' @ gs"
    have "clean_path name = (if ?rest = [] then ''..'' else ''../'' @ join ''/'' ?rest)"
      using c by (auto simp: k join_Cons)
    then show False using safe by (auto simp: has_prefix_def split: if_splits)
  qed
  then have "clean_path name = join ''/'' gs" "gs \<noteq> []"
    using c safe by (auto split: if_splits)
  then show ?thesis using that qs(2) by blast
qed


lemma join_append_part: "xs \<noteq> [] \<Longrightarrow> ys \<noteq> [] \<Longrightarrow> join sep (xs @ ys) = join sep xs @ sep @ join sep ys"
proof (induction xs)
  case (Cons x xs)
  then show ?case by (cases "xs = []") (simp_all add: join_Cons)
qed simp

lemma filepath_join_beneath:
  assumes "list_all good_part ds" "ds \<noteq> []" "list_all good_part qs" "qs \<noteq> []"
  shows "filepath_join [abs_path ds, join ''/'' qs] = abs_path (ds @ qs)"
proof -
  obtain q qs' where q: "qs = q # qs'" "q \<noteq> []" using assms(3,4) by (cases qs) (auto simp: good_part_def)
  have "join ''/'' qs \<noteq> []" using q by (cases qs') auto
  then have "filepath_join [abs_path ds, join ''/'' qs] = clean_path (abs_path (ds @ qs))"
    using assms(2,4) by (simp add: filepath_join_def abs_path_def join_append_part)
  also have "\<dots> = abs_path (ds @ qs)" using assms by (intro clean_abs_path) simp
  finally show ?thesis .
qed

lemma dir_name_abs:
  assumes "list_all good_part ps" "good_part q"
  shows "dir_name (abs_path (ps @ [q])) = abs_path ps"
proof -
  let ?front = "if ps = [] then ''/'' else abs_path ps @ ''/''"
  have q: "list_all (\<lambda>c. c \<noteq> slash) (rev q)" using assms(2) by (auto simp: good_part_def list_all_iff)
  have "abs_path (ps @ [q]) = ?front @ q" by (simp add: abs_path_def join_append_part)
  moreover have "rev (?front @ q) = rev q @ rev ?front" by simp
  moreover have "dropWhile (\<lambda>c. c \<noteq> slash) (rev q @ rev ?front) = rev ?front"
  proof -
    have "dropWhile (\<lambda>c. c \<noteq> slash) (rev q @ rev ?front) = dropWhile (\<lambda>c. c \<noteq> slash) (rev ?front)"
      using q by (intro dropWhile_append2) (simp add: list_all_iff)
    also have "\<dots> = rev ?front" by (simp add: slash_def)
    finally show ?thesis .
  qed
  ultimately have "rev (dropWhile (\<lambda>c. c \<noteq> slash) (rev (abs_path (ps @ [q])))) = ?front" by (simp only: rev_rev_ident)
  then have d: "dir_name (abs_path (ps @ [q])) = clean_path ?front" by (simp only: dir_name_def)
  have s: "split_when (\<lambda>c. c = slash) (join ''/'' ps @ ''/'') = ps @ [[]]" if "ps \<noteq> []"
    using split_join [of "ps @ [[]]"] assms(1) that by (auto simp: join_append_part list_all_iff good_part_def)
  have "clean_parts True acc (ps @ [[]]) = rev acc @ ps" for acc
    using assms(1) by (induction ps arbitrary: acc) (auto simp: good_part_def)
  then have "clean_path ?front = abs_path ps"
    using s by (cases "ps = []") (simp_all add: clean_path_def is_abs_def has_prefix_def abs_path_def slash_def)
  then show ?thesis using d by simp
qed

fun write_path :: "fs_write \<Rightarrow> string" where
  "write_path (MadeDir p) = p"
| "write_path (Wrote p _) = p"

definition writes_beneath :: "string list \<Rightarrow> fs_write list \<Rightarrow> fs_write list \<Rightarrow> bool" where
  "writes_beneath ds ws ws' \<longleftrightarrow> (\<exists>new. ws' = ws @ new \<and> list_all (\<lambda>x. beneath ds (write_path x)) new)"

lemma writes_beneath_refl: "writes_beneath ds ws ws"
  by (simp add: writes_beneath_def)

lemma writes_beneath_trans: "writes_beneath ds a b \<Longrightarrow> writes_beneath ds b c \<Longrightarrow> writes_beneath ds a c"
  by (auto simp: writes_beneath_def)

lemma keeps_fs_do: "beneath ds (write_path x) \<Longrightarrow> keeps (writes_beneath ds) (fs_do R name x)"
  by (rule keepsI) (auto simp: fs_do_def writes_beneath_def split: if_splits)

lemma keeps_extract_entry:
  assumes "list_all good_part ds" "ds \<noteq> []"
  shows "keeps (writes_beneath ds) (extract_entry R (abs_path ds) e)"
proof (cases "unsafe_entry (te_name e)")
  case True
  then show ?thesis by (simp add: extract_entry_def keeps_efail writes_beneath_refl)
next
  case False
  then obtain qs where qs: "clean_path (te_name e) = join ''/'' qs" "qs \<noteq> []" "list_all good_part qs"
    by (rule safe_entry)
  then have p: "filepath_join [abs_path ds, clean_path (te_name e)] = abs_path (ds @ qs)"
    using filepath_join_beneath assms by simp
  obtain rs q where rs: "qs = rs @ [q]" using qs(2) by (metis append_butlast_last_id)
  then have "dir_name (abs_path (ds @ qs)) = abs_path (ds @ rs)"
    using dir_name_abs [of "ds @ rs" q] assms(1) qs(3) by simp
  moreover have "beneath ds (abs_path (ds @ rs))" "beneath ds (abs_path (ds @ qs))"
    using qs(3) rs by (auto simp: beneath_def)
  ultimately show ?thesis
    using False p writes_beneath_refl writes_beneath_trans
    by (cases "te_type e") (auto simp: extract_entry_def Let_def intro!: keeps_fs_do keeps_eret keeps_ebind)
qed

lemma keeps_extract_entries:
  assumes "list_all good_part ds" "ds \<noteq> []"
  shows "keeps (writes_beneath ds) (extract_entries R (abs_path ds) whole es)"
proof (induction es)
  case Nil
  then show ?case by (simp add: keeps_eret keeps_efail writes_beneath_refl)
next
  case (Cons e es)
  then show ?case using keeps_extract_entry [OF assms] writes_beneath_trans by (auto intro!: keeps_ebind)
qed

text \<open>
  C29: Whatever the archive of the base holds, nothing is written outside the directory made for it: every
  directory and file made while it is unpacked, also when that fails, has that directory's path and
  good parts behind it, so no entry climbs out of it.
\<close>

theorem archive_contained:
  assumes "list_all good_part ds" "ds \<noteq> []"
    and "extract_archive R (abs_path ds) archive [] = (r, ws)"
  shows "list_all (\<lambda>x. beneath ds (write_path x)) ws"
proof -
  have "keeps (writes_beneath ds) (extract_archive R (abs_path ds) archive)"
    using keeps_extract_entries [OF assms(1,2)] by (simp add: extract_archive_def split: prod.splits)
  from keepsD [OF this assms(3)] show ?thesis by (auto simp: writes_beneath_def)
qed

section \<open>Vulnerabilities and manifests\<close>

lemma map_of_new_vulns:
  "map_of (new_vulns base fs) k =
     (if k \<in> key_of ` set base \<or> k \<notin> key_of ` set fs then None else Some (last (filter (\<lambda>f. key_of f = k) fs)))"
proof (induction fs rule: rev_induct)
  case Nil
  then show ?case by (simp add: new_vulns_def)
next
  case (snoc f fs)
  have step: "new_vulns base (fs @ [f]) = (if key_of f \<in> key_of ` set base then new_vulns base fs
      else AList.update (key_of f) f (new_vulns base fs))"
    by (simp add: new_vulns_def)
  show ?case unfolding step using snoc by (auto simp: update_conv')
qed

lemma distinct_new_vulns: "distinct (map fst (new_vulns base fs))"
  by (induction fs rule: rev_induct) (simp_all add: new_vulns_def distinct_update)

lemma keys_new_vulns: "set (map fst (new_vulns base fs)) = key_of ` set fs - key_of ` set base"
proof -
  have "k \<in> fst ` set (new_vulns base fs) \<longleftrightarrow> map_of (new_vulns base fs) k \<noteq> None" for k
    by (metis map_of_eq_None_iff)
  then have "k \<in> fst ` set (new_vulns base fs) \<longleftrightarrow> k \<in> key_of ` set fs - key_of ` set base" for k
    unfolding map_of_new_vulns by (simp split: if_split)
  then show ?thesis unfolding set_map by blast
qed

interpretation keys_order: strict_order "(<) :: osv_key \<Rightarrow> osv_key \<Rightarrow> bool"
  by (rule strict_order_less)

lemma order_by_keys: "distinct ks \<Longrightarrow> order_by (<) ks = sorted_list_of_set (set ks)" for ks :: "osv_key list"
  using sorted_list_of_set_unique [of "set ks" "order_by (<) ks"]
  by (simp add: keys_order.strictly_sorted distinct_card [symmetric] mset_eq_length [OF mset_order_by])

text \<open>
  C31: The vulnerabilities reported are those of the head whose key the base does not have, each key once,
  in the order of their keys, each as the last finding of the scan with that key has it.
\<close>

theorem osv_delta_is_difference:
  "osv_delta path base fs =
     map (\<lambda>k. osv_delta_finding path (last (filter (\<lambda>f. key_of f = k) fs)))
       (sorted_list_of_set (key_of ` set fs - key_of ` set base))"
proof -
  have "set (order_by (<) (map fst (new_vulns base fs))) = key_of ` set fs - key_of ` set base"
    using keys_new_vulns [of base fs] by (simp only: set_order_by)
  moreover have "order_by (<) (map fst (new_vulns base fs)) = sorted_list_of_set (key_of ` set fs - key_of ` set base)"
    using order_by_keys [OF distinct_new_vulns] keys_new_vulns by metis
  ultimately show ?thesis
    unfolding osv_delta_def Let_def by (auto simp: map_of_new_vulns)
qed

text \<open>A \<open>go.mod\<close> with a line that does not fit the scanner is read up to that line, without an error.\<close>

lemma go_mod_cut:
  assumes "list_all (\<lambda>l. CHR 0x0A \<notin> set l) (ls @ l # rest)" "list_all (\<lambda>l. length l < max_scan_token) ls" "max_scan_token \<le> length l"
  shows "parseGoMod (print_lines (ls @ l # rest)) = parseGoMod (print_lines ls)"
proof -
  have 1: "takeWhile (\<lambda>l. length l < max_scan_token) ls = ls"
    using assms(2) by (subst takeWhile_eq_all_conv) (simp add: list_all_iff)
  have 2: "takeWhile (\<lambda>l. length l < max_scan_token) (ls @ l # rest) = ls"
    using assms(2,3) by (subst takeWhile_append2) (auto simp: list_all_iff)
  have 3: "text_lines (print_lines ls) = ls" "text_lines (print_lines (ls @ l # rest)) = ls @ l # rest"
    using assms(1) by (auto intro: text_lines_print)
  show ?thesis unfolding parseGoMod_def scan_lines_def Let_def 3 fst_conv 1 2 ..
qed

section \<open>Instances\<close>

lemma added_key_reported_witness:
  "\<exists>files r. parseDiff (print_diff [new_line ''main.go'' ''AKIA0123456789ABCDEF'']) = Inr files \<and> r \<in> set (secretFindings files) \<and>
    rf_rule r = ''secret'' \<and> rf_path r = ''main.go'' \<and> rf_line r = 1 \<and> rf_detail r = ''possible AWS access key'' \<and> rf_verified r"
proof -
  let ?t = "''AKIA0123456789ABCDEF''"
  let ?c = "new_line ''main.go'' ?t"
  let ?h = "\<lparr>hk_old = ''-0,0'', hk_start = 1, hk_context = [], hk_removed = [], hk_added = [?t]\<rparr>"
  have "change_ok ?c" by (rule new_line_ok) (simp_all add: main_go has_prefix_def)
  then have "list_all change_ok [?c]" by simp
  moreover have "?c \<in> set [?c]" "?h \<in> set (cg_hunks ?c)" "0 < length (hk_added ?h)" by (simp_all add: new_line_def)
  moreover have "token ''AKIA'' upper_digit 16 (hk_added ?h ! 0)"
    unfolding token_def
    by (rule exI [of _ "[]"], rule exI [of _ "''0123456789ABCDEF''"], rule exI [of _ "[]"])
       (simp add: upper_digit_def is_upper_def is_digit_def)
  ultimately obtain files r where "parseDiff (print_diff [?c]) = Inr files" "r \<in> set (secretFindings files)"
    "rf_rule r = ''secret''" "rf_path r = cg_path ?c" "rf_line r = int (hk_start ?h) + int 0"
    "rf_detail r = ''possible AWS access key''" "rf_verified r"
    using added_key_reported by blast
  then show ?thesis by (intro exI [of _ files] exI [of _ r]) (simp add: new_line_def)
qed

lemma archive_contained_witness:
  "list_all (\<lambda>x. beneath [''tmp'', ''base''] (write_path x))
     [MadeDir ''/tmp/base/src'', Wrote ''/tmp/base/src/main.go'' ''x'']"
proof -
  let ?R = "\<lparr>re_read = (\<lambda>_. NotExist), re_temp = None,
    re_untar = (\<lambda>_. ([\<lparr>te_name = ''src/main.go'', te_type = TarFile, te_content = ''x''\<rparr>], True)),
    re_writable = (\<lambda>_. True), re_spawn = (\<lambda>_ _ _. NotRun)\<rparr>"
  have "extract_archive ?R (abs_path [''tmp'', ''base'']) [] [] =
      (Inr (), [MadeDir ''/tmp/base/src'', Wrote ''/tmp/base/src/main.go'' ''x''])" by code_simp
  moreover have "list_all good_part [''tmp'', ''base'']" "[''tmp'', ''base''] \<noteq> []"
    by (simp_all add: good_part_def slash_def)
  ultimately show ?thesis using archive_contained by blast
qed

definition empty_diff :: outside where
  "empty_diff = \<lparr>o_db = (\<lambda>_. Healthy), o_gh = (\<lambda>_ _ _. undefined), o_git = (\<lambda>_ _. Some []),
     o_clock = (\<lambda>_. 0), o_pages = 1\<rparr>"

definition no_scanner :: review_env where
  "no_scanner = \<lparr>re_read = (\<lambda>_. NotExist), re_temp = None, re_untar = (\<lambda>_. ([], True)),
     re_writable = (\<lambda>_. True), re_spawn = (\<lambda>_ _ _. NotRun)\<rparr>"


end
