(* ===== verification/Host.thy ===== *)
theory Host
  imports Review Runtime
begin

text \<open>
  The machine a worker or a scan runs on: its processes, files and environment, as functions of the number of
  interactions with the outside so far, and the effect that asks it. \<open>ho_message\<close> is the text of an
  error, \<open>ho_float\<close> what \<open>strconv.ParseFloat\<close> makes of a number, in the smallest unit a report carries, and
  \<open>ho_print\<close> is \<open>strconv.IsPrint\<close>.
\<close>

record host =
  ho_spawn :: "nat \<Rightarrow> string \<Rightarrow> string list \<Rightarrow> string \<Rightarrow> exit_status"
  ho_shell :: "nat \<Rightarrow> string \<Rightarrow> string \<Rightarrow> bool \<times> string"   \<comment> \<open>directory, command: whether it exited with zero in time, its combined text\<close>
  ho_pi :: "nat \<Rightarrow> string \<Rightarrow> string list \<Rightarrow> string \<Rightarrow> string list \<Rightarrow> string option"   \<comment> \<open>the agent's process: binary, arguments, directory, environment; all it will write\<close>
  ho_pi_takes :: "nat \<Rightarrow> bool"     \<comment> \<open>whether it takes a line\<close>
  ho_in_time :: "nat \<Rightarrow> bool"      \<comment> \<open>whether an answer is there before the timer fires\<close>
  ho_pi_exits :: "nat \<Rightarrow> bool"     \<comment> \<open>whether it exits with zero\<close>
  ho_is_file :: "nat \<Rightarrow> string \<Rightarrow> bool"
  ho_read :: "nat \<Rightarrow> string \<Rightarrow> string option"
  ho_mkdir :: "nat \<Rightarrow> string \<Rightarrow> bool"
  ho_temp :: "nat \<Rightarrow> string \<Rightarrow> string option"
  ho_message :: "nat \<Rightarrow> string"
  ho_environ :: "string list"
  ho_float :: "rune list \<Rightarrow> int option"
  ho_print :: "rune \<Rightarrow> bool"

definition observe :: "(nat \<Rightarrow> 'a) \<Rightarrow> (world, 'e, 'a) eff" where
  "observe f w = (Inr (f (w_tick w)), tick w)"

text \<open>\<open>os.Getenv\<close>: the value of the first entry of a name, empty when there is none.\<close>

definition getenv :: "string list \<Rightarrow> string \<Rightarrow> string" where
  "getenv env k = (case find (\<lambda>kv. has_prefix kv (k @ ''='')) env of None \<Rightarrow> [] | Some kv \<Rightarrow> drop (length k + 1) kv)"

lemma observe_quiet [trace_intros]: "logs P (observe f)" "db_still (observe f)"
  by (rule logsI, auto simp: observe_def intro: adds_same, rule db_stillI, auto simp: observe_def)

lemma observe_eq: "observe f w = (r, v) \<longleftrightarrow> r = Inr (f (w_tick w)) \<and> v = tick w"
  by (auto simp: observe_def)

lemma git_eq: "git E args w = (r, v) \<longleftrightarrow> r = (case o_git E (w_tick w) args of None \<Rightarrow> Inl () | Some x \<Rightarrow> Inr x) \<and> v = tick w"
  by (auto simp: git_def)

end
