(* ===== verification/Verifier.thy ===== *)
theory Verifier
  imports Host GoSort
begin

text \<open>
  The external verifier (\<open>internal/verifier\<close>): what it checks of a worktree, the signature of its
  failures and the text that is fed back to the agent. Time limits are part of what a process answers.
\<close>

section \<open>Types\<close>

definition RuleUncommitted :: string where [string_consts]: "RuleUncommitted = ''uncommitted_changes''"
definition RuleVulnPresent :: string where [string_consts]: "RuleVulnPresent = ''vuln_still_present''"
definition RuleTestFailed :: string where [string_consts]: "RuleTestFailed = ''test_failed''"
definition RuleScannerError :: string where [string_consts]: "RuleScannerError = ''scanner_error''"

record failure =
  fl_rule :: string
  fl_detail :: string
  fl_snippet :: string

record verify_result =
  vs_pass :: bool
  vs_failures :: "failure list"

text \<open>A nil field stands for its default.\<close>

record verifier =
  vf_tools :: "tool list option"
  vf_test_command :: "(string \<Rightarrow> string) option"

section \<open>Verify\<close>

text \<open>The last \<open>m\<close> bytes.\<close>

definition truncStr :: "string \<Rightarrow> nat \<Rightarrow> string" where
  "truncStr s m = (if length s \<le> m then s else drop (length s - m) s)"

definition stripBothos :: "string \<Rightarrow> string" where
  "stripBothos porcelain =
     join newline (filter (\<lambda>l. \<not> (contains l ''.bothos/'' \<or> has_prefix l ''?? .bothos/'')) (lines porcelain))"

definition uncommitted_failures :: "outside \<Rightarrow> host \<Rightarrow> string \<Rightarrow> (world, unit, failure list) eff" where
  "uncommitted_failures E H worktree =
     ebind (etry (git E [''-C'', worktree, ''status'', ''--porcelain''])) (\<lambda>r.
     case r of
       Inl _ \<Rightarrow> ebind (observe (ho_message H)) (\<lambda>m.
         eret [\<lparr>fl_rule = RuleScannerError, fl_detail = ''git status: '' @ m, fl_snippet = []\<rparr>])
     | Inr out \<Rightarrow>
         (let s = trim_space (stripBothos out) in
          eret (if s \<noteq> [] then [\<lparr>fl_rule = RuleUncommitted, fl_detail = ''worktree has uncommitted or untracked changes'',
                  fl_snippet = truncStr s 1024\<rparr>] else [])))"

text \<open>The first finding that a claimed fix should have removed is reported.\<close>

definition contradicts :: "claimed_fix \<Rightarrow> finding \<Rightarrow> bool" where
  "contradicts c f \<longleftrightarrow> f_package f = fx_package c \<and> (fx_advisory c = [] \<or> f_advisory f = fx_advisory c)"

definition grade_fix :: "finding list \<Rightarrow> claimed_fix \<Rightarrow> failure list" where
  "grade_fix findings c =
     (case find (contradicts c) findings of
        None \<Rightarrow> []
      | Some f \<Rightarrow> [\<lparr>fl_rule = RuleVulnPresent,
          fl_detail = fx_package c @ '' '' @ (if f_advisory f = [] then ''(no advisory)'' else f_advisory f) @
            '' still present at '' @ (if f_current f = [] then ''unknown'' else f_current f), fl_snippet = []\<rparr>])"

definition vuln_failures :: "host \<Rightarrow> tool list \<Rightarrow> string \<Rightarrow> claimed_fix list \<Rightarrow> (world, unit, failure list) eff" where
  "vuln_failures H tools worktree claimed =
     ebind (observe (\<lambda>t. Run (ho_spawn H t) worktree tools)) (\<lambda>r.
     case r of
       Inl _ \<Rightarrow> ebind (observe (ho_message H)) (\<lambda>m.
         eret [\<lparr>fl_rule = RuleScannerError, fl_detail = ''scanner: '' @ m, fl_snippet = []\<rparr>])
     | Inr findings \<Rightarrow> eret (concat (map (grade_fix findings) claimed)))"

definition test_failures :: "host \<Rightarrow> (string \<Rightarrow> string) option \<Rightarrow> string \<Rightarrow> (world, unit, failure list) eff" where
  "test_failures H tc worktree =
     ebind (observe (\<lambda>t. case tc of None \<Rightarrow> TestCommandFor (ho_is_file H t) worktree | Some f \<Rightarrow> f worktree)) (\<lambda>cmd.
     if cmd = [] then eret []
     else
       ebind (observe (\<lambda>t. ho_shell H t worktree cmd)) (\<lambda>(ok, out).
       eret (if ok then [] else [\<lparr>fl_rule = RuleTestFailed, fl_detail = quote_text (ho_print H) cmd @ '' exited non-zero'',
         fl_snippet = truncStr out 1024\<rparr>])))"

definition Verify :: "outside \<Rightarrow> host \<Rightarrow> verifier \<Rightarrow> string \<Rightarrow> claimed_fix list \<Rightarrow> (world, unit, verify_result) eff" where
  "Verify E H v worktree claimed =
     ebind (uncommitted_failures E H worktree) (\<lambda>a.
     ebind (vuln_failures H (case vf_tools v of None \<Rightarrow> StandardTools | Some ts \<Rightarrow> ts) worktree claimed) (\<lambda>b.
     ebind (test_failures H (vf_test_command v) worktree) (\<lambda>c.
     let fails = a @ b @ c in eret \<lparr>vs_pass = (fails = []), vs_failures = fails\<rparr>)))"

section \<open>Signature and feedback\<close>

definition failure_key :: "failure \<Rightarrow> string" where
  "failure_key f = fl_rule f @ ''|'' @ fl_detail f"

definition Signature :: "failure list \<Rightarrow> string" where
  "Signature fs = sha256_hex (join newline (sort_strings (map failure_key fs)))"

definition feedback_item :: "failure list \<Rightarrow> failure \<Rightarrow> string" where
  "feedback_item prev f =
     ''- ['' @ (if failure_key f \<in> set (map failure_key prev) then ''repeat'' else ''new'') @ ''] '' @ fl_rule f @ '': '' @ fl_detail f @
     (if fl_snippet f \<noteq> [] then newline @ ''  '' @ replace_byte (CHR 0x0A) (newline @ ''  '') (fl_snippet f) else []) @ newline"

definition FormatFeedback :: "failure list \<Rightarrow> failure list \<Rightarrow> int \<Rightarrow> int \<Rightarrow> string" where
  "FormatFeedback prev cur round maxRounds =
     truncStr
       (''An external verifier re-checked your work and found the following (round '' @ itoa round @ ''/'' @ itoa maxRounds @ ''):'' @ newline @
        (if cur = [] then ''- (no failures)'' @ newline else []) @
        concat (map (feedback_item prev) cur) @
        ''Please fix these, commit on the SAME branch, re-run the scanner to confirm the findings are gone, and update .bothos/verdict.json.'') 8000"

section \<open>Lemmas\<close>

lemma Verify_quiet: "logs P (Verify E H v wt claimed)" "db_still (Verify E H v wt claimed)"
  unfolding Verify_def uncommitted_failures_def vuln_failures_def test_failures_def Let_def
  by (intro trace_intros)+

lemma uncommitted_none:
  "uncommitted_failures E H wt w = (Inr [], v) \<longleftrightarrow>
     (\<exists>out. o_git E (w_tick w) [''-C'', wt, ''status'', ''--porcelain''] = Some out \<and> trim_space (stripBothos out) = []) \<and> v = tick w"
  by (auto simp: uncommitted_failures_def eff_iffs observe_eq git_eq Let_def split: option.splits)

lemma vuln_none:
  "vuln_failures H ts wt claimed w = (Inr [], v) \<longleftrightarrow>
     (\<exists>fs. Run (ho_spawn H (w_tick w)) wt ts = Inr fs \<and> list_all (\<lambda>c. \<not> list_ex (contradicts c) fs) claimed) \<and> v = tick w"
proof -
  have grade: "grade_fix fs c = [] \<longleftrightarrow> \<not> list_ex (contradicts c) fs" for fs c
    by (auto simp: grade_fix_def find_None_iff list_ex_iff split: option.splits dest: find_Some_set)
  show ?thesis
    by (auto simp: vuln_failures_def eff_iffs observe_eq grade list_all_iff split: sum.splits)
qed

text \<open>The command that a verifier runs.\<close>

definition test_command :: "host \<Rightarrow> verifier \<Rightarrow> string \<Rightarrow> nat \<Rightarrow> string" where
  "test_command H vf wt t = (case vf_test_command vf of None \<Rightarrow> TestCommandFor (ho_is_file H t) wt | Some f \<Rightarrow> f wt)"

lemma test_none:
  "(\<exists>v. test_failures H (vf_test_command vf) wt w = (Inr [], v)) \<longleftrightarrow>
     test_command H vf wt (w_tick w) = [] \<or> fst (ho_shell H (Suc (w_tick w)) wt (test_command H vf wt (w_tick w)))"
  by (auto simp: test_failures_def test_command_def ebind_def observe_def eret_def split: prod.splits)

lemma verify_parts_return:
  "\<exists>a v. uncommitted_failures E H wt w = (Inr a, v)" "\<exists>a v. vuln_failures H ts wt claimed w = (Inr a, v)"
  "\<exists>a v. test_failures H tc wt w = (Inr a, v)"
  by (auto simp: uncommitted_failures_def vuln_failures_def test_failures_def ebind_def etry_def git_def observe_def eret_def Let_def
      split: option.splits sum.splits prod.splits)

lemma Verify_parts:
  obtains a u b u' c v where "uncommitted_failures E H wt w = (Inr a, u)"
    "vuln_failures H (case vf_tools vf of None \<Rightarrow> StandardTools | Some ts \<Rightarrow> ts) wt claimed u = (Inr b, u')"
    "test_failures H (vf_test_command vf) wt u' = (Inr c, v)"
    "Verify E H vf wt claimed w = (Inr \<lparr>vs_pass = (a @ b @ c = []), vs_failures = a @ b @ c\<rparr>, v)"
proof -
  obtain a u where 1: "uncommitted_failures E H wt w = (Inr a, u)" using verify_parts_return(1) by blast
  obtain b u' where 2: "vuln_failures H (case vf_tools vf of None \<Rightarrow> StandardTools | Some ts \<Rightarrow> ts) wt claimed u = (Inr b, u')"
    using verify_parts_return(2) by blast
  obtain c v where 3: "test_failures H (vf_test_command vf) wt u' = (Inr c, v)" using verify_parts_return(3) by blast
  show ?thesis using that [OF 1 2 3] by (simp add: Verify_def ebind_def 1 2 3 Let_def eret_def)
qed

section \<open>Properties\<close>

text \<open>
  C24: The verifier passes a worktree exactly when git reports no change outside the harness's directory, the
  scanners run and none of their findings contradicts a claimed fix, and the tests, if the repository has a
  command for them, exit with zero.
\<close>

theorem Verify_passes_iff:
  "\<exists>res v. Verify E H vf wt claimed w = (Inr res, v) \<and>
     (vs_pass res \<longleftrightarrow>
       (\<exists>out. o_git E (w_tick w) [''-C'', wt, ''status'', ''--porcelain''] = Some out \<and> trim_space (stripBothos out) = []) \<and>
       (\<exists>fs. Run (ho_spawn H (w_tick w + 1)) wt (case vf_tools vf of None \<Rightarrow> StandardTools | Some ts \<Rightarrow> ts) = Inr fs \<and>
          list_all (\<lambda>c. \<not> list_ex (contradicts c) fs) claimed) \<and>
       (test_command H vf wt (w_tick w + 2) = [] \<or> fst (ho_shell H (w_tick w + 3) wt (test_command H vf wt (w_tick w + 2)))))"
proof -
  let ?ts = "case vf_tools vf of None \<Rightarrow> StandardTools | Some ts \<Rightarrow> ts"
  obtain a u b u' c v where p: "uncommitted_failures E H wt w = (Inr a, u)" "vuln_failures H ?ts wt claimed u = (Inr b, u')"
    "test_failures H (vf_test_command vf) wt u' = (Inr c, v)"
    and e: "Verify E H vf wt claimed w = (Inr \<lparr>vs_pass = (a @ b @ c = []), vs_failures = a @ b @ c\<rparr>, v)"
    by (rule Verify_parts)
  have a: "a = [] \<longleftrightarrow> uncommitted_failures E H wt w = (Inr [], tick w)"
    using p(1) uncommitted_none [of E H wt w] by auto
  have b: "u = tick w \<Longrightarrow> b = [] \<longleftrightarrow> vuln_failures H ?ts wt claimed (tick w) = (Inr [], tick (tick w))"
    using p(2) vuln_none [of H ?ts wt claimed u u'] by auto
  have c: "u' = tick (tick w) \<Longrightarrow> c = [] \<longleftrightarrow> (\<exists>v. test_failures H (vf_test_command vf) wt (tick (tick w)) = (Inr [], v))"
    using p(3) by auto
  have next1: "a = [] \<Longrightarrow> u = tick w" using p(1) uncommitted_none [of E H wt w u] by blast
  have next2: "b = [] \<Longrightarrow> u' = tick u" using p(2) vuln_none [of H ?ts wt claimed u u'] by blast
  have "a @ b @ c = [] \<longleftrightarrow> uncommitted_failures E H wt w = (Inr [], tick w) \<and>
      vuln_failures H ?ts wt claimed (tick w) = (Inr [], tick (tick w)) \<and>
      (\<exists>v. test_failures H (vf_test_command vf) wt (tick (tick w)) = (Inr [], v))"
    (is "_ \<longleftrightarrow> ?A \<and> ?B \<and> ?C")
  proof (cases "a = []")
    case True
    note u = next1 [OF True]
    show ?thesis
    proof (cases "b = []")
      case b': True
      have ?A using a True by blast
      moreover have ?B using b [OF u] b' by blast
      ultimately show ?thesis using c next2 [OF b'] u True b' by simp
    next
      case False
      then have "\<not> ?B" using b [OF u] by blast
      then show ?thesis using False by simp
    qed
  next
    case False
    then have "\<not> ?A" using a by blast
    then show ?thesis using False by simp
  qed
  then show ?thesis
    unfolding e uncommitted_none vuln_none test_none by (simp add: numeral_eq_Suc del: append_is_Nil_conv)
qed

text \<open>Every path with the directory's name in it is taken for the harness's own.\<close>

lemma bothos_hides:
  assumes "contains l ''.bothos/''" "CHR 0x0A \<notin> set l"
  shows "stripBothos l = []"
proof -
  have "lines l = [l]" unfolding lines_def using assms(2) by (intro split_when_none) auto
  then show ?thesis using assms(1) by (simp add: stripBothos_def)
qed

text \<open>The signature does not depend on the order of the failures.\<close>

context strict_order
begin

lemma sorted_unique:
  "sorted_wrt (\<lambda>a b. \<not> lt b a) xs \<Longrightarrow> sorted_wrt (\<lambda>a b. \<not> lt b a) ys \<Longrightarrow> mset xs = mset ys \<Longrightarrow> xs = ys"
proof (induction xs arbitrary: ys)
  case (Cons x xs)
  then obtain y ys' where ys: "ys = y # ys'" by (cases ys) auto
  have "set (x # xs) = set (y # ys')" using Cons.prems(3) ys mset_eq_setD by blast
  then have "y \<in> set (x # xs)" "x \<in> set (y # ys')" by auto
  then have "x = y" using Cons.prems(1,2) ys total by auto
  then show ?case using Cons ys by auto
qed simp

end

lemma Signature_order: "mset (map failure_key fs) = mset (map failure_key gs) \<Longrightarrow> Signature fs = Signature gs"
  unfolding Signature_def sort_strings_def
  using bytes_order.sorted_unique [OF bytes_order.sorted_order_by bytes_order.sorted_order_by, of "map failure_key fs" "map failure_key gs"]
  by simp

end
