(* ===== verification/Credstore.thy ===== *)
theory Credstore
  imports Intent
begin

text \<open>
  Credential resolution (\<open>internal/credstore/credstore.go\<close>): one family of environment variables
  per permission tier. The environment is the lookup function of \<open>NewEnv\<close>, a parameter.
\<close>

section \<open>Resolution\<close>

datatype cred_error =
    NoReadToken
  | NoCommentToken
  | NoWriteToken
  | UnknownTokenScope

definition tiered :: "(string \<Rightarrow> string) \<Rightarrow> string \<Rightarrow> string \<Rightarrow> cred_error \<Rightarrow> (cred_error, string) result" where
  "tiered lookup var accountID err =
     (if accountID \<noteq> [] \<and> lookup (var @ ''_'' @ accountID) \<noteq> [] then Inr (lookup (var @ ''_'' @ accountID))
      else if lookup var \<noteq> [] then Inr (lookup var)
      else Inl err)"

definition Resolve :: "(string \<Rightarrow> string) \<Rightarrow> string \<Rightarrow> string \<Rightarrow> (cred_error, string) result" where
  "Resolve lookup accountID sc =
     (if sc = TokenReadOnly then
        (if lookup ''GITHUB_READ_TOKEN'' \<noteq> [] then Inr (lookup ''GITHUB_READ_TOKEN'') else Inl NoReadToken)
      else if sc = TokenIssuesWrite then tiered lookup ''GITHUB_COMMENT_TOKEN'' accountID NoCommentToken
      else if sc = TokenContentsWrite then tiered lookup ''GITHUB_WRITE_TOKEN'' accountID NoWriteToken
      else Inl UnknownTokenScope)"

section \<open>Tiers\<close>

text \<open>The variables a tier may read.\<close>

definition tier_vars :: "string \<Rightarrow> string \<Rightarrow> string set" where
  "tier_vars accountID sc =
     (if sc = TokenReadOnly then {''GITHUB_READ_TOKEN''}
      else if sc = TokenIssuesWrite then {''GITHUB_COMMENT_TOKEN'', ''GITHUB_COMMENT_TOKEN_'' @ accountID}
      else if sc = TokenContentsWrite then {''GITHUB_WRITE_TOKEN'', ''GITHUB_WRITE_TOKEN_'' @ accountID}
      else {})"

lemma Resolve_var:
  "Resolve lk a sc = Inr v \<Longrightarrow> v \<noteq> [] \<and> (\<exists>n \<in> tier_vars a sc. v = lk n)"
  by (auto simp: Resolve_def tiered_def tier_vars_def split: if_splits)

lemma Resolve_cong:
  assumes "\<And>n. n \<in> tier_vars a sc \<Longrightarrow> lk n = lk' n"
  shows "Resolve lk a sc = Resolve lk' a sc"
  using assms by (auto simp: Resolve_def tiered_def tier_vars_def)

text \<open>
  A resolved credential is a non-empty variable of its own tier, and resolution looks at nothing
  else: changing the variables of the other tiers, for any account, changes nothing. So a comment
  never goes out under the write token, however the environment is set.
\<close>

theorem Resolve_stays_in_tier:
  assumes "\<And>n. n \<in> tier_vars a sc \<Longrightarrow> lk n = lk' n"
  shows "Resolve lk a sc = Resolve lk' a sc \<and>
    (\<forall>v. Resolve lk a sc = Inr v \<longrightarrow> v \<noteq> [] \<and> (\<exists>n \<in> tier_vars a sc. v = lk n)) \<and>
    (\<forall>sc' a'. sc \<noteq> sc' \<longrightarrow> tier_vars a sc \<inter> tier_vars a' sc' = {})"
proof (intro conjI)
  show "Resolve lk a sc = Resolve lk' a sc" using assms by (rule Resolve_cong)
  show "\<forall>v. Resolve lk a sc = Inr v \<longrightarrow> v \<noteq> [] \<and> (\<exists>n \<in> tier_vars a sc. v = lk n)"
    using Resolve_var by blast
  show "\<forall>sc' a'. sc \<noteq> sc' \<longrightarrow> tier_vars a sc \<inter> tier_vars a' sc' = {}"
    by (auto simp: tier_vars_def string_consts)
qed

lemma Resolve_stays_in_tier_witness:
  "Resolve (\<lambda>n. if n = ''GITHUB_COMMENT_TOKEN'' then ''c'' else ''w'') [] TokenIssuesWrite =
   Resolve (\<lambda>n. if n = ''GITHUB_COMMENT_TOKEN'' \<or> n = ''GITHUB_COMMENT_TOKEN_'' then (if n = ''GITHUB_COMMENT_TOKEN'' then ''c'' else ''w'') else []) [] TokenIssuesWrite"
  by (rule conjunct1 [OF Resolve_stays_in_tier]) (auto simp: tier_vars_def string_consts)

end
