(* ===== verification/Executor.thy ===== *)
theory Executor
  imports Upgrade Credstore
begin

text \<open>
  The executor (\<open>internal/executor/executor.go\<close>), the only component that holds credentials. Its Go
  interfaces are records of functions, with the laws its proofs use as locales: \<open>intent_store\<close> for
  the ledger and \<open>github_writer_laws\<close> for the writer, both interpreted on the model's own ledger and
  writer, which is how the worker wires them.
\<close>

section \<open>The interfaces and the struct\<close>

datatype exec_error =
    XIntent intent_error
  | XLookup db_error
  | XReviewLookup db_error
  | XToken cred_error
  | XDiff
  | XCurrentBranch branch_error
  | XForeignBranch string
  | XBaseBranch branch_error
  | XPush gh_error
  | XGitHub gh_error
  | XInline gh_error
  | XEmptyCommentID
  | XReviewRecord db_error
  | XRecord db_error
  | XAckScope
  | XAck gh_error

record exec_ledger =
  xl_Lookup :: "string \<Rightarrow> (world, db_error, string \<times> bool) eff"
  xl_Record :: "string \<Rightarrow> string \<Rightarrow> string \<Rightarrow> (world, db_error, unit) eff"
  xl_ReviewCommentID :: "string \<Rightarrow> int \<Rightarrow> (world, db_error, int \<times> bool) eff"
  xl_UpsertReviewComment :: "string \<Rightarrow> int \<Rightarrow> int \<Rightarrow> (world, db_error, unit) eff"

record github_writer =
  gw_OpenPR :: "credential \<Rightarrow> open_pr_write \<Rightarrow> (world, gh_error, string) eff"
  gw_UpdatePR :: "credential \<Rightarrow> update_pr_write \<Rightarrow> (world, gh_error, string) eff"
  gw_PostReview :: "credential \<Rightarrow> post_review_write \<Rightarrow> (world, gh_error, string \<times> int) eff"
  gw_AcknowledgeReview :: "credential \<Rightarrow> int \<Rightarrow> (world, gh_error, string \<times> int) eff"
  gw_PostReviewComments :: "credential \<Rightarrow> post_review_write \<Rightarrow> (world, int \<times> gh_error, int) eff"
  gw_PostComment :: "credential \<Rightarrow> post_comment_write \<Rightarrow> (world, gh_error, string) eff"
  gw_SetLabels :: "credential \<Rightarrow> set_labels_write \<Rightarrow> (world, gh_error, string) eff"
  gw_PushBranch :: "credential \<Rightarrow> string \<Rightarrow> string \<Rightarrow> (world, gh_error, unit) eff"

record executor =
  ex_store :: "string \<Rightarrow> string \<Rightarrow> (cred_error, string) result"
  ex_ledger :: exec_ledger
  ex_gh :: github_writer
  ex_diffs :: "string \<Rightarrow> string \<Rightarrow> (world, unit, diff) eff"
  ex_now :: "(world, exec_error, go_time) eff"

record exec_result =
  xr_kind :: string
  xr_ref :: string
  xr_deduped :: bool

definition pg_ledger :: "outside \<Rightarrow> exec_ledger" where
  "pg_ledger E = \<lparr>xl_Lookup = Lookup E, xl_Record = Record E, xl_ReviewCommentID = ReviewCommentID E,
     xl_UpsertReviewComment = UpsertReviewComment E\<rparr>"

definition NewGitHubWriter :: "outside \<Rightarrow> github_writer" where
  "NewGitHubWriter E = \<lparr>gw_OpenPR = OpenPR E, gw_UpdatePR = UpdatePR E, gw_PostReview = PostReview E,
     gw_AcknowledgeReview = writer_AcknowledgeReview E, gw_PostReviewComments = PostReviewComments E,
     gw_PostComment = PostComment E, gw_SetLabels = SetLabels E, gw_PushBranch = PushBranch E\<rparr>"

text \<open>\<open>NewExecutor\<close> with the dependencies of the worker; \<open>lookup\<close> is the environment.\<close>

definition NewExecutor :: "outside \<Rightarrow> (string \<Rightarrow> string) \<Rightarrow> executor" where
  "NewExecutor E lookup = \<lparr>ex_store = Resolve lookup, ex_ledger = pg_ledger E, ex_gh = NewGitHubWriter E,
     ex_diffs = FromWorktree E, ex_now = clock E\<rparr>"

section \<open>Execute\<close>

definition checkWorktreeDiff :: "executor \<Rightarrow> grant \<Rightarrow> string \<Rightarrow> (world, exec_error, unit) eff" where
  "checkWorktreeDiff x g worktree =
     ebind (ewrap (\<lambda>_. XDiff) (ex_diffs x (g_run g) worktree)) (\<lambda>d.
     elift (case ValidateDiff d g of Inl e \<Rightarrow> Inl (XIntent e) | Inr u \<Rightarrow> Inr u))"

text \<open>
  The branch of the switch for an opened pull request. It declares its own \<open>err\<close>, so the error of
  \<open>OpenPR\<close> is not the one looked at behind the switch: it is dropped and the reference is empty.
\<close>

definition write_open_pr :: "outside \<Rightarrow> executor \<Rightarrow> grant \<Rightarrow> credential \<Rightarrow> string \<Rightarrow> open_pr \<Rightarrow> (world, exec_error, string \<times> int) eff" where
  "write_open_pr E x g cred worktree p =
     ebind (checkWorktreeDiff x g worktree) (\<lambda>_.
     ebind (ewrap XCurrentBranch (CurrentBranch E worktree)) (\<lambda>branch.
     if \<not> has_prefix branch (''bot/'' @ g_run g @ ''-'') then efail (XForeignBranch branch)
     else
       ebind (ewrap XBaseBranch (BaseBranch E worktree)) (\<lambda>base.
       ebind (ewrap XPush (gw_PushBranch (ex_gh x) cred branch worktree)) (\<lambda>_.
       ebind (etry (gw_OpenPR (ex_gh x) cred \<lparr>ow_branch = branch, ow_base = base, ow_title = op_title p,
         ow_body = op_body p, ow_draft = op_draft p\<rparr>)) (\<lambda>r.
       eret ((case r of Inl _ \<Rightarrow> [] | Inr rf \<Rightarrow> rf), 0))))))"

definition write_update_pr :: "executor \<Rightarrow> grant \<Rightarrow> credential \<Rightarrow> string \<Rightarrow> update_pr \<Rightarrow> (world, exec_error, string \<times> int) eff" where
  "write_update_pr x g cred worktree p =
     ebind (if worktree \<noteq> [] then checkWorktreeDiff x g worktree else eret ()) (\<lambda>_.
     ebind (ewrap XGitHub (gw_UpdatePR (ex_gh x) cred \<lparr>uw_number = sc_number (g_scope g), uw_body = up_body p,
       uw_draft = up_draft p\<rparr>)) (\<lambda>rf. eret (rf, 0)))"

definition write_post_review :: "executor \<Rightarrow> grant \<Rightarrow> credential \<Rightarrow> int \<Rightarrow> post_review \<Rightarrow> (world, exec_error, string \<times> int) eff" where
  "write_post_review x g cred mapped p =
     ebind (ewrap (\<lambda>e. XInline (snd e)) (gw_PostReviewComments (ex_gh x) cred
       \<lparr>rw_number = sc_number (g_scope g), rw_comment_id = 0, rw_head_sha = sc_head_sha (g_scope g),
        rw_verdict = [], rw_summary = pr_summary p, rw_comments = slice_list (pr_comments p)\<rparr>)) (\<lambda>_.
     ewrap XGitHub (gw_PostReview (ex_gh x) cred
       \<lparr>rw_number = sc_number (g_scope g), rw_comment_id = mapped, rw_head_sha = sc_head_sha (g_scope g),
        rw_verdict = pr_verdict p, rw_summary = pr_summary p, rw_comments = slice_list (pr_comments p)\<rparr>))"

definition write_payload ::
  "outside \<Rightarrow> executor \<Rightarrow> grant \<Rightarrow> credential \<Rightarrow> string \<Rightarrow> int \<Rightarrow> payload \<Rightarrow> (world, exec_error, string \<times> int) eff" where
  "write_payload E x g cred worktree mapped p =
     (case p of
        POpenPR v \<Rightarrow> write_open_pr E x g cred worktree v
      | PUpdatePR v \<Rightarrow> write_update_pr x g cred worktree v
      | PPostReview v \<Rightarrow> write_post_review x g cred mapped v
      | PPostComment v \<Rightarrow> ebind (ewrap XGitHub (gw_PostComment (ex_gh x) cred
          \<lparr>cw_number = sc_number (g_scope g), cw_body = pc_body v\<rparr>)) (\<lambda>rf. eret (rf, 0))
      | PSetLabels v \<Rightarrow> ebind (ewrap XGitHub (gw_SetLabels (ex_gh x) cred
          \<lparr>lw_number = sc_number (g_scope g), lw_add = slice_list (sl_add v), lw_remove = slice_list (sl_remove v)\<rparr>)) (\<lambda>rf. eret (rf, 0)))"

definition exec_tier :: "envelope \<Rightarrow> grant \<Rightarrow> string" where
  "exec_tier env g = (if env_kind env = KindPostReview then TokenIssuesWrite else g_token g)"

definition mapped_comment :: "executor \<Rightarrow> envelope \<Rightarrow> grant \<Rightarrow> (world, exec_error, int) eff" where
  "mapped_comment x env g =
     (if env_kind env = KindPostReview then
        ebind (ewrap XReviewLookup (xl_ReviewCommentID (ex_ledger x) (repo_owner (g_repo g) @ ''/'' @ repo_name (g_repo g)) (sc_number (g_scope g)))) (\<lambda>(i, ok).
        eret (if ok then i else 0))
      else eret 0)"

definition record_comment :: "executor \<Rightarrow> envelope \<Rightarrow> grant \<Rightarrow> int \<Rightarrow> (world, exec_error, unit) eff" where
  "record_comment x env g written =
     (if env_kind env = KindPostReview then
        (if written = 0 then efail XEmptyCommentID
         else ewrap XReviewRecord (xl_UpsertReviewComment (ex_ledger x) (repo_owner (g_repo g) @ ''/'' @ repo_name (g_repo g)) (sc_number (g_scope g)) written))
      else eret ())"

text \<open>From the missed lookup on.\<close>

definition execute_new :: "outside \<Rightarrow> executor \<Rightarrow> envelope \<Rightarrow> grant \<Rightarrow> string \<Rightarrow> payload \<Rightarrow> (world, exec_error, exec_result) eff" where
  "execute_new E x env g worktree p =
     ebind (mapped_comment x env g) (\<lambda>mapped.
     ebind (ewrap XToken (elift (ex_store x (repo_account (g_repo g)) (exec_tier env g)))) (\<lambda>pat.
     let cred = \<lparr>cr_account = repo_account (g_repo g), cr_scope = exec_tier env g, cr_token = pat, cr_repo = g_repo g\<rparr> in
     ebind (write_payload E x g cred worktree mapped p) (\<lambda>(rf, written).
     ebind (record_comment x env g written) (\<lambda>_.
     ebind (ewrap XRecord (xl_Record (ex_ledger x) (IdempotencyKey env g) (g_run g) rf)) (\<lambda>_.
     eret \<lparr>xr_kind = env_kind env, xr_ref = rf, xr_deduped = False\<rparr>)))))"

definition Execute :: "outside \<Rightarrow> executor \<Rightarrow> envelope \<Rightarrow> grant \<Rightarrow> string \<Rightarrow> (world, exec_error, exec_result) eff" where
  "Execute E x env g worktree =
     ebind (ex_now x) (\<lambda>now.
     ebind (elift (case Validate env g now of Inl e \<Rightarrow> Inl (XIntent e) | Inr p \<Rightarrow> Inr p)) (\<lambda>p.
     ebind (ewrap XLookup (xl_Lookup (ex_ledger x) (IdempotencyKey env g))) (\<lambda>(rf, ok).
     if ok then eret \<lparr>xr_kind = env_kind env, xr_ref = rf, xr_deduped = True\<rparr>
     else execute_new E x env g worktree p)))"

definition AcknowledgeReview :: "executor \<Rightarrow> grant \<Rightarrow> (world, exec_error, unit) eff" where
  "AcknowledgeReview x g =
     (if sc_kind (g_scope g) \<noteq> ScopePullRequest \<or> sc_number (g_scope g) = 0 then efail XAckScope
      else
        ebind (ewrap XToken (elift (ex_store x (repo_account (g_repo g)) TokenIssuesWrite))) (\<lambda>pat.
        let cred = \<lparr>cr_account = repo_account (g_repo g), cr_scope = TokenIssuesWrite, cr_token = pat, cr_repo = g_repo g\<rparr> in
        ebind (ewrap XAck (gw_AcknowledgeReview (ex_gh x) cred (sc_number (g_scope g)))) (\<lambda>(_, cid).
        if cid = 0 then efail XEmptyCommentID
        else ewrap XReviewRecord (xl_UpsertReviewComment (ex_ledger x) (repo_owner (g_repo g) @ ''/'' @ repo_name (g_repo g)) (sc_number (g_scope g)) cid))))"

section \<open>Interface: the GitHub writer\<close>

text \<open>
  What the executor relies on: every method writes under the credential it is given, at its
  repository and the number of its spec, only \<open>OpenPR\<close> creates a pull request, only \<open>PushBranch\<close>
  pushes, and none touches the tables.
\<close>

fun pr_of_spec :: "open_pr_write \<Rightarrow> gh_call \<Rightarrow> bool" where
  "pr_of_spec s (PullsCreate _ _ title br bs body draft) \<longleftrightarrow>
     title = ow_title s \<and> br = ow_branch s \<and> bs = ow_base s \<and> body = ow_body s \<and> draft = ow_draft s"
| "pr_of_spec s _ \<longleftrightarrow> False"

locale github_writer_laws =
  fixes W :: github_writer
  assumes open_logs: "logs (event_at cred n (\<lambda>_. False) (pr_of_spec s1)) (gw_OpenPR W cred s1)"
    and update_logs: "logs (event_at cred (uw_number s2) (\<lambda>_. False) (\<lambda>c. \<not> creates_pr c)) (gw_UpdatePR W cred s2)"
    and review_logs: "logs (event_at cred (rw_number s3) (\<lambda>_. False) (\<lambda>c. \<not> creates_pr c)) (gw_PostReview W cred s3)"
    and inline_logs: "logs (event_at cred (rw_number s3) (\<lambda>_. False) (\<lambda>c. \<not> creates_pr c)) (gw_PostReviewComments W cred s3)"
    and comment_logs: "logs (event_at cred (cw_number s4) (\<lambda>_. False) (\<lambda>c. \<not> creates_pr c)) (gw_PostComment W cred s4)"
    and labels_logs: "logs (event_at cred (lw_number s5) (\<lambda>_. False) (\<lambda>c. \<not> creates_pr c)) (gw_SetLabels W cred s5)"
    and ack_logs: "logs (event_at cred n (\<lambda>_. False) (\<lambda>c. \<not> creates_pr c)) (gw_AcknowledgeReview W cred n)"
    and push_logs: "logs (event_at cred n (\<lambda>b'. b' = b) (\<lambda>_. False)) (gw_PushBranch W cred b wt)"
    and writer_still: "db_still (gw_OpenPR W cred s1)" "db_still (gw_UpdatePR W cred s2)" "db_still (gw_PostReview W cred s3)"
      "db_still (gw_PostReviewComments W cred s3)" "db_still (gw_PostComment W cred s4)" "db_still (gw_SetLabels W cred s5)"
      "db_still (gw_AcknowledgeReview W cred n)" "db_still (gw_PushBranch W cred b wt)"

interpretation go_github: github_writer_laws "NewGitHubWriter E" for E
proof
  fix cred n wt b
  show "logs (event_at cred n (\<lambda>_. False) (pr_of_spec s1)) (gw_OpenPR (NewGitHubWriter E) cred s1)" for s1
    by (simp add: NewGitHubWriter_def logs_OpenPR)
  show "logs (event_at cred (uw_number s2) (\<lambda>_. False) (\<lambda>c. \<not> creates_pr c)) (gw_UpdatePR (NewGitHubWriter E) cred s2)" for s2
    unfolding NewGitHubWriter_def by (simp, rule logs_UpdatePR)
  show "logs (event_at cred (rw_number s3) (\<lambda>_. False) (\<lambda>c. \<not> creates_pr c)) (gw_PostReview (NewGitHubWriter E) cred s3)" for s3
    unfolding NewGitHubWriter_def by (simp, rule logs_PostReview)
  show "logs (event_at cred (rw_number s3) (\<lambda>_. False) (\<lambda>c. \<not> creates_pr c)) (gw_PostReviewComments (NewGitHubWriter E) cred s3)" for s3
    unfolding NewGitHubWriter_def by (simp, rule logs_PostReviewComments)
  show "logs (event_at cred (cw_number s4) (\<lambda>_. False) (\<lambda>c. \<not> creates_pr c)) (gw_PostComment (NewGitHubWriter E) cred s4)" for s4
    unfolding NewGitHubWriter_def by (simp, rule logs_PostComment)
  show "logs (event_at cred (lw_number s5) (\<lambda>_. False) (\<lambda>c. \<not> creates_pr c)) (gw_SetLabels (NewGitHubWriter E) cred s5)" for s5
    unfolding NewGitHubWriter_def by (simp, rule logs_SetLabels)
  show "logs (event_at cred n (\<lambda>_. False) (\<lambda>c. \<not> creates_pr c)) (gw_AcknowledgeReview (NewGitHubWriter E) cred n)"
  proof -
    have "event_at cred n (\<lambda>_. False) (\<lambda>c. reads_call c \<or> (\<exists>ow nm. c = CreateComment ow nm n reviewQueuedBody)) e \<Longrightarrow>
        event_at cred n (\<lambda>_. False) (\<lambda>c. \<not> creates_pr c) e" for e
      by (cases e) (auto dest: reads_not_creates)
    then show ?thesis unfolding NewGitHubWriter_def by (simp, intro logs_mono [OF logs_writer_AcknowledgeReview])
  qed
  show "logs (event_at cred n (\<lambda>b'. b' = b) (\<lambda>_. False)) (gw_PushBranch (NewGitHubWriter E) cred b wt)"
    by (simp add: NewGitHubWriter_def logs_PushBranch)
qed (simp_all add: NewGitHubWriter_def still_writer still_PushBranch)

section \<open>Interface: the ledger's intents\<close>

text \<open>\<open>seen d k\<close> is the reference recorded for a key.\<close>

locale intent_store =
  fixes L :: exec_ledger and seen :: "db \<Rightarrow> string \<Rightarrow> string option"
  assumes lookup_law: "xl_Lookup L k w = (r, v) \<Longrightarrow> w_db v = w_db w \<and> w_log v = w_log w \<and>
      (\<forall>rf ok. r = Inr (rf, ok) \<longrightarrow> seen (w_db w) k = (if ok then Some rf else None))"
    and record_law: "xl_Record L k i rf w = (q, v) \<Longrightarrow> w_log v = w_log w \<and>
      (seen (w_db v) = seen (w_db w) \<or> (seen (w_db w) k = None \<and> seen (w_db v) = (seen (w_db w))(k \<mapsto> rf))) \<and>
      (q = Inr () \<longrightarrow> seen (w_db v) k \<noteq> None)"
    and comment_id_law: "xl_ReviewCommentID L repoID n w = (c, v) \<Longrightarrow> w_db v = w_db w \<and> w_log v = w_log w"
    and upsert_law: "xl_UpsertReviewComment L repoID n cid w = (q, v) \<Longrightarrow> w_log v = w_log w \<and> seen (w_db v) = seen (w_db w)"

definition recorded_ref :: "db \<Rightarrow> string \<Rightarrow> string option" where
  "recorded_ref d k = map_option snd (db_intents d k)"

interpretation pg_intents: intent_store "pg_ledger E" recorded_ref for E
proof
  show "xl_Lookup (pg_ledger E) k w = (r, v) \<Longrightarrow> w_db v = w_db w \<and> w_log v = w_log w \<and>
      (\<forall>rf ok. r = Inr (rf, ok) \<longrightarrow> recorded_ref (w_db w) k = (if ok then Some rf else None))" for k w r v
    by (auto simp: pg_ledger_def Lookup_def exec_stmt_def stmt_lookup_def recorded_ref_def Let_def
        split: db_fault.splits option.splits prod.splits)
  show "xl_Record (pg_ledger E) k i rf w = (q, v) \<Longrightarrow> w_log v = w_log w \<and>
      (recorded_ref (w_db v) = recorded_ref (w_db w) \<or>
       (recorded_ref (w_db w) k = None \<and> recorded_ref (w_db v) = (recorded_ref (w_db w))(k \<mapsto> rf))) \<and>
      (q = Inr () \<longrightarrow> recorded_ref (w_db v) k \<noteq> None)" for k i rf w q v
    by (cases "db_intents (w_db w) k") (auto simp: pg_ledger_def Record_def exec_stmt_def stmt_record_def recorded_ref_def Let_def fun_eq_iff
        split: db_fault.splits if_splits)
  show "xl_ReviewCommentID (pg_ledger E) repoID n w = (c, v) \<Longrightarrow> w_db v = w_db w \<and> w_log v = w_log w" for repoID n w c v
    by (simp add: pg_ledger_def ReviewCommentID_def) (blast dest: exec_stmt_reads [OF reads_stmts(3)] exec_stmt_log)
  show "xl_UpsertReviewComment (pg_ledger E) repoID n cid w = (q, v) \<Longrightarrow> w_log v = w_log w \<and> recorded_ref (w_db v) = recorded_ref (w_db w)" for repoID n cid w q v
    by (auto simp: pg_ledger_def UpsertReviewComment_def exec_stmt_def stmt_upsert_review_def recorded_ref_def Let_def fun_eq_iff
        split: db_fault.splits if_splits)
qed

section \<open>The executor over its interfaces\<close>

text \<open>
  The calls of an execution: at the grant's repository and number, under a token of the tier the
  intent needs; a push is of the run's own branch.
\<close>

definition exec_event :: "executor \<Rightarrow> envelope \<Rightarrow> grant \<Rightarrow> event \<Rightarrow> bool" where
  "exec_event x env g e \<longleftrightarrow> (\<exists>tok. ex_store x (repo_account (g_repo g)) (exec_tier env g) = Inr tok \<and>
     event_at \<lparr>cr_account = repo_account (g_repo g), cr_scope = exec_tier env g, cr_token = tok, cr_repo = g_repo g\<rparr>
       (sc_number (g_scope g)) (prefix (''bot/'' @ g_run g @ ''-'')) (\<lambda>_. True) e)"

text \<open>The worktree's diff was computed, in some world, and accepted.\<close>

definition diff_accepted :: "executor \<Rightarrow> grant \<Rightarrow> string \<Rightarrow> bool" where
  "diff_accepted x g worktree \<longleftrightarrow>
     (\<exists>u d u'. ex_diffs x (g_run g) worktree u = (Inr d, u') \<and> ValidateDiff d g = Inr ())"

fun publishes :: "event \<Rightarrow> bool" where
  "publishes (GhEvent _ c) = creates_pr c"
| "publishes (PushEvent _ _ _ _) = True"

text \<open>A pull request is opened with the title, the body and the draft flag of the payload.\<close>

definition opens_as :: "open_pr \<Rightarrow> event \<Rightarrow> bool" where
  "opens_as p e \<longleftrightarrow> (\<forall>t ow nm title br bs body draft. e = GhEvent t (PullsCreate ow nm title br bs body draft) \<longrightarrow>
     title = op_title p \<and> body = op_body p \<and> draft = op_draft p)"

lemma opens_as_push [simp]: "opens_as p (PushEvent t ow nm b)"
  by (simp add: opens_as_def)

lemma opens_as_spec: "pr_of_spec s c \<Longrightarrow> ow_title s = op_title p \<Longrightarrow> ow_body s = op_body p \<Longrightarrow> ow_draft s = op_draft p \<Longrightarrow>
    opens_as p (GhEvent t c)"
  by (cases c) (auto simp: opens_as_def)

lemma logs_ebind_reach:
  assumes "logs P m" "\<And>w x v. m w = (Inr x, v) \<Longrightarrow> logs P (f x)"
  shows "logs P (ebind m f)"
proof (rule logsI)
  fix w r v
  assume e: "ebind m f w = (r, v)"
  obtain a u where a: "m w = (a, u)" by fastforce
  show "adds P w v"
  proof (cases a)
    case (Inl e')
    then show ?thesis using e a logsD [OF assms(1) a] by (simp add: ebind_def)
  next
    case (Inr x)
    then have "f x u = (r, v)" using e a by (simp add: ebind_def)
    then show ?thesis using adds_trans logsD [OF assms(1) a] logsD [OF assms(2)] a Inr by blast
  qed
qed

locale executor_laws = github_writer_laws "ex_gh x" + intent_store "ex_ledger x" seen
  for x :: executor and seen :: "db \<Rightarrow> string \<Rightarrow> string option" +
  assumes diffs_quiet: "logs P (ex_diffs x r wt)" "db_still (ex_diffs x r wt)"
    and now_quiet: "logs P (ex_now x)" "db_still (ex_now x)"
begin

lemma quiet_ledger:
  "logs P (xl_Lookup (ex_ledger x) k)" "logs P (xl_Record (ex_ledger x) k i rf)"
  "logs P (xl_ReviewCommentID (ex_ledger x) repoID n)" "logs P (xl_UpsertReviewComment (ex_ledger x) repoID n cid)"
  subgoal by (rule logsI, rule adds_same) (use lookup_law in blast)
  subgoal by (rule logsI, rule adds_same) (use record_law in blast)
  subgoal by (rule logsI, rule adds_same) (use comment_id_law in blast)
  subgoal by (rule logsI, rule adds_same) (use upsert_law in simp)
  done

lemma logs_check: "logs P (checkWorktreeDiff x g wt)"
  unfolding checkWorktreeDiff_def by (intro trace_intros diffs_quiet)

lemma logs_branches: "logs P (CurrentBranch E wt)" "logs P (BaseBranch E wt)"
  unfolding CurrentBranch_def BaseBranch_def Let_def by (intro trace_intros)+

lemma check_accepts: "checkWorktreeDiff x g wt w = (Inr u, v) \<Longrightarrow> diff_accepted x g wt"
proof -
  assume "checkWorktreeDiff x g wt w = (Inr u, v)"
  then obtain d w' where d: "ex_diffs x (g_run g) wt w = (Inr d, w')"
    and e: "(case ValidateDiff d g of Inl e \<Rightarrow> Inl (XIntent e) | Inr u \<Rightarrow> Inr u) = Inr u"
    by (auto simp: checkWorktreeDiff_def eff_iffs)
  from e have "ValidateDiff d g = Inr ()" by (cases "ValidateDiff d g") auto
  with d show ?thesis unfolding diff_accepted_def by blast
qed

lemma event_at_mono:
  "event_at cred n B Q e \<Longrightarrow> (\<And>b. B b \<Longrightarrow> B' b) \<Longrightarrow> (\<And>c. Q c \<Longrightarrow> Q' c) \<Longrightarrow> event_at cred n B' Q' e"
  by (cases e) auto

lemma not_publishes: "event_at cred n (\<lambda>_. False) (\<lambda>c. \<not> creates_pr c) e \<Longrightarrow> event_at cred n B (\<lambda>_. True) e \<and> (publishes e \<longrightarrow> P)"
  by (cases e) auto

lemma logs_write_open_pr:
  fixes cred :: credential and g :: grant and wt :: string and p :: open_pr
  defines "P \<equiv> \<lambda>e. event_at cred (sc_number (g_scope g)) (prefix (''bot/'' @ g_run g @ ''-'')) (\<lambda>_. True) e \<and>
    (publishes e \<longrightarrow> diff_accepted x g wt \<and> opens_as p e)"
  shows "logs P (write_open_pr E x g cred wt p)"
  unfolding write_open_pr_def
proof (rule logs_ebind_reach [OF logs_check])
  fix w u v
  assume "checkWorktreeDiff x g wt w = (Inr u, v)"
  then have ok: "diff_accepted x g wt" by (rule check_accepts)
  have push: "has_prefix b (''bot/'' @ g_run g @ ''-'') \<Longrightarrow> logs P (gw_PushBranch (ex_gh x) cred b wt)" for b
  proof (rule logs_mono [OF push_logs [where n = "sc_number (g_scope g)"]])
    fix e
    assume b: "has_prefix b (''bot/'' @ g_run g @ ''-'')"
      and e: "event_at cred (sc_number (g_scope g)) (\<lambda>b'. b' = b) (\<lambda>_. False) e"
    then have "opens_as p e" by (cases e) auto
    then show "P e" using b e ok by (auto simp: P_def has_prefix_def intro: event_at_mono)
  qed
  have open_pr: "logs P (gw_OpenPR (ex_gh x) cred s)" if "ow_title s = op_title p" "ow_body s = op_body p" "ow_draft s = op_draft p" for s
  proof (rule logs_mono [OF open_logs [where n = "sc_number (g_scope g)"]])
    fix e
    assume e: "event_at cred (sc_number (g_scope g)) (\<lambda>_. False) (pr_of_spec s) e"
    then have "opens_as p e" using that opens_as_spec [of s] by (cases e) auto
    then show "P e" using e ok by (auto simp: P_def intro: event_at_mono)
  qed
  show "logs P (ebind (ewrap XCurrentBranch (CurrentBranch E wt)) (\<lambda>branch.
      if \<not> has_prefix branch (''bot/'' @ g_run g @ ''-'') then efail (XForeignBranch branch)
      else ebind (ewrap XBaseBranch (BaseBranch E wt)) (\<lambda>base.
        ebind (ewrap XPush (gw_PushBranch (ex_gh x) cred branch wt)) (\<lambda>_.
        ebind (etry (gw_OpenPR (ex_gh x) cred \<lparr>ow_branch = branch, ow_base = base, ow_title = op_title p,
          ow_body = op_body p, ow_draft = op_draft p\<rparr>)) (\<lambda>r.
        eret ((case r of Inl _ \<Rightarrow> [] | Inr rf \<Rightarrow> rf), 0))))))"
    by (intro trace_intros logs_branches push open_pr) simp_all
qed

lemma logs_write_payload:
  fixes cred :: credential and g :: grant and wt :: string and p :: payload
  defines "P \<equiv> \<lambda>e. event_at cred (sc_number (g_scope g)) (prefix (''bot/'' @ g_run g @ ''-'')) (\<lambda>_. True) e \<and>
    (publishes e \<longrightarrow> diff_accepted x g wt \<and> (\<exists>v. p = POpenPR v \<and> opens_as v e))"
  shows "logs P (write_payload E x g cred wt mapped p)"
proof -
  let ?n = "sc_number (g_scope g)"
  have quiet: "logs (event_at cred ?n (\<lambda>_. False) (\<lambda>c. \<not> creates_pr c)) m \<Longrightarrow> logs P m" for m :: "(world, 'e, 'a) eff"
    unfolding P_def by (rule logs_mono) (use not_publishes in blast)+
  show ?thesis
  proof (cases p)
    case (POpenPR v)
    then show ?thesis using logs_write_open_pr by (simp add: write_payload_def P_def)
  next
    case (PUpdatePR v)
    then show ?thesis
      using quiet [OF update_logs [where cred = cred and ?s2.0 = "\<lparr>uw_number = ?n, uw_body = up_body v, uw_draft = up_draft v\<rparr>", simplified]]
      by (simp add: write_payload_def write_update_pr_def) (intro trace_intros logs_check conjI impI)
  next
    case (PPostReview v)
    let ?inline = "\<lparr>rw_number = ?n, rw_comment_id = 0, rw_head_sha = sc_head_sha (g_scope g), rw_verdict = [],
        rw_summary = pr_summary v, rw_comments = slice_list (pr_comments v)\<rparr>"
    let ?spec = "\<lparr>rw_number = ?n, rw_comment_id = mapped, rw_head_sha = sc_head_sha (g_scope g), rw_verdict = pr_verdict v,
        rw_summary = pr_summary v, rw_comments = slice_list (pr_comments v)\<rparr>"
    show ?thesis
      using quiet [OF inline_logs [where cred = cred and ?s3.0 = ?inline, simplified]]
        quiet [OF review_logs [where cred = cred and ?s3.0 = ?spec, simplified]] PPostReview
      by (simp add: write_payload_def write_post_review_def) (intro trace_intros)
  next
    case (PPostComment v)
    then show ?thesis
      using quiet [OF comment_logs [where cred = cred and ?s4.0 = "\<lparr>cw_number = ?n, cw_body = pc_body v\<rparr>", simplified]]
      by (simp add: write_payload_def) (intro trace_intros)
  next
    case (PSetLabels v)
    then show ?thesis
      using quiet [OF labels_logs [where cred = cred and ?s5.0 = "\<lparr>lw_number = ?n, lw_add = slice_list (sl_add v), lw_remove = slice_list (sl_remove v)\<rparr>", simplified]]
      by (simp add: write_payload_def) (intro trace_intros)
  qed
qed

end

section \<open>What an execution does, abstractly\<close>

text \<open>
  The contract of the executor on the keys already executed: a key that is done is answered with its
  reference and nothing is written; a key that is not is written at most once, and is done when the
  caller is told so.
\<close>

inductive intent_step ::
  "string \<Rightarrow> (string \<Rightarrow> string option) \<Rightarrow> event list \<Rightarrow> (string \<times> bool) option \<Rightarrow> (string \<Rightarrow> string option) \<Rightarrow> bool" for key where
  Deduped: "rec key = Some rf \<Longrightarrow> intent_step key rec [] (Some (rf, True)) rec"
| Rejected: "intent_step key rec [] None rec"
| Failed: "rec key = None \<Longrightarrow> intent_step key rec es None rec"
| Lost: "rec key = None \<Longrightarrow> intent_step key rec es None (rec(key \<mapsto> rf))"
| Executed: "rec key = None \<Longrightarrow> intent_step key rec es (Some (rf, False)) (rec(key \<mapsto> rf))"

inductive_cases intent_step_doneE: "intent_step key rec es (Some (rf, d)) rec'"

text \<open>A key that is done stays done, with its reference, and nothing is written for it.\<close>

lemma intent_step_done:
  "intent_step key rec es a rec' \<Longrightarrow> rec key = Some rf \<Longrightarrow> es = [] \<and> rec' = rec \<and> (a = None \<or> a = Some (rf, True))"
  by (cases rule: intent_step.cases) auto

definition answer :: "(exec_error, exec_result) result \<Rightarrow> (string \<times> bool) option" where
  "answer r = (case r of Inl _ \<Rightarrow> None | Inr q \<Rightarrow> Some (xr_ref q, xr_deduped q))"

text \<open>\<open>keeps_contract\<close>: a computation started in \<open>w\<close> is one abstract step on the key.\<close>

definition keeps_contract ::
  "(db \<Rightarrow> string \<Rightarrow> string option) \<Rightarrow> string \<Rightarrow> (world, exec_error, exec_result) eff \<Rightarrow> world \<Rightarrow> bool" where
  "keeps_contract seen key m w \<longleftrightarrow> (\<exists>es. w_log (snd (m w)) = w_log w @ es \<and>
     intent_step key (seen (w_db w)) es (answer (fst (m w))) (seen (w_db (snd (m w)))))"

definition same :: "world \<Rightarrow> world \<Rightarrow> bool" where
  "same w v \<longleftrightarrow> w_log v = w_log w \<and> w_db v = w_db w"

lemma contract_quiet:
  assumes "\<And>r v. m w = (r, v) \<Longrightarrow> same w v" "\<And>x u. m w = (Inr x, u) \<Longrightarrow> same w u \<Longrightarrow> keeps_contract seen key (f x) u"
  shows "keeps_contract seen key (ebind m f) w"
proof -
  obtain a u where a: "m w = (a, u)" by fastforce
  show ?thesis
  proof (cases a)
    case (Inl e)
    then show ?thesis using a assms(1) [OF a]
      by (auto simp: keeps_contract_def ebind_def same_def answer_def intro: intent_step.Rejected)
  next
    case (Inr x)
    then show ?thesis using a assms(1) [OF a] assms(2) [of x u]
      by (auto simp: keeps_contract_def ebind_def same_def)
  qed
qed

lemma contract_deduped:
  "seen (w_db w) key = Some rf \<Longrightarrow> keeps_contract seen key (eret \<lparr>xr_kind = k, xr_ref = rf, xr_deduped = True\<rparr>) w"
  by (auto simp: keeps_contract_def eret_def answer_def intro: intent_step.Deduped)

lemma same_refl [simp]: "same w w"
  by (simp add: same_def)

lemma same_ewrap: "(\<And>r v. m w = (r, v) \<Longrightarrow> same w v) \<Longrightarrow> ewrap h m w = (r, v) \<Longrightarrow> same w v"
  by (auto simp: ewrap_def split: prod.splits sum.splits)

lemma same_elift: "elift s w = (r, v) \<Longrightarrow> same w v"
  by simp

context executor_laws
begin

lemma Execute_logs:
  "logs (\<lambda>e. exec_event x env g e \<and> (publishes e \<longrightarrow> diff_accepted x g wt \<and> (\<exists>now v. Validate env g now = Inr (POpenPR v) \<and> opens_as v e)))
     (Execute E x env g wt)"
proof -
  let ?P = "\<lambda>e. exec_event x env g e \<and> (publishes e \<longrightarrow> diff_accepted x g wt \<and> (\<exists>now v. Validate env g now = Inr (POpenPR v) \<and> opens_as v e))"
  have payload: "logs ?P (write_payload E x g \<lparr>cr_account = repo_account (g_repo g), cr_scope = exec_tier env g, cr_token = tok, cr_repo = g_repo g\<rparr> wt mapped p)"
    if "ex_store x (repo_account (g_repo g)) (exec_tier env g) = Inr tok" "Validate env g now = Inr p" for tok mapped p now
    by (rule logs_mono [OF logs_write_payload]) (use that in \<open>auto simp: exec_event_def\<close>)
  have token: "ewrap XToken (elift s) w = (Inr tok, v) \<Longrightarrow> s = Inr tok" for s and w v :: world and tok :: string
    by (auto simp: eff_iffs)
  have valid: "elift (case r of Inl e \<Rightarrow> Inl (XIntent e) | Inr p \<Rightarrow> Inr p) w = (Inr p, v) \<Longrightarrow> r = Inr p" for r p and w v :: world
    by (cases r) auto
  have comment: "logs ?P (mapped_comment x env g)" "logs ?P (record_comment x env g written)" for written
    unfolding mapped_comment_def record_comment_def by (intro trace_intros quiet_ledger)+
  have new: "logs ?P (execute_new E x env g wt p)" if v: "Validate env g now = Inr p" for p now
    unfolding execute_new_def Let_def
    by (intro trace_intros quiet_ledger comment logs_ebind_reach [where m = "ewrap XToken m" for m] payload [OF _ v]) (rule token)
  show ?thesis
    unfolding Execute_def
    by (intro logs_ebind [OF now_quiet(1)] logs_ebind_reach [where m = "elift m" for m] trace_intros quiet_ledger new) (rule valid)
qed


text \<open>Everything up to the write neither logs nor touches the tables.\<close>

lemma mapped_comment_quiet: "mapped_comment x env g w = (r, v) \<Longrightarrow> w_db v = w_db w \<and> w_log v = w_log w"
  by (auto simp: mapped_comment_def ebind_def ewrap_def eret_def split: if_splits prod.splits sum.splits dest: comment_id_law)

lemma record_comment_quiet: "record_comment x env g i w = (r, v) \<Longrightarrow> seen (w_db v) = seen (w_db w) \<and> w_log v = w_log w"
  by (auto simp: record_comment_def ewrap_def split: if_splits prod.splits sum.splits dest: upsert_law)

lemma still_check: "db_still (checkWorktreeDiff x g wt)"
  unfolding checkWorktreeDiff_def by (intro trace_intros diffs_quiet)

lemma still_write_payload: "db_still (write_payload E x g cred wt mapped p)"
proof -
  have "db_still (CurrentBranch E wt)" "db_still (BaseBranch E wt)"
    unfolding CurrentBranch_def BaseBranch_def Let_def by (intro trace_intros)+
  then have "db_still (write_open_pr E x g cred wt v)" for v
    unfolding write_open_pr_def by (intro trace_intros still_check writer_still)
  then show ?thesis
    unfolding write_payload_def write_update_pr_def write_post_review_def
    by (cases p) (simp_all, (intro trace_intros still_check writer_still conjI impI | simp)+)
qed

lemma contract_write:
  assumes none: "seen (w_db w) key = None"
  shows "keeps_contract seen key (ebind (write_payload E x g cred wt mapped p) (\<lambda>(rf, written).
     ebind (record_comment x env g written) (\<lambda>_.
     ebind (ewrap XRecord (xl_Record (ex_ledger x) key i rf)) (\<lambda>_.
     eret \<lparr>xr_kind = k, xr_ref = rf, xr_deduped = False\<rparr>)))) w"
proof -
  obtain a u where a: "write_payload E x g cred wt mapped p w = (a, u)" by fastforce
  obtain es where es: "w_log u = w_log w @ es" "w_db u = w_db w"
    using logsD [OF logs_write_payload a] db_stillD [OF still_write_payload a] by (auto simp: adds_def)
  show ?thesis
  proof (cases a)
    case (Inl e)
    then show ?thesis using a es none by (auto simp: keeps_contract_def ebind_def answer_def intro: intent_step.Failed)
  next
    case (Inr y)
    obtain rf written where y: "y = (rf, written)" by fastforce
    obtain b u' where b: "record_comment x env g written u = (b, u')" by fastforce
    note c = record_comment_quiet [OF b]
    show ?thesis
    proof (cases b)
      case (Inl e)
      then show ?thesis using a es none Inr y b c
        by (auto simp: keeps_contract_def ebind_def answer_def intro: intent_step.Failed)
    next
      case b': (Inr z)
      obtain q v where q: "xl_Record (ex_ledger x) key i rf u' = (q, v)" by fastforce
      note r = record_law [OF q]
      have "seen (w_db v) = seen (w_db w) \<or> seen (w_db v) = (seen (w_db w))(key \<mapsto> rf)"
        using r c es(2) by auto
      moreover have "q = Inr () \<Longrightarrow> seen (w_db v) key \<noteq> None" using r by blast
      ultimately show ?thesis using a es none Inr y b b' c q r
        by (cases q) (auto simp: keeps_contract_def ebind_def ewrap_def eret_def answer_def
            intro: intent_step.Failed intent_step.Lost intent_step.Executed)
    qed
  qed
qed

lemma contract_new:
  assumes none: "seen (w_db w) (IdempotencyKey env g) = None"
  shows "keeps_contract seen (IdempotencyKey env g) (execute_new E x env g wt p) w"
  unfolding execute_new_def Let_def
proof (rule contract_quiet)
  show "mapped_comment x env g w = (r, v) \<Longrightarrow> same w v" for r v
    using mapped_comment_quiet by (simp add: same_def)
next
  fix mapped w1
  assume w1: "same w w1"
  show "keeps_contract seen (IdempotencyKey env g) (ebind (ewrap XToken (elift (ex_store x (repo_account (g_repo g)) (exec_tier env g)))) (\<lambda>pat.
      ebind (write_payload E x g \<lparr>cr_account = repo_account (g_repo g), cr_scope = exec_tier env g, cr_token = pat, cr_repo = g_repo g\<rparr> wt mapped p) (\<lambda>(rf, written).
      ebind (record_comment x env g written) (\<lambda>_.
      ebind (ewrap XRecord (xl_Record (ex_ledger x) (IdempotencyKey env g) (g_run g) rf)) (\<lambda>_.
      eret \<lparr>xr_kind = env_kind env, xr_ref = rf, xr_deduped = False\<rparr>))))) w1"
  proof (rule contract_quiet)
    show "ewrap XToken (elift (ex_store x (repo_account (g_repo g)) (exec_tier env g))) w1 = (r, v) \<Longrightarrow> same w1 v" for r v
      by (rule same_ewrap) (auto elim: same_elift)
  qed (rule contract_write, use none w1 in \<open>simp add: same_def\<close>)
qed

lemma lookup_quiet: "ewrap XLookup (xl_Lookup (ex_ledger x) k) w = (r, v) \<Longrightarrow> same w v"
  by (rule same_ewrap) (use lookup_law in \<open>auto simp: same_def\<close>)

lemma now_same: "ex_now x w = (r, v) \<Longrightarrow> same w v"
  using logsD [OF now_quiet(1) [where P = "\<lambda>_. False"]] db_stillD [OF now_quiet(2)] by (simp add: adds_none same_def)

lemma Execute_refines: "keeps_contract seen (IdempotencyKey env g) (Execute E x env g wt) w"
  unfolding Execute_def
proof (rule contract_quiet [OF now_same], assumption, rule contract_quiet [OF same_elift], assumption,
    rule contract_quiet [OF lookup_quiet], assumption)
  fix p w2 found w3
  assume l: "ewrap XLookup (xl_Lookup (ex_ledger x) (IdempotencyKey env g)) w2 = (Inr found, w3)"
  obtain rf ok where found: "found = (rf, ok)" by fastforce
  have "seen (w_db w3) (IdempotencyKey env g) = (if ok then Some rf else None)"
    using l lookup_law [of "IdempotencyKey env g" w2] found by (auto simp: eff_iffs)
  then show "keeps_contract seen (IdempotencyKey env g) (case found of (rf, ok) \<Rightarrow>
      if ok then eret \<lparr>xr_kind = env_kind env, xr_ref = rf, xr_deduped = True\<rparr> else execute_new E x env g wt p) w3"
    unfolding found by (auto intro: contract_deduped contract_new)
qed

end

section \<open>The worker's executor\<close>

lemma NewExecutor_simps [simp]:
  "ex_store (NewExecutor E lookup) = Resolve lookup" "ex_ledger (NewExecutor E lookup) = pg_ledger E"
  "ex_gh (NewExecutor E lookup) = NewGitHubWriter E" "ex_diffs (NewExecutor E lookup) = FromWorktree E"
  "ex_now (NewExecutor E lookup) = clock E"
  by (simp_all add: NewExecutor_def)

interpretation worker_exec: executor_laws "NewExecutor E lookup" recorded_ref for E lookup
proof -
  have "github_writer_laws (ex_gh (NewExecutor E lookup))" "intent_store (ex_ledger (NewExecutor E lookup)) recorded_ref"
    using go_github.github_writer_laws_axioms pg_intents.intent_store_axioms by simp_all
  moreover have "logs P (ex_diffs (NewExecutor E lookup) r wt)" "db_still (ex_diffs (NewExecutor E lookup) r wt)"
    "logs P (ex_now (NewExecutor E lookup))" "db_still (ex_now (NewExecutor E lookup))" for P r wt
    by (simp_all add: FromWorktree_def) (intro trace_intros)+
  ultimately show "executor_laws (NewExecutor E lookup) recorded_ref"
    by (simp add: executor_laws_def executor_laws_axioms_def)
qed



lemma exec_contract:
  assumes "Execute E (NewExecutor E lookup) env g wt w = (r, v)"
  obtains es where "w_log v = w_log w @ es"
    "intent_step (IdempotencyKey env g) (recorded_ref (w_db w)) es (answer r) (recorded_ref (w_db v))"
proof -
  have "keeps_contract recorded_ref (IdempotencyKey env g) (Execute E (NewExecutor E lookup) env g wt) w"
    by (rule worker_exec.Execute_refines)
  then show ?thesis using that assms by (auto simp: keeps_contract_def)
qed


text \<open>
  C11: Once an intent was executed, no retry or redelivery writes again: in every later world that
  still has its record, an execution of it calls nothing at GitHub and, if it answers, answers with the first reference.
\<close>

theorem executed_once:
  assumes "Execute E (NewExecutor E lookup) env g wt w = (Inr q, v)"
    and "recorded_ref (w_db v') (IdempotencyKey env g) = recorded_ref (w_db v) (IdempotencyKey env g)"
    and "Execute E (NewExecutor E lookup) env g wt' v' = (r, u)"
  shows "w_log u = w_log v' \<and> (\<forall>q'. r = Inr q' \<longrightarrow> xr_deduped q' \<and> xr_ref q' = xr_ref q)"
proof -
  obtain es where "intent_step (IdempotencyKey env g) (recorded_ref (w_db w)) es (Some (xr_ref q, xr_deduped q)) (recorded_ref (w_db v))"
    using exec_contract [OF assms(1)] by (auto simp: answer_def)
  then have "recorded_ref (w_db v) (IdempotencyKey env g) = Some (xr_ref q)"
    by (rule intent_step_doneE) auto
  with assms(2) have known: "recorded_ref (w_db v') (IdempotencyKey env g) = Some (xr_ref q)" by simp
  obtain fs where fs: "w_log u = w_log v' @ fs"
    "intent_step (IdempotencyKey env g) (recorded_ref (w_db v')) fs (answer r) (recorded_ref (w_db u))"
    using exec_contract [OF assms(3)] by blast
  from intent_step_done [OF fs(2) known] fs(1) show ?thesis by (auto simp: answer_def split: sum.splits)
qed

text \<open>An envelope that does not validate changes nothing: no call, no row, and the error is validation's.\<close>

theorem invalid_envelope_is_inert:
  assumes "Validate env g (o_clock E (w_tick w)) = Inl e" "Execute E (NewExecutor E lookup) env g wt w = (r, v)"
  shows "r = Inl (XIntent e) \<and> w_log v = w_log w \<and> w_db v = w_db w"
  using assms by (auto simp: Execute_def clock_def ebind_def elift_def)

lemma open_pr_refused:
  assumes "Validate env g (o_clock E (w_tick w)) = Inr (POpenPR p)"
    and "db_intents (w_db w) (IdempotencyKey env g) = None" "find_run (g_run g) (w_db w) \<noteq> None" "\<And>t. o_db E t = Healthy"
    and "Resolve lookup (repo_account (g_repo g)) (g_token g) = Inr tok"
    and "\<And>t. o_git E t [''-C'', wt, ''diff'', ''--numstat'', ''origin/HEAD''] = Some out" "ValidateDiff (parse_numstat out) g = Inr ()"
    and "\<And>t. o_git E t [''-C'', wt, ''rev-parse'', ''--abbrev-ref'', ''HEAD''] = Some cur" "prefix (''bot/'' @ g_run g @ ''-'') (trim_space cur)"
    and "\<And>t. o_git E t [''-C'', wt, ''rev-parse'', ''--abbrev-ref'', ''origin/HEAD''] = Some dflt"
      "trim_prefix (trim_space dflt) ''origin/'' = b" "b \<noteq> []" "b \<noteq> ''HEAD''"
    and "\<And>t url br. o_git E t [''-C'', wt, ''push'', url, br] = Some pushed"
    and "\<And>t c. rp_err (o_gh E t tok c)"
  shows "\<exists>v c. Execute E (NewExecutor E lookup) env g wt w = (Inr \<lparr>xr_kind = KindOpenPR, xr_ref = [], xr_deduped = False\<rparr>, v) \<and>
    w_db v = (w_db w)\<lparr>db_intents := (db_intents (w_db w))(IdempotencyKey env g \<mapsto> (g_run g, []))\<rparr> \<and>
    w_log v = w_log w @ [PushEvent tok (repo_owner (g_repo g)) (repo_name (g_repo g)) (trim_space cur), GhEvent tok c]"
proof -
  have kind: "env_kind env = KindOpenPR" using Validate_kind [OF assms(1)] by simp
  have noreview: "KindOpenPR \<noteq> KindPostReview" by (simp add: string_consts)
  have tier: "exec_tier env g = g_token g" using kind noreview by (simp add: exec_tier_def)
  define cred where "cred = \<lparr>cr_account = repo_account (g_repo g), cr_scope = g_token g, cr_token = tok, cr_repo = g_repo g\<rparr>"
  have open_pr: "\<exists>x. write_open_pr E (NewExecutor E lookup) g cred wt p u = (Inr ([], 0), x) \<and> w_db x = w_db u \<and>
      (\<exists>c. w_log x = w_log u @ [PushEvent tok (repo_owner (g_repo g)) (repo_name (g_repo g)) (trim_space cur), GhEvent tok c])" for u
    using assms(6-15)
    by (simp add: write_open_pr_def checkWorktreeDiff_def FromWorktree_def CurrentBranch_def BaseBranch_def PushBranch_def
        NewGitHubWriter_def OpenPR_def gh_ok_def cred_def Let_def ebind_def ewrap_def etry_def elift_def eret_def efail_def git_def gh_def has_prefix_def)
  let ?w2 = "(tick (tick w))\<lparr>w_db := w_db w\<rparr>"
  obtain x c where x: "write_open_pr E (NewExecutor E lookup) g cred wt p ?w2 = (Inr ([], 0), x)" "w_db x = w_db w"
    "w_log x = w_log w @ [PushEvent tok (repo_owner (g_repo g)) (repo_name (g_repo g)) (trim_space cur), GhEvent tok c]"
    using open_pr [of ?w2] by auto
  obtain row where row: "find_run (g_run g) (w_db w) = Some row" using assms(3) by blast
  have "Execute E (NewExecutor E lookup) env g wt w =
      (Inr \<lparr>xr_kind = KindOpenPR, xr_ref = [], xr_deduped = False\<rparr>,
       (tick x)\<lparr>w_db := (w_db x)\<lparr>db_intents := (db_intents (w_db x))(IdempotencyKey env g \<mapsto> (g_run g, []))\<rparr>\<rparr>)"
    using assms(1,2,4,5) row kind noreview tier x
    by (simp add: Execute_def execute_new_def write_payload_def mapped_comment_def record_comment_def cred_def [symmetric]
        pg_ledger_def Lookup_def Record_def exec_stmt_def stmt_lookup_def stmt_record_def clock_def Let_def
        ebind_def ewrap_def elift_def eret_def split del: if_split)
  then show ?thesis using x by auto
qed

text \<open>
  C39: When GitHub refuses to create the pull request the execution still succeeds, with an empty
  reference, and records the intent as executed under it: the error is assigned to a variable that
  is not the one checked behind the switch. No retry will open the pull request.
\<close>

theorem failed_open_pr_succeeds:
  assumes "Validate env g (o_clock E (w_tick w)) = Inr (POpenPR p)"
    and "db_intents (w_db w) (IdempotencyKey env g) = None" "find_run (g_run g) (w_db w) \<noteq> None" "\<And>t. o_db E t = Healthy"
    and "Resolve lookup (repo_account (g_repo g)) (g_token g) = Inr tok"
    and "\<And>t. o_git E t [''-C'', wt, ''diff'', ''--numstat'', ''origin/HEAD''] = Some out" "ValidateDiff (parse_numstat out) g = Inr ()"
    and "\<And>t. o_git E t [''-C'', wt, ''rev-parse'', ''--abbrev-ref'', ''HEAD''] = Some cur" "prefix (''bot/'' @ g_run g @ ''-'') (trim_space cur)"
    and "\<And>t. o_git E t [''-C'', wt, ''rev-parse'', ''--abbrev-ref'', ''origin/HEAD''] = Some dflt"
      "trim_prefix (trim_space dflt) ''origin/'' = b" "b \<noteq> []" "b \<noteq> ''HEAD''"
    and "\<And>t url br. o_git E t [''-C'', wt, ''push'', url, br] = Some pushed"
    and "\<And>t c. rp_err (o_gh E t tok c)"
  shows "\<exists>v. Execute E (NewExecutor E lookup) env g wt w = (Inr \<lparr>xr_kind = KindOpenPR, xr_ref = [], xr_deduped = False\<rparr>, v) \<and>
    recorded_ref (w_db v) (IdempotencyKey env g) = Some []"
  using open_pr_refused [OF assms] by (auto simp: recorded_ref_def)

section \<open>Witnesses\<close>

definition pr_payload :: string where
  "pr_payload = marshal (enc_open_pr \<lparr>op_title = ''hi'', op_body = ''hi'', op_draft = True\<rparr>)"

definition pr_envelope :: envelope where
  "pr_envelope = \<lparr>env_schema = 2, env_run = ''r1'', env_kind = KindOpenPR, env_payload = pr_payload, env_sources = []\<rparr>"

lemma word_hi: "word ''hi''"
  by (simp add: word_def ascii_def is_space_def)

lemma Validate_pr: "Validate pr_envelope example_grant 0 = Inr (POpenPR \<lparr>op_title = ''hi'', op_body = ''hi'', op_draft = True\<rparr>)"
proof -
  have a: "ascii ''hi''" by (simp add: ascii_def)
  have "str_fields ''hi'' = [''hi'']" by (simp add: str_fields_ascii [OF a] is_space_def)
  then have line: "sanitiseLine ''hi'' 120 = ''hi''" by (simp add: sanitiseLine_def)
  have "decode_payload open_pr_field zero_open_pr pr_payload = Inr \<lparr>op_title = ''hi'', op_body = ''hi'', op_draft = True\<rparr>"
    unfolding pr_payload_def by (rule open_pr_round_trip) (simp_all add: valid_utf8_ascii a)
  then have "decode_open_pr pr_payload example_grant = Inr (POpenPR \<lparr>op_title = ''hi'', op_body = ''hi'', op_draft = True\<rparr>)"
    by (simp add: decode_open_pr_def trim_space_word [OF word_hi] line sbody_def sanitise_hi example_grant_def DefaultLimits_def)
  moreover have "admitted pr_envelope example_grant 0"
    by (simp add: admitted_def pr_envelope_def SchemaVersion_def example_grant_def example_scope_def
        kind_consts token_rank_def token_need_def scope_ok_def)
  ultimately show ?thesis
    by (simp add: Validate_iff decodeAndSanitise_def pr_envelope_def)
qed

text \<open>GitHub refuses every call, git and the tables work.\<close>

definition refusing_outside :: outside where
  "refusing_outside = \<lparr>o_db = (\<lambda>_. Healthy),
     o_gh = (\<lambda>_ _ _. \<lparr>rp_err = True, rp_status = Some 500, rp_number = 0, rp_id = 0, rp_login = [], rp_comments = [], rp_next = 0\<rparr>),
     o_git = (\<lambda>_ args. if ''push'' \<in> set args then Some [] else if ''diff'' \<in> set args then Some (rename_line ''a.go'' ''b.go'')
        else if ''origin/HEAD'' \<in> set args then Some ''origin/main'' else Some ''bot/r1-fix''),
     o_clock = (\<lambda>_. 0), o_pages = 1\<rparr>"

lemmas refusing_setting =
  open_pr_refused [where E = refusing_outside and lookup = "\<lambda>_. ''w''" and env = pr_envelope and g = example_grant
    and wt = "''wt''" and w = "start_world example_db" and p = "\<lparr>op_title = ''hi'', op_body = ''hi'', op_draft = True\<rparr>"
    and tok = "''w''" and out = "rename_line ''a.go'' ''b.go''" and cur = "''bot/r1-fix''"
    and dflt = "''origin/main''" and b = "''main''" and pushed = "[]"]

lemma refusing_facts:
  "Validate pr_envelope example_grant (o_clock refusing_outside (w_tick (start_world example_db))) =
      Inr (POpenPR \<lparr>op_title = ''hi'', op_body = ''hi'', op_draft = True\<rparr>)"
  "db_intents (w_db (start_world example_db)) (IdempotencyKey pr_envelope example_grant) = None"
  "find_run (g_run example_grant) (w_db (start_world example_db)) \<noteq> None"
  "o_db refusing_outside t = Healthy"
  "Resolve (\<lambda>_. ''w'') (repo_account (g_repo example_grant)) (g_token example_grant) = Inr ''w''"
  "o_git refusing_outside t [''-C'', ''wt'', ''diff'', ''--numstat'', ''origin/HEAD''] = Some (rename_line ''a.go'' ''b.go'')"
  "ValidateDiff (parse_numstat (rename_line ''a.go'' ''b.go'')) example_grant = Inr ()"
  "o_git refusing_outside t [''-C'', ''wt'', ''rev-parse'', ''--abbrev-ref'', ''HEAD''] = Some ''bot/r1-fix''"
  "prefix (''bot/'' @ g_run example_grant @ ''-'') (trim_space ''bot/r1-fix'')"
  "o_git refusing_outside t [''-C'', ''wt'', ''rev-parse'', ''--abbrev-ref'', ''origin/HEAD''] = Some ''origin/main''"
  "trim_prefix (trim_space ''origin/main'') ''origin/'' = ''main''"
  "''main'' \<noteq> []" "''main'' \<noteq> ''HEAD''"
  "o_git refusing_outside t [''-C'', ''wt'', ''push'', url, br] = Some []"
  "rp_err (o_gh refusing_outside t tok c)"
proof -
  show "Validate pr_envelope example_grant (o_clock refusing_outside (w_tick (start_world example_db))) =
      Inr (POpenPR \<lparr>op_title = ''hi'', op_body = ''hi'', op_draft = True\<rparr>)"
    using Validate_pr by (simp add: refusing_outside_def)
  show "find_run (g_run example_grant) (w_db (start_world example_db)) \<noteq> None"
    using example_find by (auto simp: start_world_def example_grant_def)
  show "Resolve (\<lambda>_. ''w'') (repo_account (g_repo example_grant)) (g_token example_grant) = Inr ''w''"
    by (simp add: Resolve_def tiered_def example_grant_def string_consts)
  have "word ''a.go''" "word ''b.go''" by (simp_all add: word_def ascii_def is_space_def)
  note out = parse_rename [OF this]
  have "ValidateDiff \<lparr>d_files = [''a.go''], d_added = 1, d_deleted = 1\<rparr> example_grant = Inr ()" by code_simp
  then show "ValidateDiff (parse_numstat (rename_line ''a.go'' ''b.go'')) example_grant = Inr ()" by (simp only: out)
  have "word ''bot/r1-fix''" "word ''origin/main''" by (simp_all add: word_def ascii_def is_space_def)
  then show "prefix (''bot/'' @ g_run example_grant @ ''-'') (trim_space ''bot/r1-fix'')"
    "trim_prefix (trim_space ''origin/main'') ''origin/'' = ''main''"
    by (simp_all add: trim_space_word example_grant_def trim_prefix_def has_prefix_def)
qed (simp_all add: refusing_outside_def start_world_def example_intents)

lemmas refused_run = refusing_setting [OF refusing_facts]

lemma failed_open_pr_succeeds_witness:
  "\<exists>v. Execute refusing_outside (NewExecutor refusing_outside (\<lambda>_. ''w'')) pr_envelope example_grant ''wt'' (start_world example_db) =
     (Inr \<lparr>xr_kind = KindOpenPR, xr_ref = [], xr_deduped = False\<rparr>, v) \<and>
   recorded_ref (w_db v) (IdempotencyKey pr_envelope example_grant) = Some []"
  by (rule failed_open_pr_succeeds [OF refusing_facts])




lemma executed_once_witness:
  "\<exists>v r u. Execute refusing_outside (NewExecutor refusing_outside (\<lambda>_. ''w'')) pr_envelope example_grant ''wt'' v = (r, u) \<and>
     length (w_log v) = 2 \<and> w_log u = w_log v"
proof -
  obtain v c where e: "Execute refusing_outside (NewExecutor refusing_outside (\<lambda>_. ''w'')) pr_envelope example_grant ''wt'' (start_world example_db) =
      (Inr \<lparr>xr_kind = KindOpenPR, xr_ref = [], xr_deduped = False\<rparr>, v)"
    and l: "w_log v = w_log (start_world example_db) @ [PushEvent ''w'' (repo_owner (g_repo example_grant)) (repo_name (g_repo example_grant)) (trim_space ''bot/r1-fix''), GhEvent ''w'' c]"
    using refused_run by blast
  obtain r u where f: "Execute refusing_outside (NewExecutor refusing_outside (\<lambda>_. ''w'')) pr_envelope example_grant ''wt'' v = (r, u)"
    by fastforce
  from executed_once [OF e refl f] f l show ?thesis by (intro exI [of _ v] exI [of _ r] exI [of _ u]) (simp add: start_world_def)
qed

lemma invalid_envelope_is_inert_witness:
  "\<exists>v. Execute refusing_outside (NewExecutor refusing_outside (\<lambda>_. ''w'')) (pr_envelope\<lparr>env_schema := 1\<rparr>) example_grant ''wt'' (start_world example_db) =
     (Inl (XIntent ErrSchemaVersion), v)"
proof -
  obtain r v where e: "Execute refusing_outside (NewExecutor refusing_outside (\<lambda>_. ''w'')) (pr_envelope\<lparr>env_schema := 1\<rparr>) example_grant ''wt'' (start_world example_db) = (r, v)"
    by fastforce
  have "Validate (pr_envelope\<lparr>env_schema := 1\<rparr>) example_grant (o_clock refusing_outside (w_tick (start_world example_db))) = Inl ErrSchemaVersion"
    by (simp add: Validate_def check_def SchemaVersion_def)
  from invalid_envelope_is_inert [OF this e] e show ?thesis by blast
qed

end
