(* ===== verification/Runpipe.thy ===== *)
theory Runpipe
  imports Executor Runtime Review
begin

text \<open>
  The pipelines of the worker (\<open>internal/runpipe\<close>): the security run, the issue run and the review run.
  Their Go fields are fields of records; the text of an error, which only the column \<open>failure_reason\<close>
  shows, is the field \<open>pl_render\<close>. Logging is left out. Behind the operations stand what a run keeps of its row,
  that it is over when a pipeline returns, which calls a run can make, and what of a posted review is marked verified.
\<close>

section \<open>The fields of a pipeline\<close>

datatype sandbox_error =
    TempDirError
  | GitStepError nat
  | HeadMismatch string

datatype pipe_error =
    PLoad db_error
  | PMeta
  | PStatus db_error
  | PScope
  | PExpired
  | PSandbox sandbox_error
  | PChecks review_error
  | PAgent
  | PNoIntent
  | PNotOneDraft
  | PDecode
  | PNotDraft
  | PHeadUnknown
  | PHeadChanged string
  | PStatusUnknown
  | PModified string
  | PNotOneReview nat
  | PNotReview string
  | PReviewIntent intent_error
  | PNotAReview
  | PExecute exec_error
  | PHandoff exec_error
  | PRef db_error
  | PRecordFailure db_error
  | PRecordBlocked db_error

record store =
  st_RunByID :: "string \<Rightarrow> (world, db_error, ledger_run) eff"
  st_SetRunStatus :: "string \<Rightarrow> string \<Rightarrow> (world, db_error, unit) eff"
  st_SetRunFailure :: "string \<Rightarrow> string \<Rightarrow> (world, db_error, unit) eff"
  st_SetRunNeedsInput :: "string \<Rightarrow> string \<Rightarrow> (world, db_error, unit) eff"
  st_SetRunRef :: "string \<Rightarrow> string \<Rightarrow> (world, db_error, unit) eff"
  st_SetRunUsage :: "string \<Rightarrow> string \<Rightarrow> int \<Rightarrow> int \<Rightarrow> int \<Rightarrow> (world, db_error, unit) eff"

definition pg_store :: "outside \<Rightarrow> store" where
  "pg_store E = \<lparr>st_RunByID = RunByID E, st_SetRunStatus = SetRunStatus E, st_SetRunFailure = SetRunFailure E,
     st_SetRunNeedsInput = SetRunNeedsInput E, st_SetRunRef = SetRunRef E, st_SetRunUsage = SetRunUsage E\<rparr>"

text \<open>An agent that fails says nothing; a sandbox is the path of its checkout.\<close>

record pipeline =
  pl_store :: store
  pl_agent :: "run_input \<Rightarrow> (world, unit, run_result) eff"
  pl_exec :: "envelope \<Rightarrow> grant \<Rightarrow> string \<Rightarrow> (world, exec_error, exec_result) eff"
  pl_sandbox :: "string \<Rightarrow> (world, sandbox_error, string) eff"
  pl_now :: "(world, pipe_error, go_time) eff"
  pl_render :: "pipe_error \<Rightarrow> string"

record review_pipeline = pipeline +
  pl_acknowledge :: "(grant \<Rightarrow> (world, exec_error, unit) eff) option"
  pl_review_sandbox :: "string \<Rightarrow> int \<Rightarrow> string \<Rightarrow> string \<Rightarrow> (world, sandbox_error, string) eff"
  pl_checks :: "string \<Rightarrow> (world, review_error, review_finding list) eff"

section \<open>Failing\<close>

text \<open>The closure \<open>fail\<close>: the run is marked failed with the reason, as far as the ledger can be written.\<close>

definition pipe_fail :: "'a pipeline_scheme \<Rightarrow> string \<Rightarrow> pipe_error \<Rightarrow> (world, pipe_error, 'r) eff" where
  "pipe_fail p runID e =
     ebind (eignore (st_SetRunStatus (pl_store p) runID RunFailed)) (\<lambda>_.
     ebind (eignore (st_SetRunFailure (pl_store p) runID (pl_render p e))) (\<lambda>_.
     efail e))"

text \<open>\<open>if err != nil { return fail(...) }\<close>.\<close>

definition or_fail :: "'a pipeline_scheme \<Rightarrow> string \<Rightarrow> ('e \<Rightarrow> pipe_error) \<Rightarrow> (world, 'e, 'x) eff \<Rightarrow>
    ('x \<Rightarrow> (world, pipe_error, 'r) eff) \<Rightarrow> (world, pipe_error, 'r) eff" where
  "or_fail p runID h m f = ebind (etry m) (\<lambda>r. case r of Inl e \<Rightarrow> pipe_fail p runID (h e) | Inr x \<Rightarrow> f x)"

definition recordUsage :: "store \<Rightarrow> string \<Rightarrow> run_result \<Rightarrow> (world, pipe_error, unit) eff" where
  "recordUsage st runID res = eignore (st_SetRunUsage st runID (rr_model res) (rr_tokens_in res) (rr_tokens_out res) (rr_cost res))"

definition wall_limits :: agent_limits where
  "wall_limits = \<lparr>al_max_tokens = 0, al_max_seconds = AgentWallSeconds * 10 ^ 9\<rparr>"

definition repo_path :: "repo \<Rightarrow> string" where
  "repo_path r = repo_owner r @ ''/'' @ repo_name r"

section \<open>The security run\<close>

record upgrade_meta =
  um_scope :: string
  um_base_ref :: string

definition upgrade_meta_field :: "rune list \<Rightarrow> (json \<Rightarrow> upgrade_meta \<Rightarrow> upgrade_meta option) option" where
  "upgrade_meta_field k =
     (if field_is ''scope'' k then Some (into um_scope (\<lambda>f. um_scope_update (\<lambda>_. f)) dec_string)
      else if field_is ''base_ref'' k then Some (into um_base_ref (\<lambda>f. um_base_ref_update (\<lambda>_. f)) dec_string)
      else None)"

text \<open>\<open>json.Unmarshal\<close> of the column \<open>meta\<close>.\<close>

definition unmarshal_meta :: "(rune list \<Rightarrow> (json \<Rightarrow> 'm \<Rightarrow> 'm option) option) \<Rightarrow> 'm \<Rightarrow> ledger_run \<Rightarrow> (pipe_error, 'm) result" where
  "unmarshal_meta fld zero run =
     (case lr_meta run of None \<Rightarrow> Inl PMeta
      | Some v \<Rightarrow> (case dec_struct False fld v zero of None \<Rightarrow> Inl PMeta | Some m \<Rightarrow> Inr m))"

text \<open>The end of a run whose intent was executed.\<close>

definition record_success :: "store \<Rightarrow> string \<Rightarrow> exec_result \<Rightarrow> (world, pipe_error, string) eff" where
  "record_success st runID cr =
     ebind (ewrap PRef (st_SetRunRef st runID (xr_ref cr))) (\<lambda>_.
     ebind (ewrap PStatus (st_SetRunStatus st runID RunSucceeded)) (\<lambda>_.
     eret (xr_ref cr)))"

text \<open>What is done with the agent's result.\<close>

definition stand_down :: "'a pipeline_scheme \<Rightarrow> string \<Rightarrow> run_result \<Rightarrow> (world, pipe_error, string) eff" where
  "stand_down p runID res =
     (case rr_verdict res of
        Some v \<Rightarrow>
          if vd_status v = VerdictBlocked then
            ebind (ewrap PRecordFailure (st_SetRunFailure (pl_store p) runID (''agent blocked: '' @ vd_summary v))) (\<lambda>_. eret [])
          else pipe_fail p runID PNoIntent
      | None \<Rightarrow> pipe_fail p runID PNoIntent)"

definition pipeline_settle :: "'a pipeline_scheme \<Rightarrow> string \<Rightarrow> grant \<Rightarrow> string \<Rightarrow> run_result \<Rightarrow> (world, pipe_error, string) eff" where
  "pipeline_settle p runID g worktree res =
     (case find (\<lambda>env. env_kind env = KindOpenPR) (rr_intents res) of
        None \<Rightarrow> stand_down p runID res
      | Some env \<Rightarrow>
          or_fail p runID PExecute (pl_exec p env g worktree) (record_success (pl_store p) runID))"

text \<open>\<open>Run\<close> once the run is loaded, and \<open>Run\<close>.\<close>

definition Pipeline_loaded :: "'a pipeline_scheme \<Rightarrow> string \<Rightarrow> ledger_run \<Rightarrow> (world, pipe_error, string) eff" where
  "Pipeline_loaded p runID run =
     (let g = lr_grant run in
     ebind (elift (unmarshal_meta upgrade_meta_field \<lparr>um_scope = [], um_base_ref = []\<rparr> run)) (\<lambda>m.
     ebind (ewrap PStatus (st_SetRunStatus (pl_store p) runID RunRunning)) (\<lambda>_.
     ebind (pl_now p) (\<lambda>now.
     if now > g_expires g then pipe_fail p runID PExpired
     else
       or_fail p runID PSandbox (pl_sandbox p (repo_path (g_repo g))) (\<lambda>worktree.
       or_fail p runID (\<lambda>_. PAgent)
         (pl_agent p \<lparr>ri_run = runID, ri_task = SecurityTask (um_base_ref m), ri_graph_key = [], ri_worktree = worktree, ri_limits = wall_limits\<rparr>) (\<lambda>res.
       ebind (recordUsage (pl_store p) runID res) (\<lambda>_.
       pipeline_settle p runID g worktree res)))))))"

definition Pipeline_Run :: "'a pipeline_scheme \<Rightarrow> string \<Rightarrow> (world, pipe_error, string) eff" where
  "Pipeline_Run p runID = ebind (ewrap PLoad (st_RunByID (pl_store p) runID)) (Pipeline_loaded p runID)"

section \<open>The issue run\<close>

definition issue_task_field :: "rune list \<Rightarrow> (json \<Rightarrow> issue_task \<Rightarrow> issue_task option) option" where
  "issue_task_field k =
     (if field_is ''issue_number'' k then Some (into it_number (\<lambda>f. it_number_update (\<lambda>_. f)) dec_int)
      else if field_is ''title'' k then Some (into it_title (\<lambda>f. it_title_update (\<lambda>_. f)) dec_string)
      else if field_is ''body'' k then Some (into it_body (\<lambda>f. it_body_update (\<lambda>_. f)) dec_string)
      else if field_is ''repo_url'' k then Some (into it_url (\<lambda>f. it_url_update (\<lambda>_. f)) dec_string)
      else if field_is ''base_ref'' k then Some (into it_base_ref (\<lambda>f. it_base_ref_update (\<lambda>_. f)) dec_string)
      else None)"

definition zero_issue_task :: issue_task where
  "zero_issue_task = \<lparr>it_number = 0, it_title = [], it_body = [], it_url = [], it_base_ref = []\<rparr>"

definition clone_url :: "repo \<Rightarrow> string" where
  "clone_url r = ''https://github.com/'' @ repo_owner r @ ''/'' @ repo_name r @ ''.git''"

definition blocked_body :: "string \<Rightarrow> string" where
  "blocked_body summary =
     ''**Bothos is blocked.**'' @ newline @ newline @ summary @ newline @ newline @
     ''No pull request was opened. Please reply with one answer that resolves the blocker, then trigger a new labeled run.''"

definition blocked_summary :: "verdict \<Rightarrow> string" where
  "blocked_summary v =
     (let s = trim_space (vd_summary v) in
      if s = [] then ''The agent could not identify a safe complete change.'' else s)"

definition recordBlocked :: "'a pipeline_scheme \<Rightarrow> string \<Rightarrow> grant \<Rightarrow> string \<Rightarrow> verdict \<Rightarrow> (world, pipe_error, string) eff" where
  "recordBlocked p runID g worktree v =
     (let summary = blocked_summary v;
          env = \<lparr>env_schema = SchemaVersion, env_run = runID, env_kind = KindPostComment,
                 env_payload = marshal (enc_post_comment \<lparr>pc_body = blocked_body summary\<rparr>), env_sources = []\<rparr> in
      ebind (ewrap PHandoff (pl_exec p env g worktree)) (\<lambda>result.
      ebind (ewrap PRef (st_SetRunRef (pl_store p) runID (xr_ref result))) (\<lambda>_.
      ebind (ewrap PRecordBlocked (st_SetRunNeedsInput (pl_store p) runID (''agent blocked: '' @ summary))) (\<lambda>_.
      eret (xr_ref result)))))"

text \<open>The payload's draft flag as \<open>json.Unmarshal\<close> reads it.\<close>

definition unmarshal_open_pr :: "string \<Rightarrow> open_pr option" where
  "unmarshal_open_pr = unmarshal open_pr_field zero_open_pr"

definition issue_propose :: "'a pipeline_scheme \<Rightarrow> string \<Rightarrow> grant \<Rightarrow> string \<Rightarrow> run_result \<Rightarrow> (world, pipe_error, string) eff" where
  "issue_propose p runID g worktree res =
     (case rr_intents res of
        [env] \<Rightarrow>
          if env_kind env \<noteq> KindOpenPR then pipe_fail p runID PNotOneDraft
          else (case unmarshal_open_pr (env_payload env) of
              None \<Rightarrow> pipe_fail p runID PDecode
            | Some proposal \<Rightarrow>
                if \<not> op_draft proposal then pipe_fail p runID PNotDraft
                else or_fail p runID PExecute (pl_exec p env g worktree) (record_success (pl_store p) runID))
      | _ \<Rightarrow> pipe_fail p runID PNotOneDraft)"

definition issue_settle :: "'a pipeline_scheme \<Rightarrow> string \<Rightarrow> grant \<Rightarrow> string \<Rightarrow> run_result \<Rightarrow> (world, pipe_error, string) eff" where
  "issue_settle p runID g worktree res =
     (case rr_verdict res of
        Some v \<Rightarrow> if vd_status v = VerdictBlocked then recordBlocked p runID g worktree v else issue_propose p runID g worktree res
      | None \<Rightarrow> issue_propose p runID g worktree res)"

definition issue_task_for :: "grant \<Rightarrow> issue_task \<Rightarrow> issue_task" where
  "issue_task_for g stored =
     \<lparr>it_number = sc_number (g_scope g), it_title = it_title stored, it_body = it_body stored,
      it_url = clone_url (g_repo g), it_base_ref = sc_base_ref (g_scope g)\<rparr>"

definition IssuePipeline_loaded :: "'a pipeline_scheme \<Rightarrow> string \<Rightarrow> ledger_run \<Rightarrow> (world, pipe_error, string) eff" where
  "IssuePipeline_loaded p runID run =
     (let g = lr_grant run in
     ebind (elift (unmarshal_meta issue_task_field zero_issue_task run)) (\<lambda>stored.
     ebind (ewrap PStatus (st_SetRunStatus (pl_store p) runID RunRunning)) (\<lambda>_.
     if sc_kind (g_scope g) \<noteq> ScopeIssue \<or> sc_number (g_scope g) < 1 then pipe_fail p runID PScope
     else
       ebind (pl_now p) (\<lambda>now.
       if now > g_expires g then pipe_fail p runID PExpired
       else
         or_fail p runID PSandbox (pl_sandbox p (repo_path (g_repo g))) (\<lambda>worktree.
         or_fail p runID (\<lambda>_. PAgent)
           (pl_agent p \<lparr>ri_run = runID, ri_task = IssueTask (issue_task_for g stored), ri_graph_key = [], ri_worktree = worktree, ri_limits = wall_limits\<rparr>) (\<lambda>res.
         ebind (recordUsage (pl_store p) runID res) (\<lambda>_.
         issue_settle p runID g worktree res)))))))"

definition IssuePipeline_Run :: "'a pipeline_scheme \<Rightarrow> string \<Rightarrow> (world, pipe_error, string) eff" where
  "IssuePipeline_Run p runID = ebind (ewrap PLoad (st_RunByID (pl_store p) runID)) (IssuePipeline_loaded p runID)"

section \<open>The review run\<close>

text \<open>\<open>(?i)\[(verified|opinion)\]\<close>, each match replaced by nothing. Bytes that are no UTF-8 come out as the
  replacement character, which is what the marshalling behind it makes of them.\<close>

definition classificationToken :: rx where
  "classificationToken = Seq (lit ''['') (Seq (Grp 1 (Alt (ilit ''verified'') (ilit ''opinion''))) (lit '']''))"

definition stripClassificationTokens :: "string \<Rightarrow> string" where
  "stripClassificationTokens s = of_runes (replace_all classificationToken (\<lambda>_ _. []) None (to_runes s))"

definition verifyReviewWorktree :: "outside \<Rightarrow> string \<Rightarrow> string \<Rightarrow> (world, pipe_error, unit) eff" where
  "verifyReviewWorktree E worktree expectedHead =
     ebind (ewrap (\<lambda>_. PHeadUnknown) (git E [''-C'', worktree, ''rev-parse'', ''HEAD''])) (\<lambda>hd_out.
     let got = trim_space hd_out in
     if got \<noteq> expectedHead then efail (PHeadChanged got)
     else
       ebind (ewrap (\<lambda>_. PStatusUnknown) (git E [''-C'', worktree, ''status'', ''--porcelain''])) (\<lambda>status.
       if status \<noteq> [] then efail (PModified (trim_space status)) else eret ()))"

definition model_comment :: "review_comment \<Rightarrow> review_comment" where
  "model_comment c = c\<lparr>rc_body := stripClassificationTokens (rc_body c), rc_verified := False, rc_evidence := []\<rparr>"

definition finding_comment :: "review_finding \<Rightarrow> review_comment" where
  "finding_comment f =
     \<lparr>rc_path = rf_path f, rc_line = rf_line f, rc_side = ''RIGHT'', rc_body = rf_rule f @ '': '' @ rf_detail f,
      rc_verified = True, rc_evidence = rf_evidence f\<rparr>"

text \<open>The review that is posted: the findings first, then the model's remarks, cut at the grant's limit.\<close>

definition trusted_comments :: "grant \<Rightarrow> review_finding list \<Rightarrow> post_review \<Rightarrow> review_comment list" where
  "trusted_comments g findings model =
     (let comments = map finding_comment (order_by finding_less findings) @ map model_comment (review_comments model);
          limit = lim_comments (g_limits g) in
      if limit \<ge> 0 \<and> int (length comments) > limit then take (nat limit) comments else comments)"

definition trusted_review :: "grant \<Rightarrow> review_finding list \<Rightarrow> post_review \<Rightarrow> post_review" where
  "trusted_review g findings model =
     (let cs = trusted_comments g findings model in
      \<lparr>pr_verdict = pr_verdict model, pr_summary = stripClassificationTokens (pr_summary model), pr_comments = (cs, length cs)\<rparr>)"

definition review_envelope :: "string \<Rightarrow> post_review \<Rightarrow> envelope" where
  "review_envelope runID r =
     \<lparr>env_schema = SchemaVersion, env_run = runID, env_kind = KindPostReview, env_payload = marshal (enc_post_review r), env_sources = []\<rparr>"

definition review_publish ::
  "outside \<Rightarrow> review_pipeline \<Rightarrow> string \<Rightarrow> grant \<Rightarrow> string \<Rightarrow> review_finding list \<Rightarrow> post_review \<Rightarrow> (world, pipe_error, string) eff" where
  "review_publish E p runID g worktree findings model =
     or_fail p runID PExecute (pl_exec p (review_envelope runID (trusted_review g findings model)) g worktree) (\<lambda>cr.
     or_fail p runID PRef (st_SetRunRef (pl_store p) runID (xr_ref cr)) (\<lambda>_.
     ebind (ewrap PStatus (st_SetRunStatus (pl_store p) runID RunSucceeded)) (\<lambda>_.
     eret (xr_ref cr))))"

definition review_settle ::
  "outside \<Rightarrow> review_pipeline \<Rightarrow> string \<Rightarrow> grant \<Rightarrow> string \<Rightarrow> review_finding list \<Rightarrow> run_result \<Rightarrow> (world, pipe_error, string) eff" where
  "review_settle E p runID g worktree findings res =
     or_fail p runID id (verifyReviewWorktree E worktree (sc_head_sha (g_scope g))) (\<lambda>_.
     case rr_intents res of
       [env] \<Rightarrow>
         if env_kind env \<noteq> KindPostReview then pipe_fail p runID (PNotReview (env_kind env))
         else
           ebind (pl_now p) (\<lambda>now.
           case Validate env g now of
             Inl e \<Rightarrow> pipe_fail p runID (PReviewIntent e)
           | Inr (PPostReview model) \<Rightarrow> review_publish E p runID g worktree findings model
           | Inr _ \<Rightarrow> efail PNotAReview)
     | envs \<Rightarrow> pipe_fail p runID (PNotOneReview (length envs)))"

definition acknowledge :: "review_pipeline \<Rightarrow> grant \<Rightarrow> (world, pipe_error, unit) eff" where
  "acknowledge p g =
     (case pl_acknowledge p of
        Some ack \<Rightarrow> if g_manual g then eignore (ack g) else eret ()
      | None \<Rightarrow> eret ())"

definition review_scope_ok :: "scope \<Rightarrow> bool" where
  "review_scope_ok s \<longleftrightarrow> sc_kind s = ScopePullRequest \<and> sc_number s \<noteq> 0 \<and>
     trim_space (sc_base_sha s) \<noteq> [] \<and> trim_space (sc_head_sha s) \<noteq> []"

definition ReviewPipeline_loaded :: "outside \<Rightarrow> review_pipeline \<Rightarrow> string \<Rightarrow> ledger_run \<Rightarrow> (world, pipe_error, string) eff" where
  "ReviewPipeline_loaded E p runID run =
     (let g = lr_grant run; s = g_scope g in
     ebind (ewrap PStatus (st_SetRunStatus (pl_store p) runID RunRunning)) (\<lambda>_.
     if \<not> review_scope_ok s then pipe_fail p runID PScope
     else
       ebind (pl_now p) (\<lambda>now.
       if now > g_expires g then pipe_fail p runID PExpired
       else
         ebind (acknowledge p g) (\<lambda>_.
         or_fail p runID PSandbox (pl_review_sandbox p (repo_path (g_repo g)) (sc_number s) (sc_base_sha s) (sc_head_sha s)) (\<lambda>worktree.
         or_fail p runID PChecks (pl_checks p worktree) (\<lambda>findings.
         or_fail p runID (\<lambda>_. PAgent)
           (pl_agent p \<lparr>ri_run = runID,
              ri_task = ReviewTask \<lparr>rt_pr = sc_number s, rt_base_sha = sc_base_sha s, rt_head_sha = sc_head_sha s, rt_url = clone_url (g_repo g)\<rparr>,
              ri_graph_key = [], ri_worktree = worktree, ri_limits = wall_limits\<rparr>) (\<lambda>res.
         ebind (recordUsage (pl_store p) runID res) (\<lambda>_.
         review_settle E p runID g worktree findings res))))))))"

definition ReviewPipeline_Run :: "outside \<Rightarrow> review_pipeline \<Rightarrow> string \<Rightarrow> (world, pipe_error, string) eff" where
  "ReviewPipeline_Run E p runID = ebind (ewrap PLoad (st_RunByID (pl_store p) runID)) (ReviewPipeline_loaded E p runID)"

section \<open>What the steps keep\<close>

text \<open>What stays of a run once it is inserted, with the jobs: no step of a job adds or removes any.\<close>

definition run_core :: "run_row \<Rightarrow> string \<times> string \<times> string \<times> grant \<times> string" where
  "run_core r = (rn_id r, rn_repo r, rn_trigger r, rn_grant r, rn_decision r)"

definition inserted :: "db \<Rightarrow> (string \<times> string \<times> string \<times> grant \<times> string) list \<times> string list" where
  "inserted d = (map run_core (db_runs d), db_jobs d)"

text \<open>A job of the run \<open>i\<close> also leaves all other runs as they are, and the rules.\<close>

definition kept :: "string \<Rightarrow> db \<Rightarrow> ((string \<times> string \<times> string \<times> grant \<times> string) list \<times> string list) \<times> run_row list \<times> config_row list" where
  "kept i d = (inserted d, filter (\<lambda>r. rn_id r \<noteq> i) (db_runs d), db_config d)"

definition row_stays :: "string \<Rightarrow> (world, 'e, 'a) eff \<Rightarrow> bool" where
  "row_stays i m \<longleftrightarrow> keeps (\<lambda>w v. kept i (w_db v) = kept i (w_db w)) m"

named_theorems row_intros "which steps keep the rows of runs"

lemma find_core: "map_option run_core (find_run i d) = List.find (\<lambda>c. fst c = i) (fst (inserted d))"
proof -
  have "map_option run_core (List.find (\<lambda>r. rn_id r = i) rs) = List.find (\<lambda>c. fst c = i) (map run_core rs)" for rs
    by (induction rs) (auto simp: run_core_def)
  then show ?thesis by (simp add: find_run_def inserted_def)
qed

lemma kept_update_run:
  assumes "\<And>r. run_core (f r) = run_core r"
  shows "kept i (update_run i f d) = kept i d"
proof -
  have "rn_id (f r) = rn_id r" for r using assms [of r] by (simp add: run_core_def)
  then have "filter (\<lambda>r. rn_id r \<noteq> i) (map (\<lambda>r. if rn_id r = i then f r else r) rs) = filter (\<lambda>r. rn_id r \<noteq> i) rs" for rs
    by (induction rs) auto
  then show ?thesis using assms by (simp add: kept_def inserted_def update_run_def)
qed

text \<open>The tables a job writes beside its run do not matter.\<close>

lemma kept_others [simp]:
  "kept i (d\<lparr>db_intents := x\<rparr>) = kept i d" "kept i (d\<lparr>db_reviews := y\<rparr>) = kept i d"
  "kept i (d\<lparr>db_findings := fs\<rparr>) = kept i d" "kept i (d\<lparr>db_updates := us\<rparr>) = kept i d"
  by (simp_all add: kept_def inserted_def)

lemma find_filter: "P x \<Longrightarrow> List.find (\<lambda>r. g r = x) xs = List.find (\<lambda>r. g r = x) (filter (\<lambda>r. P (g r)) xs)"
  by (induction xs) auto

lemma kept_find: "kept i d' = kept i d \<Longrightarrow> j \<noteq> i \<Longrightarrow> find_run j d' = find_run j d"
  unfolding kept_def find_run_def using find_filter [of "\<lambda>k. k \<noteq> i" j rn_id] by (metis prod.inject)

lemma row_staysI: "(\<And>w r v. m w = (r, v) \<Longrightarrow> kept i (w_db v) = kept i (w_db w)) \<Longrightarrow> row_stays i m"
  unfolding row_stays_def by (rule keepsI) blast

lemma row_stays_kept: "row_stays i m \<Longrightarrow> m w = (r, v) \<Longrightarrow> kept i (w_db v) = kept i (w_db w)"
  unfolding row_stays_def by (drule keepsD) auto

lemma row_stays_inserted: "row_stays i m \<Longrightarrow> m w = (r, v) \<Longrightarrow> inserted (w_db v) = inserted (w_db w)"
  by (drule (1) row_stays_kept) (simp add: kept_def)

lemma row_staysD: "row_stays k m \<Longrightarrow> m w = (r, v) \<Longrightarrow> find_run i (w_db w) \<noteq> None \<Longrightarrow> find_run i (w_db v) \<noteq> None"
  using row_stays_inserted [of k m w r v] find_core [of i "w_db w"] find_core [of i "w_db v"] by (metis option.map_disc_iff)

lemma row_ebind [row_intros]: "row_stays i m \<Longrightarrow> (\<And>x. row_stays i (f x)) \<Longrightarrow> row_stays i (ebind m f)"
  unfolding row_stays_def
  by (rule keeps_ebind [where R = "\<lambda>w v. kept i (w_db v) = kept i (w_db w)"]) auto

lemma row_basic [row_intros]: "row_stays i (eret x)" "row_stays i (efail e)" "row_stays i (elift r)"
  unfolding row_stays_def by (simp_all add: keeps_eret keeps_efail keeps_elift)

lemma row_wrapped [row_intros]:
  "row_stays i m \<Longrightarrow> row_stays i (ewrap h m)" "row_stays i m \<Longrightarrow> row_stays i (eignore m)" "row_stays i m \<Longrightarrow> row_stays i (etry m)"
  unfolding row_stays_def by (simp_all add: keeps_ewrap keeps_eignore keeps_etry)

lemma row_branches [row_intros]:
  "(b \<Longrightarrow> row_stays i m) \<Longrightarrow> (\<not> b \<Longrightarrow> row_stays i n) \<Longrightarrow> row_stays i (if b then m else n)"
  "(x = None \<Longrightarrow> row_stays i m) \<Longrightarrow> (\<And>y. x = Some y \<Longrightarrow> row_stays i (f y)) \<Longrightarrow> row_stays i (case x of None \<Rightarrow> m | Some y \<Rightarrow> f y)"
  "(\<And>a. s = Inl a \<Longrightarrow> row_stays i (g a)) \<Longrightarrow> (\<And>b. s = Inr b \<Longrightarrow> row_stays i (h b)) \<Longrightarrow> row_stays i (case s of Inl a \<Rightarrow> g a | Inr b \<Rightarrow> h b)"
  by (simp, cases x, simp_all, cases s, simp_all)

lemma row_still: "db_still m \<Longrightarrow> row_stays i m"
  by (rule row_staysI) (drule db_stillD, auto)

lemma row_exec_stmt: "(\<And>t d. kept i (snd (f t d)) = kept i d) \<Longrightarrow> row_stays i (exec_stmt E f)"
  by (rule row_staysI) (use exec_stmt_db in metis)

lemma row_store [row_intros]:
  "row_stays i (RunByID E j)" "row_stays i (SetRunStatus E i s)" "row_stays i (SetRunFailure E i t)"
  "row_stays i (SetRunNeedsInput E i t)" "row_stays i (SetRunRef E i t)" "row_stays i (SetRunUsage E i m a b c)"
  unfolding RunByID_def SetRunStatus_def SetRunFailure_def SetRunNeedsInput_def SetRunRef_def SetRunUsage_def
  by (rule row_exec_stmt, auto simp: stmt_run_by_id_def stmt_set_status_def stmt_set_failure_def stmt_set_needs_input_def
      stmt_set_ref_def stmt_set_usage_def run_core_def intro!: kept_update_run split: option.splits)+

section \<open>How a run ends\<close>

definition ended :: "string \<Rightarrow> world \<Rightarrow> bool" where
  "ended i w \<longleftrightarrow> (\<exists>r. find_run i (w_db w) = Some r \<and> terminal (rn_status r))"

text \<open>When it returns without an error, the run has ended.\<close>

definition ends_ok :: "string \<Rightarrow> (world, 'e, 'a) eff \<Rightarrow> bool" where
  "ends_ok i m \<longleftrightarrow> (\<forall>w x v. m w = (Inr x, v) \<longrightarrow> find_run i (w_db w) \<noteq> None \<longrightarrow> ended i v)"

named_theorems end_intros "when a run has ended"

lemma ends_okD: "ends_ok i m \<Longrightarrow> m w = (Inr x, v) \<Longrightarrow> find_run i (w_db w) \<noteq> None \<Longrightarrow> ended i v"
  unfolding ends_ok_def by blast

lemma ends_efail [end_intros]: "ends_ok i (efail e)"
  by (simp add: ends_ok_def)

lemma ends_ebind [end_intros]: "row_stays i m \<Longrightarrow> (\<And>x. ends_ok i (f x)) \<Longrightarrow> ends_ok i (ebind m f)"
  unfolding ends_ok_def ebind_Inr_iff using row_staysD by blast

lemma ends_branches [end_intros]:
  "(b \<Longrightarrow> ends_ok i m) \<Longrightarrow> (\<not> b \<Longrightarrow> ends_ok i n) \<Longrightarrow> ends_ok i (if b then m else n)"
  "(x = None \<Longrightarrow> ends_ok i m) \<Longrightarrow> (\<And>y. x = Some y \<Longrightarrow> ends_ok i (f y)) \<Longrightarrow> ends_ok i (case x of None \<Rightarrow> m | Some y \<Rightarrow> f y)"
  "(\<And>a. s = Inl a \<Longrightarrow> ends_ok i (g a)) \<Longrightarrow> (\<And>b. s = Inr b \<Longrightarrow> ends_ok i (h b)) \<Longrightarrow> ends_ok i (case s of Inl a \<Rightarrow> g a | Inr b \<Rightarrow> h b)"
  by (simp, cases x, simp_all, cases s, simp_all)

lemma update_ends:
  assumes "exec_stmt E (\<lambda>t d. (Inr (), update_run i (f t) d)) w = (Inr u, v)" "find_run i (w_db w) \<noteq> None"
    and "\<And>t r. rn_id (f t r) = rn_id r" "\<And>t r. rn_status (f t r) = s" "terminal s"
  shows "ended i v"
proof -
  obtain r where r: "find_run i (w_db w) = Some r" using assms(2) by blast
  then have "rn_id r = i" by (auto simp: find_run_def dest: find_Some_set)
  then show ?thesis
    using assms(1) r assms(4,5) by (auto simp: exec_stmt_Inr ended_def find_update_run [OF assms(3)])
qed

lemma ends_set_status: "terminal s \<Longrightarrow> ends_ok i (ebind (ewrap h (SetRunStatus E i s)) (\<lambda>_. eret x))"
  unfolding ends_ok_def eff_iffs SetRunStatus_def stmt_set_status_def [abs_def]
  by (auto intro: update_ends [where s = s])

lemma ends_set_failure [end_intros]: "ends_ok i (ebind (ewrap h (SetRunFailure E i t)) (\<lambda>_. eret x))"
  unfolding ends_ok_def eff_iffs SetRunFailure_def stmt_set_failure_def [abs_def]
  by (auto intro: update_ends [where s = RunFailed] simp: terminal_def)

lemma ends_set_needs_input [end_intros]: "ends_ok i (ebind (ewrap h (SetRunNeedsInput E i t)) (\<lambda>_. eret x))"
  unfolding ends_ok_def eff_iffs SetRunNeedsInput_def stmt_set_needs_input_def [abs_def]
  by (auto intro: update_ends [where s = RunNeedsInput] simp: terminal_def)

section \<open>Interface: the seams of a pipeline\<close>

text \<open>
  What the pipelines rely on: the store is the ledger, the write seam keeps the rows of runs and makes
  only calls that \<open>writes\<close> allows for its arguments, agent, sandbox and clock make none and leave
  the tables alone, and what the agent answers is among its \<open>answers\<close>.
\<close>

locale run_seams =
  fixes E :: outside and p :: "'a pipeline_scheme"
    and writes :: "envelope \<Rightarrow> grant \<Rightarrow> string \<Rightarrow> event \<Rightarrow> bool"
    and answers :: "run_input \<Rightarrow> run_result \<Rightarrow> bool"
  assumes store: "pl_store p = pg_store E"
    and exec_rows: "row_stays i (pl_exec p env g wt)"
    and exec_logs: "logs (writes env g wt) (pl_exec p env g wt)"
    and agent_quiet: "db_still (pl_agent p input)" "logs (\<lambda>_. False) (pl_agent p input)"
    and agent_answers: "pl_agent p input w = (Inr res, v) \<Longrightarrow> answers input res"
    and sandbox_quiet: "db_still (pl_sandbox p r)" "logs (\<lambda>_. False) (pl_sandbox p r)"
    and now_quiet: "db_still (pl_now p)" "logs (\<lambda>_. False) (pl_now p)"
begin

lemma store_simps [simp]:
  "st_RunByID (pl_store p) = RunByID E" "st_SetRunStatus (pl_store p) = SetRunStatus E"
  "st_SetRunFailure (pl_store p) = SetRunFailure E" "st_SetRunNeedsInput (pl_store p) = SetRunNeedsInput E"
  "st_SetRunRef (pl_store p) = SetRunRef E" "st_SetRunUsage (pl_store p) = SetRunUsage E"
  by (simp_all add: store pg_store_def)

text \<open>The rows of runs stay.\<close>

lemma row_fail [row_intros]: "row_stays i (pipe_fail p i e)"
  unfolding pipe_fail_def store_simps by (intro row_intros)

lemma row_or_fail [row_intros]: "row_stays i m \<Longrightarrow> (\<And>x. row_stays i (f x)) \<Longrightarrow> row_stays i (or_fail p i h m f)"
  unfolding or_fail_def by (intro row_intros)

lemma row_usage [row_intros]: "row_stays i (recordUsage (pl_store p) i res)"
  unfolding recordUsage_def store_simps by (intro row_intros)

lemmas row_seams [row_intros] =
  exec_rows row_still [OF agent_quiet(1)] row_still [OF sandbox_quiet(1)] row_still [OF now_quiet(1)]

lemma row_success [row_intros]: "row_stays i (record_success (pl_store p) i cr)"
  unfolding record_success_def store_simps by (intro row_intros)

lemma row_Pipeline: "row_stays i (Pipeline_loaded p i run)"
  unfolding Pipeline_loaded_def pipeline_settle_def stand_down_def store_simps Let_def by (intro row_intros)

lemma row_recordBlocked [row_intros]: "row_stays i (recordBlocked p i g wt v)"
  unfolding recordBlocked_def store_simps Let_def by (intro row_intros)

lemma row_issue_propose [row_intros]: "row_stays i (issue_propose p i g wt res)"
  unfolding issue_propose_def store_simps by (cases "rr_intents res"; cases "tl (rr_intents res)") (auto intro!: row_intros)

lemma row_Issue: "row_stays i (IssuePipeline_loaded p i run)"
  unfolding IssuePipeline_loaded_def issue_settle_def store_simps Let_def by (intro row_intros)

text \<open>A pipeline that returns without an error has ended its run.\<close>

lemma ends_fail [end_intros]: "ends_ok i (pipe_fail p i e)"
  unfolding pipe_fail_def store_simps by (intro end_intros row_intros)

lemma ends_or_fail [end_intros]: "row_stays i m \<Longrightarrow> (\<And>x. ends_ok i (f x)) \<Longrightarrow> ends_ok i (or_fail p i h m f)"
  unfolding or_fail_def by (intro end_intros row_intros)

lemma ends_success [end_intros]: "ends_ok i (record_success (pl_store p) i cr)"
  unfolding record_success_def store_simps
  by (intro ends_ebind row_intros ends_set_status) (simp add: terminal_def)

lemma ends_Pipeline: "ends_ok i (Pipeline_loaded p i run)"
  unfolding Pipeline_loaded_def pipeline_settle_def stand_down_def store_simps Let_def by (intro end_intros row_intros)

lemma ends_recordBlocked [end_intros]: "ends_ok i (recordBlocked p i g wt v)"
  unfolding recordBlocked_def store_simps Let_def
  by (rule ends_ebind, intro row_intros, rule ends_ebind, intro row_intros, rule ends_set_needs_input)

lemma ends_issue_propose [end_intros]: "ends_ok i (issue_propose p i g wt res)"
  unfolding issue_propose_def by (cases "rr_intents res"; cases "tl (rr_intents res)") (auto intro!: end_intros row_intros)

lemma ends_Issue: "ends_ok i (IssuePipeline_loaded p i run)"
  unfolding IssuePipeline_loaded_def issue_settle_def store_simps Let_def by (intro end_intros row_intros)

end

section \<open>The calls of a run\<close>

text \<open>What an answer of the agent makes a security run write with.\<close>

definition security_intent :: "(run_input \<Rightarrow> run_result \<Rightarrow> bool) \<Rightarrow> string \<Rightarrow> envelope \<Rightarrow> bool" where
  "security_intent answered j env \<longleftrightarrow> env_kind env = KindOpenPR \<and>
     (\<exists>input res b. answered input res \<and> ri_run input = j \<and> ri_task input = SecurityTask b \<and> env \<in> set (rr_intents res))"

text \<open>An issue run writes with the one comment that hands it over, or with a draft.\<close>

definition issue_intent :: "envelope \<Rightarrow> bool" where
  "issue_intent env \<longleftrightarrow> env_kind env = KindPostComment \<or>
     (env_kind env = KindOpenPR \<and> (\<exists>v. unmarshal_open_pr (env_payload env) = Some v \<and> op_draft v))"

context run_seams
begin

lemma logs_store [trace_intros]:
  "logs P (RunByID E j)" "logs P (SetRunStatus E j s)" "logs P (SetRunFailure E j t)"
  "logs P (SetRunNeedsInput E j t)" "logs P (SetRunRef E j t)" "logs P (SetRunUsage E j m a b c)"
  unfolding RunByID_def SetRunStatus_def SetRunFailure_def SetRunNeedsInput_def SetRunRef_def SetRunUsage_def
  by (intro trace_intros)+

lemma logs_fail [trace_intros]: "logs P (pipe_fail p j e)"
  unfolding pipe_fail_def store_simps by (intro trace_intros)

lemma logs_or_fail [trace_intros]: "logs P m \<Longrightarrow> (\<And>x. logs P (f x)) \<Longrightarrow> logs P (or_fail p j h m f)"
  unfolding or_fail_def by (intro trace_intros)

lemma logs_usage [trace_intros]: "logs P (recordUsage (pl_store p) j res)"
  unfolding recordUsage_def store_simps by (intro trace_intros)

lemma logs_silent: "logs (\<lambda>_. False) m \<Longrightarrow> logs P m"
  by (erule logs_mono) simp

lemmas logs_seams [trace_intros] =
  logs_silent [OF agent_quiet(2)] logs_silent [OF sandbox_quiet(2)] logs_silent [OF now_quiet(2)]

lemma logs_success [trace_intros]: "logs P (record_success (pl_store p) j cr)"
  unfolding record_success_def store_simps by (intro trace_intros)

lemma logs_or_fail_reach:
  "logs P m \<Longrightarrow> (\<And>w x v. m w = (Inr x, v) \<Longrightarrow> logs P (f x)) \<Longrightarrow> logs P (or_fail p j h m f)"
  unfolding or_fail_def
  by (rule logs_ebind_reach, intro trace_intros) (auto simp: etry_eq logs_fail split: sum.splits)

text \<open>A security run writes with an intent of its agent to open a pull request only.\<close>

lemma logs_Pipeline: "logs (\<lambda>e. \<exists>env wt. security_intent answers j env \<and> writes env (lr_grant run) wt e) (Pipeline_loaded p j run)"
proof -
  let ?P = "\<lambda>e. \<exists>env wt. security_intent answers j env \<and> writes env (lr_grant run) wt e"
  have exec: "logs ?P (pl_exec p env (lr_grant run) wt)" if "security_intent answers j env" for env wt
    by (rule logs_mono [OF exec_logs]) (use that in blast)
  have settle: "logs ?P (pipeline_settle p j (lr_grant run) wt res)"
    if "pl_agent p \<lparr>ri_run = j, ri_task = SecurityTask b, ri_graph_key = k, ri_worktree = wt', ri_limits = l\<rparr> w = (Inr res, v)" for wt res b k wt' l w v
  proof -
    have "find (\<lambda>env. env_kind env = KindOpenPR) (rr_intents res) = Some env \<Longrightarrow> security_intent answers j env" for env
      using agent_answers [OF that] by (fastforce simp: security_intent_def dest: find_Some_set)
    then show ?thesis
      unfolding pipeline_settle_def stand_down_def store_simps by (intro trace_intros exec)
  qed
  have agent: "logs ?P (or_fail p j (\<lambda>_. PAgent)
         (pl_agent p \<lparr>ri_run = j, ri_task = SecurityTask b, ri_graph_key = [], ri_worktree = wt, ri_limits = wall_limits\<rparr>) (\<lambda>res.
       ebind (recordUsage (pl_store p) j res) (\<lambda>_.
       pipeline_settle p j (lr_grant run) wt res)))" for b wt
    by (rule logs_or_fail_reach) (intro trace_intros settle, assumption?)+
  show ?thesis
    unfolding Pipeline_loaded_def store_simps Let_def by (intro trace_intros agent)
qed

lemma logs_Issue: "logs (\<lambda>e. \<exists>env wt. issue_intent env \<and> writes env (lr_grant run) wt e) (IssuePipeline_loaded p j run)"
proof -
  let ?P = "\<lambda>e. \<exists>env wt. issue_intent env \<and> writes env (lr_grant run) wt e"
  have exec: "issue_intent env \<Longrightarrow> logs ?P (pl_exec p env (lr_grant run) wt)" for env wt
    by (rule logs_mono [OF exec_logs]) blast
  then have blocked: "logs ?P (recordBlocked p j (lr_grant run) wt v)" for wt v
    unfolding recordBlocked_def store_simps Let_def by (intro trace_intros exec) (simp add: issue_intent_def)
  have propose: "logs ?P (issue_propose p j (lr_grant run) wt res)" for wt res
  proof -
    have "env_kind env = KindOpenPR \<Longrightarrow> unmarshal_open_pr (env_payload env) = Some v \<Longrightarrow> op_draft v \<Longrightarrow>
        logs ?P (pl_exec p env (lr_grant run) wt)" for env v
      by (rule exec) (simp add: issue_intent_def)
    then show ?thesis
      unfolding issue_propose_def by (cases "rr_intents res"; cases "tl (rr_intents res)") (auto intro!: trace_intros)
  qed
  show ?thesis
    unfolding IssuePipeline_loaded_def issue_settle_def store_simps Let_def by (intro trace_intros blocked propose)
qed

end

section \<open>Interface: the seams of a review\<close>

text \<open>
  A review has three more seams: the acknowledgement, whose calls are among \<open>acks\<close>, the checkout of
  the pull request and the checks, which make no calls.
\<close>

locale review_seams = run_seams E p writes answers
  for E and p :: review_pipeline and writes answers +
  fixes acks :: "grant \<Rightarrow> event \<Rightarrow> bool"
  assumes ack_seam: "pl_acknowledge p = Some ack \<Longrightarrow> row_stays i (ack g) \<and> logs (acks g) (ack g)"
    and review_sandbox_quiet: "db_still (pl_review_sandbox p r n b h)" "logs (\<lambda>_. False) (pl_review_sandbox p r n b h)"
    and checks_quiet: "db_still (pl_checks p wt)" "logs (\<lambda>_. False) (pl_checks p wt)"
begin

lemma row_acknowledge [row_intros]: "row_stays i (acknowledge p g)"
  unfolding acknowledge_def using ack_seam by (intro row_intros) simp

lemma verify_quiet: "db_still (verifyReviewWorktree E wt h)" "logs P (verifyReviewWorktree E wt h)"
  unfolding verifyReviewWorktree_def Let_def by (intro trace_intros)+

lemmas row_review_seams [row_intros] =
  row_still [OF review_sandbox_quiet(1)] row_still [OF checks_quiet(1)] row_still [OF verify_quiet(1)]

lemmas logs_review_seams [trace_intros] =
  logs_silent [OF review_sandbox_quiet(2)] logs_silent [OF checks_quiet(2)] verify_quiet(2)

lemma ends_review_publish [end_intros]: "ends_ok i (review_publish E p i g wt findings model)"
  unfolding review_publish_def store_simps
  by (intro ends_or_fail row_intros ends_set_status) (simp add: terminal_def)

text \<open>What holds of the outcomes holds of the switch over the envelopes.\<close>

lemma review_settle_cases:
  assumes "\<And>e. Q (pipe_fail p i e)" "Q (efail PNotAReview)"
    and "\<And>f. (\<And>now. Q (f now)) \<Longrightarrow> Q (ebind (pl_now p) f)"
    and "\<And>model. Q (review_publish E p i g wt findings model)"
  shows "Q (case rr_intents res of
       [env] \<Rightarrow>
         if env_kind env \<noteq> KindPostReview then pipe_fail p i (PNotReview (env_kind env))
         else
           ebind (pl_now p) (\<lambda>now.
           case Validate env g now of
             Inl e \<Rightarrow> pipe_fail p i (PReviewIntent e)
           | Inr (PPostReview model) \<Rightarrow> review_publish E p i g wt findings model
           | Inr _ \<Rightarrow> efail PNotAReview)
     | envs \<Rightarrow> pipe_fail p i (PNotOneReview (length envs)))"
  using assms by (auto split: list.splits sum.splits payload.splits)

lemma row_review_publish [row_intros]: "row_stays i (review_publish E p i g wt findings model)"
  unfolding review_publish_def store_simps by (intro row_intros)

lemma row_Review: "row_stays i (ReviewPipeline_loaded E p i run)"
proof -
  note settle = review_settle_cases [where Q = "row_stays i"]
  show ?thesis
    unfolding ReviewPipeline_loaded_def review_settle_def store_simps Let_def by (intro row_intros settle)
qed

lemma ends_Review: "ends_ok i (ReviewPipeline_loaded E p i run)"
proof -
  note settle = review_settle_cases [where Q = "ends_ok i"]
  show ?thesis
    unfolding ReviewPipeline_loaded_def review_settle_def store_simps Let_def by (intro end_intros row_intros settle)
qed

text \<open>A review run writes with a review the pipeline composed itself, behind the acknowledgement.\<close>

lemma logs_Review:
  "logs (\<lambda>e. acks (lr_grant run) e \<or> (\<exists>findings model wt. writes (review_envelope i (trusted_review (lr_grant run) findings model)) (lr_grant run) wt e))
     (ReviewPipeline_loaded E p i run)"
proof -
  let ?g = "lr_grant run"
  let ?P = "\<lambda>e. acks ?g e \<or> (\<exists>findings model wt. writes (review_envelope i (trusted_review ?g findings model)) ?g wt e)"
  have ack: "logs ?P (acknowledge p ?g)"
  proof -
    have "logs ?P (ack ?g)" if "pl_acknowledge p = Some ack" for ack
      using logs_mono [of "acks ?g" "ack ?g" ?P] ack_seam [OF that] by blast
    then show ?thesis unfolding acknowledge_def by (intro trace_intros)
  qed
  have exec: "logs ?P (pl_exec p (review_envelope i (trusted_review ?g findings model)) ?g wt)" for findings model wt
    by (rule logs_mono [OF exec_logs]) blast
  have publish: "logs ?P (review_publish E p i ?g wt findings model)" for wt findings model
    unfolding review_publish_def store_simps by (intro trace_intros exec)
  note settle = review_settle_cases [where Q = "logs ?P"]
  show ?thesis
    unfolding ReviewPipeline_loaded_def review_settle_def store_simps Let_def by (intro trace_intros ack publish settle)
qed

end

section \<open>The grant of a run\<close>

lemma RunByID_row:
  assumes "RunByID E i w = (Inr run, v)"
  obtains r where "find_run i (w_db w) = Some r" "lr_grant run = rn_grant r" "lr_trigger run = rn_trigger r"
    "w_db v = w_db w" "w_log v = w_log w"
  using assms unfolding RunByID_def exec_stmt_Inr
  by (auto simp: stmt_run_by_id_def split: option.splits)

lemma token_at:
  "find_here classificationToken pv rs = None" if "rs = [] \<or> hd rs \<noteq> 91"
  using that by (cases rs) (auto simp: find_here_None_iff classificationToken_def lit_def)

lemma nested_token:
  "replace_all classificationToken (\<lambda>_ _. []) pv (asc ''[veri[verified]fied]'') = asc ''[verified]''"
proof -
  let ?in = "asc ''[verified]''" and ?tail = "asc ''fied]''"
  have none: "find_here classificationToken pv (91 # asc ''veri'' @ ?in @ ?tail) = None" for pv
    by (simp add: find_here_def classificationToken_def lit_def ilit_def asc_def fold_rune_def is_upper_def)
  have match: "find_here classificationToken pv (?in @ ?tail) = Some (after pv ?in, ?tail, [(1, asc ''verified'')])" for pv
    by (simp add: find_here_def classificationToken_def lit_def ilit_def asc_def fold_rune_def is_upper_def)
  have "replace_all classificationToken (\<lambda>_ _. []) pv (?in @ ?tail) = replace_all classificationToken (\<lambda>_ _. []) (after pv ?in) ?tail" for pv
    using replace_all_match [OF match, of "\<lambda>_ _. []"] by (simp add: asc_def)
  moreover have "replace_all classificationToken (\<lambda>_ _. []) pv ?tail = ?tail" for pv
    by (simp add: asc_def replace_all_skip token_at)
  ultimately show ?thesis
    using none by (simp add: asc_def replace_all_skip token_at)
qed

text \<open>
  The classification tokens are removed once, from left to right: what a removal brings together is not looked
  at again, so a remark can carry a token that the checks alone are to give.
\<close>

theorem nested_token_survives: "stripClassificationTokens ''[veri[verified]fied]'' = ''[verified]''"
  using nested_token [of None]
  by (simp add: stripClassificationTokens_def to_runes_ascii ascii_def of_runes_asc)

section \<open>What the review run posts\<close>

text \<open>A string as \<open>encoding/json\<close> carries it: bytes that are no UTF-8 come out as the replacement character.\<close>

definition carried :: "string \<Rightarrow> string" where
  "carried s = of_runes (to_runes s)"

definition carried_comment :: "review_comment \<Rightarrow> review_comment" where
  "carried_comment c = c\<lparr>rc_path := carried (rc_path c), rc_side := carried (rc_side c),
     rc_body := carried (rc_body c), rc_evidence := carried (rc_evidence c)\<rparr>"

lemma dec_jstr_carried [simp]: "dec_string (jstr s) old = Some (carried s)"
  by (simp add: jstr_def dec_string_def carried_def)

lemma carried_utf8 [simp]: "valid_utf8 s \<Longrightarrow> carried s = s"
  by (simp add: carried_def valid_utf8_def)

lemma carried_ascii: "ascii s \<Longrightarrow> carried s = s"
  by (simp add: carried_def to_runes_ascii of_runes_asc)

lemma carried_Nil [simp]: "carried [] = []"
  by (rule carried_ascii) (simp add: ascii_def)

lemma dec_jint_only: "dec_int (jint i) old = Some j \<Longrightarrow> j = i"
  by (rule atoi_itoa_only) (simp add: jint_def dec_int_def of_runes_asc itoa_ascii)

lemma dec_enc_comment_carried:
  assumes "dec_struct True comment_field (enc_comment c) zero_comment = Some d"
  shows "d = carried_comment c"
proof -
  obtain l where l: "dec_int (jint (rc_line c)) 0 = Some l"
    using assms by (cases "dec_int (jint (rc_line c)) 0")
      (simp_all add: dec_struct_def enc_comment_def comment_fields into_def zero_comment_def)
  with assms show ?thesis
    using dec_jint_only [OF l]
    by (cases c) (auto simp: dec_struct_def enc_comment_def comment_fields into_def zero_comment_def carried_comment_def
      split: if_splits)
qed

text \<open>A review that was marshalled is decoded to its own comments or not at all.\<close>

lemma decoded_comments:
  assumes "decode_payload post_review_field zero_post_review (marshal (enc_post_review r)) = Inr q"
  shows "review_comments q = map carried_comment (review_comments r)"
proof -
  let ?v = "enc_post_review r"
  have "printable 10000 ?v"
    by (auto simp: enc_post_review_def asc_valid printable_enc_comment)
  then have q: "dec_struct True post_review_field ?v zero_post_review = Some q"
    using assms decode_first_marshal [of ?v] by (simp add: decode_payload_def max_nesting_depth_def split: option.splits)
  obtain ys where ys: "dec_slice (dec_struct True comment_field) zero_comment (JArr (map enc_comment (review_comments r))) ([], 0) = Some ys"
    using q by (cases "dec_slice (dec_struct True comment_field) zero_comment (JArr (map enc_comment (review_comments r))) ([], 0)")
      (simp_all add: enc_post_review_def dec_struct_def post_review_fields into_def zero_post_review_def)
  have "slice_list ys = map carried_comment (review_comments r)"
    using ys dec_enc_comment_carried by (rule dec_slice_only)
  moreover have "pr_comments q = ys"
    using q ys by (auto simp: enc_post_review_def dec_struct_def post_review_fields into_def zero_post_review_def)
  ultimately show ?thesis by (simp add: review_comments_def)
qed

text \<open>A comment a check has given rise to, as it is posted: the tag, the place, and the check's own words and
  evidence, sanitised.\<close>

definition from_finding :: "scope \<Rightarrow> review_finding \<Rightarrow> review_comment \<Rightarrow> bool" where
  "from_finding sc f c \<longleftrightarrow> rc_verified c \<and> rc_path c = carried (rf_path f) \<and> rc_line c = rf_line f \<and> rc_side c = ''RIGHT'' \<and>
     sanitiseBody (carried (rf_rule f @ '': '' @ rf_detail f)) 4096 sc = Some (rc_body c) \<and>
     sanitiseBody (carried (rf_evidence f)) 4096 sc = Some (rc_evidence c)"

definition from_model :: "review_comment \<Rightarrow> bool" where
  "from_model c \<longleftrightarrow> \<not> rc_verified c \<and> rc_evidence c = []"

lemma sanitised_finding:
  "sanitise_comment sc (carried_comment (finding_comment f)) = Inr d \<Longrightarrow> from_finding sc f d"
  by (erule sanitise_commentE)
    (auto simp: from_finding_def carried_comment_def finding_comment_def comment_side_def carried_ascii ascii_def)

lemma sanitised_remark:
  "sanitise_comment sc (carried_comment (model_comment c)) = Inr d \<Longrightarrow> from_model d"
  by (erule sanitise_commentE) (auto simp: from_model_def carried_comment_def model_comment_def)

lemma rmap_list_all2: "rmap f xs = Inr ys \<Longrightarrow> list_all2 (\<lambda>x y. f x = Inr y) xs ys"
  by (induction xs arbitrary: ys) auto

lemma trusted_comments_shape:
  obtains fs ms where "trusted_comments g findings model = map finding_comment fs @ map model_comment ms"
    "prefix fs (order_by finding_less findings)" "prefix ms (review_comments model)"
    "ms \<noteq> [] \<Longrightarrow> fs = order_by finding_less findings"
proof -
  let ?fs = "order_by finding_less findings"
  show thesis
  proof (cases "lim_comments (g_limits g) \<ge> 0 \<and> int (length ?fs + length (review_comments model)) > lim_comments (g_limits g)")
    case True
    let ?n = "nat (lim_comments (g_limits g))"
    show thesis
      by (rule that [of "take ?n ?fs" "take (?n - length ?fs) (review_comments model)"])
        (use True in \<open>auto simp: trusted_comments_def Let_def take_map take_is_prefix\<close>)
  next
    case False
    then show thesis
      by (intro that [of ?fs "review_comments model"]) (auto simp: trusted_comments_def Let_def)
  qed
qed

text \<open>
  C18: What is marked as verified in a posted review comes from the checks alone: whatever the agent wrote, the
  comments of the review are sanitised findings of the checks, in their order and from the first one on, each with the
  check's evidence, and behind them remarks of the agent, none of which is marked verified or carries evidence. A
  remark is there only when every finding is.
\<close>

theorem verified_only_from_checks:
  assumes "Validate (review_envelope i (trusted_review g findings model)) g' now = Inr (PPostReview p)"
  shows "\<exists>fs ms. review_comments p = fs @ ms \<and> list_all from_model ms \<and> length ms \<le> length (review_comments model) \<and>
    list_all2 (from_finding (g_scope g')) (take (length fs) (order_by finding_less findings)) fs \<and>
    (ms \<noteq> [] \<longrightarrow> length fs = length findings)"
proof -
  let ?sc = "g_scope g'"
  let ?r = "trusted_review g findings model"
  have "decode_post_review (marshal (enc_post_review ?r)) g' = Inr (PPostReview p)"
    using assms by (simp add: Validate_iff decodeAndSanitise_def review_envelope_def kind_consts)
  then obtain q ds where q: "decode_payload post_review_field zero_post_review (marshal (enc_post_review ?r)) = Inr q"
    "rmap (sanitise_comment ?sc) (review_comments q) = Inr ds" "review_comments p = ds"
    by (auto simp: decode_post_review_def review_comments_def)
  obtain fs ms where s: "trusted_comments g findings model = map finding_comment fs @ map model_comment ms"
    "prefix fs (order_by finding_less findings)" "prefix ms (review_comments model)"
    "ms \<noteq> [] \<Longrightarrow> fs = order_by finding_less findings"
    using trusted_comments_shape by blast
  have "review_comments ?r = trusted_comments g findings model"
    by (simp add: trusted_review_def Let_def review_comments_def)
  then have "review_comments ?r = map finding_comment fs @ map model_comment ms"
    by (simp only: s(1))
  then have "list_all2 (\<lambda>c d. sanitise_comment ?sc c = Inr d)
      (map (carried_comment \<circ> finding_comment) fs @ map (carried_comment \<circ> model_comment) ms) ds"
    using rmap_list_all2 [OF q(2)] decoded_comments [OF q(1)] by simp
  then obtain as bs where d: "ds = as @ bs"
    "list_all2 (\<lambda>f d. sanitise_comment ?sc (carried_comment (finding_comment f)) = Inr d) fs as"
    "list_all2 (\<lambda>c d. sanitise_comment ?sc (carried_comment (model_comment c)) = Inr d) ms bs"
    by (auto simp: list_all2_append1 list_all2_map1)
  have "take (length as) (order_by finding_less findings) = fs"
    using s(2) list_all2_lengthD [OF d(2)] by (auto simp: prefix_def)
  moreover have "list_all2 (from_finding ?sc) fs as"
    using d(2) by (rule list_all2_mono) (rule sanitised_finding)
  moreover have "list_all from_model bs"
    using d(3) by (fastforce simp: list_all_length list_all2_conv_all_nth intro: sanitised_remark)
  moreover have "length bs \<le> length (review_comments model)"
    using s(3) list_all2_lengthD [OF d(3)] by (auto dest: prefix_length_le)
  moreover have "length as = length findings" if "bs \<noteq> []"
  proof -
    have "ms \<noteq> []" using that list_all2_lengthD [OF d(3)] by auto
    then show ?thesis using s(4) list_all2_lengthD [OF d(2)] by simp
  qed
  ultimately show ?thesis using q(3) d(1) by blast
qed


lemma sanitise_finding: "sanitiseBody ''r: d'' 4096 sc = Some ''r: d''"
proof -
  have "quote_mentions (strip_control (to_runes ''r: d'')) = [114, 58, 32, 100]" by code_simp
  moreover have "stripped sc None [114, 58, 32, 100] = [114, 58, 32, 100]" by (rule stripped_no_hash) simp
  ultimately have "neutralise sc ''r: d'' = of_runes [114, 58, 32, 100]"
    by (simp only: neutralise_def strip_closing_def)
  also have "\<dots> = ''r: d''" by code_simp
  finally show ?thesis by (simp add: sanitiseBody_def)
qed

definition posted_finding :: review_finding where
  "posted_finding = \<lparr>rf_rule = ''r'', rf_path = ''a.go'', rf_line = 3, rf_detail = ''d'', rf_evidence = ''hi'', rf_verified = True\<rparr>"

text \<open>The agent marks its own remark as verified; what is posted says otherwise.\<close>

definition example_model :: post_review where
  "example_model = \<lparr>pr_verdict = VerdictComment, pr_summary = ''hi'',
     pr_comments = ([\<lparr>rc_path = ''a.go'', rc_line = 1, rc_side = ''RIGHT'', rc_body = ''hi'', rc_verified = True, rc_evidence = ''hi''\<rparr>], 1)\<rparr>"

definition example_posted :: "review_comment list" where
  "example_posted =
     [\<lparr>rc_path = ''a.go'', rc_line = 3, rc_side = ''RIGHT'', rc_body = ''r: d'', rc_verified = True, rc_evidence = ''hi''\<rparr>,
      \<lparr>rc_path = ''a.go'', rc_line = 1, rc_side = ''RIGHT'', rc_body = ''hi'', rc_verified = False, rc_evidence = []\<rparr>]"

lemma strip_hi: "stripClassificationTokens ''hi'' = ''hi''"
proof -
  have "replace_all classificationToken (\<lambda>_ _. []) None (asc ''hi'') = asc ''hi''"
    by (simp add: token_at asc_def replace_all_skip)
  then show ?thesis by (simp add: stripClassificationTokens_def to_runes_ascii ascii_def of_runes_asc)
qed

lemma example_trusted:
  "trusted_review example_review_grant [posted_finding] example_model =
     \<lparr>pr_verdict = VerdictComment, pr_summary = ''hi'', pr_comments = (example_posted, length example_posted)\<rparr>"
  by (simp add: trusted_review_def trusted_comments_def Let_def example_model_def example_posted_def review_comments_def slice_list_def
      order_by_def finding_comment_def model_comment_def posted_finding_def strip_hi example_review_grant_def base_grant_def DefaultLimits_def)

lemma example_shown:
  "review_comments (trusted_review example_review_grant [posted_finding] example_model) = example_posted"
  "length (review_comments example_model) = 1"
  by (simp add: example_trusted review_comments_def) (simp add: example_model_def review_comments_def slice_list_def)

lemma Validate_example_review:
  "Validate (review_envelope ''r1'' (trusted_review example_review_grant [posted_finding] example_model)) example_review_grant 50 =
     Inr (PPostReview (trusted_review example_review_grant [posted_finding] example_model))"
proof -
  let ?r = "\<lparr>pr_verdict = VerdictComment, pr_summary = ''hi'', pr_comments = (example_posted, length example_posted)\<rparr>"
  have "decode_payload post_review_field zero_post_review (marshal (enc_post_review ?r)) = Inr ?r"
    by (rule post_review_round_trip [where cs = example_posted])
      (simp_all add: string_consts valid_utf8_ascii ascii_def example_posted_def utf8_comment_def int_ok_def)
  moreover have "sanitiseBody ''hi'' 16384 sc = Some ''hi''" "sanitiseBody ''hi'' 4096 sc = Some ''hi''" for sc
    by (rule sanitise_hi, simp, simp)+
  moreover have "trim_space ''hi'' \<noteq> []" by (simp add: trim_space_ascii ascii_def is_space_def)
  ultimately have "decode_post_review (marshal (enc_post_review ?r)) example_review_grant = Inr (PPostReview ?r)"
    by (simp add: decode_post_review_def review_comments_def slice_list_def example_review_grant_def example_posted_def
        base_grant_def DefaultLimits_def sbody_def check_def sanitise_comment_def sanitise_finding)
  moreover have "admitted (review_envelope ''r1'' ?r) example_review_grant 50"
    by (simp add: admitted_def review_envelope_def example_review_grant_def base_grant_def SchemaVersion_def
        kind_consts scope_ok_def hour_def)
  ultimately show ?thesis
    unfolding example_trusted by (simp add: Validate_iff decodeAndSanitise_def review_envelope_def kind_consts)
qed

lemma verified_only_from_checks_witness:
  "\<exists>fs ms. example_posted = fs @ ms \<and> list_all from_model ms \<and> ms \<noteq> [] \<and>
     list_all2 (from_finding (g_scope example_review_grant)) [posted_finding] fs"
proof -
  obtain fs ms where f: "example_posted = fs @ ms" "list_all from_model ms" "length ms \<le> 1" "ms \<noteq> [] \<longrightarrow> length fs = 1"
    "list_all2 (from_finding (g_scope example_review_grant)) (take (length fs) [posted_finding]) fs"
    using verified_only_from_checks [OF Validate_example_review] by (auto simp: example_shown order_by_def)
  have "length fs + length ms = 2" using arg_cong [OF f(1), of length] by (simp add: example_posted_def)
  then have "ms \<noteq> []" "length fs = 1" using f(3,4) list_all2_lengthD [OF f(5)] by auto
  then show ?thesis using f by auto
qed

end
