(* ===== verification/Scanjob.thy ===== *)
theory Scanjob
  imports Verifier Runpipe
begin

text \<open>
  The periodic scan (\<open>internal/scanjob\<close>, \<open>internal/scan/renovate_run.go\<close>) and the two commands that queue and scan
  (\<open>cmd/scan\<close>, \<open>cmd/upgrade\<close>), from their parsed flags on. \<open>walk\<close> is the list of files under a directory, in
  the order \<open>filepath.Walk\<close> visits them.
\<close>

section \<open>Cloning and Renovate\<close>

definition clone_address :: "string \<Rightarrow> string \<Rightarrow> string" where
  "clone_address tok repo =
     (if tok \<noteq> [] then ''https://x-access-token:'' @ tok @ ''@github.com/'' @ repo @ ''.git''
      else ''https://github.com/'' @ repo @ ''.git'')"

definition ShallowClone :: "outside \<Rightarrow> host \<Rightarrow> string \<Rightarrow> string \<Rightarrow> (world, unit, unit) eff" where
  "ShallowClone E H dir repo =
     ebind (git E [''clone'', ''--depth'', ''1'', ''-q'', clone_address (getenv (ho_environ H) ''GITHUB_READ_TOKEN'') repo, dir]) (\<lambda>_. eret ())"

definition base_name :: "string \<Rightarrow> string" where
  "base_name p = rev (takeWhile (\<lambda>c. c \<noteq> slash) (rev p))"

definition findReportAnywhere :: "host \<Rightarrow> (nat \<Rightarrow> string \<Rightarrow> string list) \<Rightarrow> string \<Rightarrow> (world, unit, string) eff" where
  "findReportAnywhere H walk dir =
     ebind (observe (\<lambda>t. case find (\<lambda>p. base_name p = ''renovate-report.json'') (walk t dir) of None \<Rightarrow> None | Some p \<Rightarrow> ho_read H t p)) (\<lambda>found.
     case found of None \<Rightarrow> efail () | Some s \<Rightarrow> eret s)"

definition renovate_args :: "string \<Rightarrow> string list" where
  "renovate_args repo = [''--platform=github'', ''--dry-run'', ''--report-type=json'', ''--onboarding=false'', repo]"

definition RunRenovate :: "host \<Rightarrow> (nat \<Rightarrow> string \<Rightarrow> string list) \<Rightarrow> string \<Rightarrow> string \<Rightarrow> string \<Rightarrow> (world, unit, update list) eff" where
  "RunRenovate H walk dir repo bin =
     ebind (observe (\<lambda>t. ho_spawn H t bin (renovate_args repo) dir)) (\<lambda>run.
     ebind (observe (\<lambda>t. ho_read H t (filepath_join [dir, ''renovate-report.json'']))) (\<lambda>report.
     ebind (case report of
         Some s \<Rightarrow> eret s
       | None \<Rightarrow> (case run of
             NotRun \<Rightarrow> efail ()
           | Exited code _ \<Rightarrow> if code \<noteq> 0 then efail () else findReportAnywhere H walk dir)) (\<lambda>s.
     elift (case ParseRenovate s of None \<Rightarrow> Inl () | Some us \<Rightarrow> Inr us))))"

definition RealRenovate :: "host \<Rightarrow> (nat \<Rightarrow> string \<Rightarrow> string list) \<Rightarrow> string \<Rightarrow> string \<Rightarrow> (world, unit, update list) eff" where
  "RealRenovate H walk repo dir = RunRenovate H walk dir repo ''renovate''"

section \<open>The scan\<close>

datatype scan_job_error =
    JobTempDir
  | JobClone
  | JobScan scan_error
  | JobFindings db_error
  | JobRenovate
  | JobUpdates db_error

text \<open>A nil field stands for its default, a nil \<open>Renovate\<close> for none.\<close>

record scan_config =
  sj_clone :: "(string \<Rightarrow> string \<Rightarrow> (world, unit, unit) eff) option"
  sj_tools :: "tool list option"
  sj_renovate :: "(string \<Rightarrow> string \<Rightarrow> (world, unit, update list) eff) option"

text \<open>The count of findings comes back with the error of a later step.\<close>

definition scan_updates ::
  "outside \<Rightarrow> scan_config \<Rightarrow> string \<Rightarrow> string \<Rightarrow> string \<Rightarrow> nat \<Rightarrow> (world, nat \<times> scan_job_error, nat \<times> nat) eff" where
  "scan_updates E cfg repo runID dir n =
     (case sj_renovate cfg of
        None \<Rightarrow> eret (n, 0)
      | Some renovate \<Rightarrow>
          ebind (ewrap (\<lambda>_. (n, JobRenovate)) (renovate repo dir)) (\<lambda>us.
          let stamped = map (\<lambda>u. u\<lparr>u_repo := repo\<rparr>) us in
          ebind (ewrap (\<lambda>e. (n, JobUpdates e)) (UpsertUpdates E runID stamped)) (\<lambda>_.
          eret (n, length us))))"

definition scan_tools :: "scan_config \<Rightarrow> tool list" where
  "scan_tools cfg = (case sj_tools cfg of None \<Rightarrow> StandardTools | Some ts \<Rightarrow> ts)"

definition scan_run ::
  "outside \<Rightarrow> host \<Rightarrow> scan_config \<Rightarrow> string \<Rightarrow> string \<Rightarrow> (world, nat \<times> scan_job_error, nat \<times> nat) eff" where
  "scan_run E H cfg repo runID =
     ebind (observe (\<lambda>t. ho_temp H t ''bothos-scan-'')) (\<lambda>tmp.
     case tmp of
       None \<Rightarrow> efail (0, JobTempDir)
     | Some dir \<Rightarrow>
         ebind (ewrap (\<lambda>_. (0, JobClone)) ((case sj_clone cfg of None \<Rightarrow> ShallowClone E H | Some c \<Rightarrow> c) dir repo)) (\<lambda>_.
         ebind (observe (\<lambda>t. Run (ho_spawn H t) dir (scan_tools cfg))) (\<lambda>scanned.
         case scanned of
           Inl e \<Rightarrow> efail (0, JobScan e)
         | Inr fs \<Rightarrow>
             let stamped = map (\<lambda>f. f\<lparr>f_repo := repo\<rparr>) fs in
             ebind (ewrap (\<lambda>e. (0, JobFindings e)) (UpsertFindings E runID stamped)) (\<lambda>_.
             scan_updates E cfg repo runID dir (length fs)))))"

section \<open>The commands\<close>

definition zero_grant :: grant where
  "zero_grant = \<lparr>g_run = [], g_repo = \<lparr>repo_owner = [], repo_name = [], repo_account = []\<rparr>, g_scope = zero_scope, g_kinds = [],
     g_token = [], g_limits = \<lparr>lim_intents = 0, lim_files = 0, lim_diff_lines = 0, lim_body_bytes = 0, lim_comments = 0, lim_labels = 0\<rparr>,
     g_manual = False, g_denied = [], g_issued = 0, g_expires = 0\<rparr>"

definition scan_row :: "string \<Rightarrow> string \<Rightarrow> ledger_run" where
  "scan_row runID repo =
     \<lparr>lr_id = runID, lr_repo = repo, lr_trigger = ''scheduled'', lr_scope_kind = ''scheduled'', lr_scope_number = 0,
      lr_grant = zero_grant, lr_decision = ''allow'', lr_deny_reason = None, lr_status = RunRunning, lr_meta = None\<rparr>"

datatype command_error =
    NoRepo
  | NoDSN
  | BadRepo string
  | CmdInsert db_error
  | CmdScan "nat \<times> scan_job_error"
  | CmdStatus db_error
  | CmdSchedule schedule_error

definition no_config :: scan_config where
  "no_config = \<lparr>sj_clone = None, sj_tools = None, sj_renovate = None\<rparr>"

text \<open>\<open>drawn\<close> is what \<open>newID\<close> drew. The candidates are only counted for the last line of the log.\<close>

definition scan_command :: "outside \<Rightarrow> host \<Rightarrow> string \<Rightarrow> string \<Rightarrow> (world, command_error, nat \<times> nat) eff" where
  "scan_command E H drawn repo =
     (if repo = [] then efail NoRepo
      else
        let runID = ''scan-'' @ drawn in
        ebind (ewrap CmdInsert (InsertRun E (scan_row runID repo))) (\<lambda>_.
        ebind (etry (scan_run E H no_config repo runID)) (\<lambda>r.
        case r of
          Inl e \<Rightarrow> ebind (eignore (SetRunStatus E runID RunFailed)) (\<lambda>_. efail (CmdScan e))
        | Inr counts \<Rightarrow>
            ebind (ewrap CmdStatus (SetRunStatus E runID RunSucceeded)) (\<lambda>_.
            ebind (eignore (ActionableCandidates E repo)) (\<lambda>_.
            eret counts)))))"

definition upgrade_command ::
  "outside \<Rightarrow> host \<Rightarrow> string \<Rightarrow> string \<Rightarrow> string \<Rightarrow> string \<Rightarrow> bool \<Rightarrow> (world, command_error, int) eff" where
  "upgrade_command E H drawn dsn repo baseRef enabled =
     (if repo = [] then efail NoRepo
      else if dsn = [] then efail NoDSN
      else case cut repo ''/'' of (owner, name, ok) \<Rightarrow>
        if \<not> ok \<or> owner = [] \<or> name = [] then efail (BadRepo repo)
        else ewrap CmdSchedule (Schedule E (getenv (ho_environ H)) drawn owner name baseRef enabled))"

end
