(* ===== verification/Agent.thy ===== *)
theory Agent
  imports Verifier Credstore
begin

text \<open>
  The agent backend (\<open>internal/agent\<close>): the RPC conversation with the agent's process, the verdict
  and review files it leaves, the loop with the external verifier, and the one envelope of a result.
  The process is a list of the lines it will write and a record of what was sent to it; the
  agent's work on files shows in what later reads answer. Signals, logging and the removal of the
  directory \<open>.bothos\<close> are left out; a run that is killed shows as the end of its lines.
\<close>

section \<open>Types\<close>

record rpc =
  pi_bin :: string
  pi_model :: string
  pi_session :: string
  pi_approve :: bool
  pi_verify :: "(string \<Rightarrow> claimed_fix list \<Rightarrow> (world, unit, verify_result) eff) option"
  pi_rounds :: int

definition defaultModel :: string where
  "defaultModel = ''openrouter/deepseek/deepseek-v4-flash-0731''"

definition NewPIRPC :: "string \<Rightarrow> string \<Rightarrow> string \<Rightarrow> bool \<Rightarrow> rpc" where
  "NewPIRPC bin model sessionDir approve =
     \<lparr>pi_bin = (if bin = [] then ''pi'' else bin), pi_model = (if model = [] then defaultModel else model),
      pi_session = sessionDir, pi_approve = approve, pi_verify = None, pi_rounds = 0\<rparr>"

datatype cfg_value = CfgString string | CfgBool bool

definition cfg_string :: "(string \<times> cfg_value) list \<Rightarrow> string \<Rightarrow> string \<Rightarrow> string" where
  "cfg_string cfg k dflt =
     (case map_of cfg k of Some (CfgString s) \<Rightarrow> (if s \<noteq> [] then s else dflt) | _ \<Rightarrow> dflt)"

definition newPIRuntime :: "(string \<times> cfg_value) list \<Rightarrow> ('e registry_error, rpc) result" where
  "newPIRuntime cfg =
     (let r = NewPIRPC [] [] [] False in
      Inr (r\<lparr>pi_bin := cfg_string cfg ''pi'' (pi_bin r), pi_model := cfg_string cfg ''model'' (pi_model r),
        pi_session := cfg_string cfg ''session_dir'' (pi_session r),
        pi_approve := (map_of cfg ''approve'' = Some (CfgBool True))\<rparr>))"

record rpc_event =
  ev_id :: string
  ev_type :: string
  ev_command :: string
  ev_success :: "bool option"
  ev_tool :: string
  ev_retry :: bool

definition zero_event :: rpc_event where
  "zero_event = \<lparr>ev_id = [], ev_type = [], ev_command = [], ev_success = None, ev_tool = [], ev_retry = False\<rparr>"

definition event_field :: "rune list \<Rightarrow> (json \<Rightarrow> rpc_event \<Rightarrow> rpc_event option) option" where
  "event_field k =
     (if field_is ''id'' k then Some (into ev_id (\<lambda>f. ev_id_update (\<lambda>_. f)) dec_string)
      else if field_is ''type'' k then Some (into ev_type (\<lambda>f. ev_type_update (\<lambda>_. f)) dec_string)
      else if field_is ''command'' k then Some (into ev_command (\<lambda>f. ev_command_update (\<lambda>_. f)) dec_string)
      else if field_is ''success'' k then Some (into ev_success (\<lambda>f. ev_success_update (\<lambda>_. f)) (dec_ptr dec_bool False))
      else if field_is ''toolName'' k then Some (into ev_tool (\<lambda>f. ev_tool_update (\<lambda>_. f)) dec_string)
      else if field_is ''willRetry'' k then Some (into ev_retry (\<lambda>f. ev_retry_update (\<lambda>_. f)) dec_bool)
      else None)"

record session_tokens =
  tk_input :: int
  tk_spent :: int

record session_stats =
  ss_id :: string
  ss_type :: string
  ss_command :: string
  ss_success :: "bool option"
  ss_tokens :: session_tokens
  ss_cost :: int

definition zero_stats :: session_stats where
  "zero_stats = \<lparr>ss_id = [], ss_type = [], ss_command = [], ss_success = None, ss_tokens = \<lparr>tk_input = 0, tk_spent = 0\<rparr>, ss_cost = 0\<rparr>"

definition dec_float :: "(rune list \<Rightarrow> int option) \<Rightarrow> json \<Rightarrow> int \<Rightarrow> int option" where
  "dec_float parse v old = (case v of JNull \<Rightarrow> Some old | JNum n \<Rightarrow> parse n | _ \<Rightarrow> None)"

definition tokens_field :: "rune list \<Rightarrow> (json \<Rightarrow> session_tokens \<Rightarrow> session_tokens option) option" where
  "tokens_field k =
     (if field_is ''input'' k then Some (into tk_input (\<lambda>f. tk_input_update (\<lambda>_. f)) dec_int)
      else if field_is ''output'' k then Some (into tk_spent (\<lambda>f. tk_spent_update (\<lambda>_. f)) dec_int)
      else None)"

text \<open>The struct \<open>sessionStatsData\<close> is kept in the two fields it has.\<close>

definition data_field :: "(rune list \<Rightarrow> int option) \<Rightarrow> rune list \<Rightarrow> (json \<Rightarrow> session_stats \<Rightarrow> session_stats option) option" where
  "data_field parse k =
     (if field_is ''tokens'' k then Some (into ss_tokens (\<lambda>f. ss_tokens_update (\<lambda>_. f)) (dec_struct False tokens_field))
      else if field_is ''cost'' k then Some (into ss_cost (\<lambda>f. ss_cost_update (\<lambda>_. f)) (dec_float parse))
      else None)"

definition stats_field :: "(rune list \<Rightarrow> int option) \<Rightarrow> rune list \<Rightarrow> (json \<Rightarrow> session_stats \<Rightarrow> session_stats option) option" where
  "stats_field parse k =
     (if field_is ''id'' k then Some (into ss_id (\<lambda>f. ss_id_update (\<lambda>_. f)) dec_string)
      else if field_is ''type'' k then Some (into ss_type (\<lambda>f. ss_type_update (\<lambda>_. f)) dec_string)
      else if field_is ''command'' k then Some (into ss_command (\<lambda>f. ss_command_update (\<lambda>_. f)) dec_string)
      else if field_is ''success'' k then Some (into ss_success (\<lambda>f. ss_success_update (\<lambda>_. f)) (dec_ptr dec_bool False))
      else if field_is ''data'' k then Some (dec_struct False (data_field parse))
      else None)"

section \<open>Instructions\<close>

definition dq :: "string \<Rightarrow> string" where
  "dq s = CHR 0x22 # s @ [CHR 0x22]"

definition reportingInstructions :: string where
  "reportingInstructions =
     newline @
     newline @
     ''When you finish, you MUST report your outcome by writing the file'' @ newline @
     ''.bothos/verdict.json in the repository root with this exact shape:'' @ newline @
     newline @
     ''{'' @ dq ''status'' @ '': '' @ dq ''done'' @ '' | '' @ dq ''done_unverified'' @ '' | '' @ dq ''blocked'' @ '', '' @ dq ''summary'' @ '': '' @ dq ''...'' @ '', '' @ dq ''verification'' @ '': '' @ dq ''...'' @ '', '' @ dq ''fixes'' @ '': [{'' @ dq ''package'' @ '': '' @ dq ''...'' @ '', '' @ dq ''advisory_id'' @ '': '' @ dq ''...'' @ '', '' @ dq ''to'' @ '': '' @ dq ''...'' @ ''}]}'' @ newline @
     newline @
     ''- '' @ dq ''done'' @ '': the change is complete and you verified it yourself (you ran the'' @ newline @
     ''  build/tests/checks you judged appropriate, and they passed). In'' @ newline @
     ''  '' @ dq ''verification'' @ '', state exactly what you ran and the result.'' @ newline @
     ''- '' @ dq ''done_unverified'' @ '': the change is complete but you could not verify it (for'' @ newline @
     ''  example: tests fail for pre-existing or environmental reasons unrelated to'' @ newline @
     ''  your change, or no usable test setup exists). In '' @ dq ''verification'' @ '', state what'' @ newline @
     ''  you tried and why it is inconclusive.'' @ newline @
     ''- '' @ dq ''blocked'' @ '': you cannot complete the change. In '' @ dq ''summary'' @ '', explain why.'' @ newline @
     ''- '' @ dq ''fixes'' @ '': (optional) one entry per dependency you upgraded, with the'' @ newline @
     ''  package name, the advisory id it resolves (if known), and the target'' @ newline @
     ''  version. An external verifier re-scans to confirm these; leave'' @ newline @
     ''  '' @ dq ''advisory_id'' @ '' empty to claim any advisory for the package is fixed.'' @ newline @
     ''  Omit '' @ dq ''fixes'' @ '' entirely when you did not change any dependency.'' @ newline @
     newline @
     ''How you validate is your decision: the full test suite, targeted tests, a'' @ newline @
     ''build, or nothing '' @ em_dash @ '' whatever fits this change. If a check fails, determine'' @ newline @
     ''whether YOUR change caused it: fix what you broke, and do not chase'' @ newline @
     ''pre-existing or environmental failures. The .bothos directory is harness'' @ newline @
     ''bookkeeping; it is deleted when your run ends and must not be part of the'' @ newline @
     ''change itself.''"

definition reviewReportingInstructions :: string where
  "reviewReportingInstructions =
     newline @
     newline @
     ''IMPORTANT '' @ em_dash @ '' you MUST report your review by writing the file'' @ newline @
     ''.bothos/review.json in the repository root with this exact shape:'' @ newline @
     newline @
     ''{'' @ newline @
     ''  '' @ dq ''verdict'' @ '': '' @ dq ''comment'' @ '' | '' @ dq ''request_changes'' @ '','' @ newline @
     ''  '' @ dq ''summary'' @ '': '' @ dq ''one or two sentence summary of the review'' @ '','' @ newline @
     ''  '' @ dq ''comments'' @ '': ['' @ newline @
     ''    {'' @ newline @
     ''      '' @ dq ''path'' @ '': '' @ dq ''path/to/file'' @ '','' @ newline @
     ''      '' @ dq ''line'' @ '': 12,'' @ newline @
     ''      '' @ dq ''side'' @ '': '' @ dq ''RIGHT'' @ '','' @ newline @
     ''      '' @ dq ''body'' @ '': '' @ dq ''the comment text'' @ '','' @ newline @
     ''      '' @ dq ''verified'' @ '': true,'' @ newline @
     ''      '' @ dq ''evidence'' @ '': '' @ dq ''exact command you ran and its relevant output'' @ newline @
     ''    }'' @ newline @
     ''  ]'' @ newline @
     ''}'' @ newline @
     newline @
     ''Rules:'' @ newline @
     ''- Use '' @ dq ''request_changes'' @ '' only when you found a blocking defect; otherwise use'' @ newline @
     ''  '' @ dq ''comment'' @ ''. NEVER use any approve verdict '' @ em_dash @ '' this bot never approves.'' @ newline @
     ''- Every comment must carry an explicit tag in its body, either '' @ dq ''[verified]'' @ newline @
     ''  (you ran a deterministic command whose output you quote in the evidence'' @ newline @
     ''  field) or '' @ dq ''[opinion]'' @ '' (model judgment, phrased as a question, evidence'' @ newline @
     ''  empty). A comment with no tag is invalid; prefer omitting low-confidence'' @ newline @
     ''  items.'' @ newline @
     ''- This is read-only: never create branches, commit, or push, and never write'' @ newline @
     ''  any file other than .bothos/review.json (harness bookkeeping, deleted after'' @ newline @
     ''  your run).'' @ newline @
     ''- Valid JSON only, nothing else in the file. Omit the evidence field for opinions.''"

definition verdict_nudge :: string where
  "verdict_nudge =
     ''You did not write .bothos/verdict.json (or it was invalid JSON, or its '' @ dq ''status'' @
     '' was not one of done / done_unverified / blocked). Write it now, exactly as specified, then stop.''"

section \<open>The process\<close>

datatype pi_message =
    Configure string string      \<comment> \<open>id and type; what is configured is switched off\<close>
  | Prompt string string         \<comment> \<open>id and text\<close>
  | StatsRequest

text \<open>Its lines that have not been read, whether reading ends at a line too long, and what was sent.\<close>

record pi_process =
  pp_lines :: "string list"
  pp_torn :: bool
  pp_sent :: "pi_message list"

datatype pi_error =
    SessionDirError
  | StartError
  | WriteError string
  | AckTimeout
  | AckScanError
  | ConfigRejected string
  | ExitedBeforeAcks
  | PromptRejected
  | SettleScanError
  | NotSettled
  | PiExited
  | NoReviewFile
  | ReviewMalformed
  | ReviewTrailing
  | ReviewVerdict string
  | NoCommits

type_synonym 'a agent_eff = "(world \<times> pi_process, pi_error, 'a) eff"

text \<open>A step of the outside, beside the process.\<close>

definition beside :: "(world, 'e, 'a) eff \<Rightarrow> (world \<times> pi_process, 'e, 'a) eff" where
  "beside m = (\<lambda>(w, p). (case m w of (r, v) \<Rightarrow> (r, (v, p))))"

text \<open>\<open>enc.Encode\<close>.\<close>

definition send :: "host \<Rightarrow> pi_message \<Rightarrow> (world \<times> pi_process, unit, unit) eff" where
  "send H m = (\<lambda>(w, p).
     if ho_pi_takes H (w_tick w) then (Inr (), (tick w, p\<lparr>pp_sent := pp_sent p @ [m]\<rparr>))
     else (Inl (), (tick w, p)))"

definition read_event :: "string \<Rightarrow> rpc_event option" where
  "read_event l = unmarshal event_field zero_event l"

text \<open>The loop over the acknowledgements: those still pending, the last rejected command, the lines left.\<close>

fun ack_loop :: "string list \<Rightarrow> string option \<Rightarrow> string list \<Rightarrow> string list \<times> string option \<times> string list" where
  "ack_loop [] rejected ls = ([], rejected, ls)"
| "ack_loop (p # ps) rejected [] = (p # ps, rejected, [])"
| "ack_loop (p # ps) rejected (l # ls) =
     (case read_event l of
        None \<Rightarrow> ack_loop (p # ps) rejected ls
      | Some ev \<Rightarrow>
          if ev_type ev \<noteq> ''response'' \<or> ev_id ev = [] \<or> ev_id ev \<notin> set (p # ps) then ack_loop (p # ps) rejected ls
          else ack_loop (removeAll (ev_id ev) (p # ps))
                 (if ev_success ev \<noteq> Some True then Some (ev_command ev) else rejected) ls)"

definition awaitConfigAcksLoop :: "string list \<Rightarrow> unit agent_eff" where
  "awaitConfigAcksLoop ids = (\<lambda>(w, p).
     case ack_loop ids None (pp_lines p) of (pending, rejected, ls) \<Rightarrow>
       ((if pending \<noteq> [] \<and> pp_torn p then Inl AckScanError
         else case rejected of
             Some c \<Rightarrow> Inl (ConfigRejected c)
           | None \<Rightarrow> if pending \<noteq> [] then Inl ExitedBeforeAcks else Inr ()),
        (w, p\<lparr>pp_lines := ls\<rparr>)))"

definition awaitConfigAcks :: "host \<Rightarrow> string list \<Rightarrow> unit agent_eff" where
  "awaitConfigAcks H ids =
     ebind (beside (observe (ho_in_time H))) (\<lambda>in_time.
     if in_time then awaitConfigAcksLoop ids else efail AckTimeout)"

text \<open>What the lines say of the prompt, and the lines behind that.\<close>

fun settle_loop :: "string list \<Rightarrow> (pi_error, unit) result option \<times> string list" where
  "settle_loop [] = (None, [])"
| "settle_loop (l # ls) =
     (case read_event l of
        None \<Rightarrow> settle_loop ls
      | Some ev \<Rightarrow>
          if ev_type ev = ''response'' \<and> ev_command ev = ''prompt'' \<and> ev_success ev = Some False then (Some (Inl PromptRejected), ls)
          else if ev_type ev = ''agent_settled'' \<or> (ev_type ev = ''agent_end'' \<and> \<not> ev_retry ev) then (Some (Inr ()), ls)
          else settle_loop ls)"

definition awaitSettled :: "unit agent_eff" where
  "awaitSettled = (\<lambda>(w, p).
     case settle_loop (pp_lines p) of (r, ls) \<Rightarrow>
       ((case r of Some q \<Rightarrow> q | None \<Rightarrow> Inl (if pp_torn p then SettleScanError else NotSettled)), (w, p\<lparr>pp_lines := ls\<rparr>)))"

fun stats_loop :: "(rune list \<Rightarrow> int option) \<Rightarrow> string list \<Rightarrow> session_stats \<times> string list" where
  "stats_loop parse [] = (zero_stats, [])"
| "stats_loop parse (l # ls) =
     (case unmarshal (stats_field parse) zero_stats l of
        None \<Rightarrow> stats_loop parse ls
      | Some s \<Rightarrow> if ss_type s = ''response'' \<and> ss_command s = ''get_session_stats'' then (s, ls) else stats_loop parse ls)"

definition awaitSessionStats :: "host \<Rightarrow> (world \<times> pi_process, 'e, session_stats) eff" where
  "awaitSessionStats H = (\<lambda>(w, p). case stats_loop (ho_float H) (pp_lines p) of (s, ls) \<Rightarrow> (Inr s, (w, p\<lparr>pp_lines := ls\<rparr>)))"

text \<open>Tokens in and out, and the cost; zeros when the process does not say.\<close>

definition sessionUsage :: "host \<Rightarrow> (int \<times> int \<times> int) agent_eff" where
  "sessionUsage H =
     ebind (etry (send H StatsRequest)) (\<lambda>r.
     case r of
       Inl _ \<Rightarrow> eret (0, 0, 0)
     | Inr _ \<Rightarrow>
         ebind (beside (observe (ho_in_time H))) (\<lambda>in_time.
         if \<not> in_time then eret (0, 0, 0)
         else
           ebind (awaitSessionStats H) (\<lambda>s.
           eret (if ss_success s \<noteq> Some True then (0, 0, 0)
                 else (tk_input (ss_tokens s), tk_spent (ss_tokens s), ss_cost s)))))"

section \<open>What the agent leaves behind\<close>

definition fix_field :: "rune list \<Rightarrow> (json \<Rightarrow> claimed_fix \<Rightarrow> claimed_fix option) option" where
  "fix_field k =
     (if field_is ''package'' k then Some (into fx_package (\<lambda>f. fx_package_update (\<lambda>_. f)) dec_string)
      else if field_is ''advisory_id'' k then Some (into fx_advisory (\<lambda>f. fx_advisory_update (\<lambda>_. f)) dec_string)
      else if field_is ''to'' k then Some (into fx_to (\<lambda>f. fx_to_update (\<lambda>_. f)) dec_string)
      else None)"

definition zero_fix :: claimed_fix where
  "zero_fix = \<lparr>fx_package = [], fx_advisory = [], fx_to = []\<rparr>"

definition verdict_field :: "rune list \<Rightarrow> (json \<Rightarrow> verdict \<Rightarrow> verdict option) option" where
  "verdict_field k =
     (if field_is ''status'' k then Some (into vd_status (\<lambda>f. vd_status_update (\<lambda>_. f)) dec_string)
      else if field_is ''summary'' k then Some (into vd_summary (\<lambda>f. vd_summary_update (\<lambda>_. f)) dec_string)
      else if field_is ''verification'' k then Some (into vd_verification (\<lambda>f. vd_verification_update (\<lambda>_. f)) dec_string)
      else if field_is ''fixes'' k then
        Some (into vd_fixes (\<lambda>f. vd_fixes_update (\<lambda>_. f)) (dec_slice (dec_struct False fix_field) zero_fix))
      else None)"

definition zero_verdict :: verdict where
  "zero_verdict = \<lparr>vd_status = [], vd_summary = [], vd_verification = [], vd_fixes = ([], 0)\<rparr>"

definition parse_verdict :: "string \<Rightarrow> verdict option" where
  "parse_verdict s =
     (case unmarshal verdict_field zero_verdict s of
        None \<Rightarrow> None
      | Some v \<Rightarrow> if vd_status v \<in> {VerdictDone, VerdictDoneUnverified, VerdictBlocked} then Some v else None)"

definition readVerdict :: "host \<Rightarrow> string \<Rightarrow> (world, 'e, verdict option) eff" where
  "readVerdict H worktree =
     ebind (observe (\<lambda>t. ho_read H t (filepath_join [worktree, ''.bothos'', ''verdict.json'']))) (\<lambda>f.
     eret (case f of None \<Rightarrow> None | Some s \<Rightarrow> parse_verdict s))"

text \<open>The fields of \<open>reviewOutput\<close> are those of the payload.\<close>

definition parse_review :: "string \<Rightarrow> string \<Rightarrow> (pi_error, envelope) result" where
  "parse_review runID s =
     (case decode_first (to_runes s) of
        None \<Rightarrow> Inl ReviewMalformed
      | Some (v, rest) \<Rightarrow>
          (case dec_struct True post_review_field v zero_post_review of
             None \<Rightarrow> Inl ReviewMalformed
           | Some p \<Rightarrow>
               check (\<not> list_all json_space rest) ReviewTrailing
               (check (pr_verdict p \<noteq> VerdictComment \<and> pr_verdict p \<noteq> VerdictRequestChanges) (ReviewVerdict (pr_verdict p))
               (Inr \<lparr>env_schema = SchemaVersion, env_run = runID, env_kind = KindPostReview,
                  env_payload = marshal (enc_post_review p), env_sources = []\<rparr>))))"

definition readReviewIntent :: "host \<Rightarrow> string \<Rightarrow> string \<Rightarrow> (world, pi_error, envelope) eff" where
  "readReviewIntent H worktree runID =
     ebind (observe (\<lambda>t. ho_read H t (filepath_join [worktree, ''.bothos'', ''review.json'']))) (\<lambda>f.
     elift (case f of None \<Rightarrow> Inl NoReviewFile | Some s \<Rightarrow> parse_review runID s))"

definition hasCommits :: "outside \<Rightarrow> string \<Rightarrow> (world, 'e, bool) eff" where
  "hasCommits E worktree =
     ebind (etry (git E [''-C'', worktree, ''rev-list'', ''--count'', ''origin/HEAD..HEAD''])) (\<lambda>r.
     eret (case r of
         Inl _ \<Rightarrow> False
       | Inr out \<Rightarrow> (case atoi (trim_space out) of None \<Rightarrow> False | Some n \<Rightarrow> n > 0)))"

section \<open>The envelope of a change\<close>

definition pr_title :: "verdict option \<Rightarrow> string" where
  "pr_title v =
     (case v of
        None \<Rightarrow> ''chore(deps): security upgrades''
      | Some d \<Rightarrow>
          (let line = trim_space (hd (lines (vd_summary d))) in
           if line = [] then ''chore(deps): security upgrades'' else take 120 (join '' '' (str_fields line))))"

definition pr_report :: "verdict option \<Rightarrow> string" where
  "pr_report v =
     (case v of
        None \<Rightarrow> ''**Agent report (unverified change '' @ em_dash @ '' review carefully):** the agent did not report a run status'' @
          newline @ newline @ ''**Verification:** the agent did not report a run status''
      | Some d \<Rightarrow>
          (if vd_status d = VerdictDone then ''**Agent report:**''
           else if vd_status d = VerdictDoneUnverified then ''**Agent report (unverified change '' @ em_dash @ '' review carefully):**''
           else if vd_status d = VerdictBlocked then ''**Agent report (BLOCKED '' @ em_dash @ '' change incomplete):**''
           else []) @ '' '' @
          (if vd_status d \<in> {VerdictDone, VerdictDoneUnverified, VerdictBlocked} then vd_summary d else []) @ newline @ newline @
          ''**Verification:** '' @
          (if vd_status d \<in> {VerdictDone, VerdictDoneUnverified, VerdictBlocked} then vd_verification d else []))"

definition pr_failures :: "verify_result option \<Rightarrow> string" where
  "pr_failures vr =
     (case vr of
        None \<Rightarrow> []
      | Some r \<Rightarrow>
          if vs_pass r then []
          else newline @ newline @ ''**Known failures (external verifier):**'' @ newline @
            concat (map (\<lambda>f. ''- '' @ fl_rule f @ '': '' @ fl_detail f @ newline) (vs_failures r)))"

definition openPRIntent :: "string \<Rightarrow> verdict option \<Rightarrow> verify_result option \<Rightarrow> envelope" where
  "openPRIntent runID v vr =
     \<lparr>env_schema = SchemaVersion, env_run = runID, env_kind = KindOpenPR,
      env_payload = marshal (enc_open_pr \<lparr>op_title = pr_title v, op_body = pr_report v @ pr_failures vr, op_draft = True\<rparr>),
      env_sources = []\<rparr>"

section \<open>Run\<close>

definition withoutSecrets :: "string list \<Rightarrow> string list" where
  "withoutSecrets env =
     filter (\<lambda>kv. \<not> (has_prefix (before kv ''='') ''GITHUB_WRITE_TOKEN'' \<or> has_prefix (before kv ''='') ''GITHUB_COMMENT_TOKEN'')) env"

text \<open>The verdict, after at most one reminder.\<close>

definition first_verdict :: "host \<Rightarrow> string \<Rightarrow> verdict option agent_eff" where
  "first_verdict H worktree =
     ebind (beside (readVerdict H worktree)) (\<lambda>v.
     case v of
       Some _ \<Rightarrow> eret v
     | None \<Rightarrow>
         ebind (etry (send H (Prompt ''2'' verdict_nudge))) (\<lambda>r.
         case r of
           Inl _ \<Rightarrow> eret None
         | Inr _ \<Rightarrow> ebind (eignore awaitSettled) (\<lambda>_. beside (readVerdict H worktree))))"

definition verify_worktree :: "outside \<Rightarrow> host \<Rightarrow> rpc \<Rightarrow> string \<Rightarrow> claimed_fix list \<Rightarrow> (world, pi_error, verify_result) eff" where
  "verify_worktree E H r worktree fixes =
     ebind (etry (case pi_verify r of None \<Rightarrow> Verify E H \<lparr>vf_tools = None, vf_test_command = None\<rparr> worktree fixes | Some f \<Rightarrow> f worktree fixes)) (\<lambda>q.
     case q of
       Inr res \<Rightarrow> eret res
     | Inl _ \<Rightarrow>
         ebind (observe (ho_message H)) (\<lambda>m.
         eret \<lparr>vs_pass = False, vs_failures = [\<lparr>fl_rule = RuleScannerError, fl_detail = ''verify: '' @ m, fl_snippet = []\<rparr>]\<rparr>))"

definition verdict_fixes :: "verdict option \<Rightarrow> claimed_fix list" where
  "verdict_fixes v = (case v of None \<Rightarrow> [] | Some d \<Rightarrow> slice_list (vd_fixes d))"

text \<open>The rounds with the verifier; \<open>k\<close> rounds are left of \<open>m\<close>.\<close>

fun feedback_rounds ::
  "outside \<Rightarrow> host \<Rightarrow> rpc \<Rightarrow> string \<Rightarrow> nat \<Rightarrow> nat \<Rightarrow> string \<Rightarrow> failure list \<Rightarrow> verdict option \<Rightarrow> claimed_fix list \<Rightarrow> verify_result option \<Rightarrow>
     (verdict option \<times> verify_result option) agent_eff" where
  "feedback_rounds E H r worktree m 0 prevSig prev v fixes vr = eret (v, vr)"
| "feedback_rounds E H r worktree m (Suc k) prevSig prev v fixes vr =
     ebind (beside (verify_worktree E H r worktree fixes)) (\<lambda>res.
     if vs_pass res then eret (v, Some res)
     else
       let sig = Signature (vs_failures res); round = m - k in
       if k = 0 \<or> sig = prevSig then eret (v, Some res)
       else
         ebind (etry (send H (Prompt (''fb'' @ itoa (int round)) (FormatFeedback prev (vs_failures res) (int round) (int m))))) (\<lambda>q.
         case q of
           Inl _ \<Rightarrow> eret (v, Some res)
         | Inr _ \<Rightarrow>
             ebind (eignore awaitSettled) (\<lambda>_.
             ebind (beside (readVerdict H worktree)) (\<lambda>nv.
             case nv of
               None \<Rightarrow> feedback_rounds E H r worktree m k sig (vs_failures res) v fixes (Some res)
             | Some _ \<Rightarrow> feedback_rounds E H r worktree m k sig (vs_failures res) nv (verdict_fixes nv) (Some res)))))"

definition max_rounds :: "rpc \<Rightarrow> nat" where
  "max_rounds r = (if pi_rounds r \<le> 0 then 3 else nat (pi_rounds r))"

definition is_blocked :: "verdict option \<Rightarrow> bool" where
  "is_blocked v \<longleftrightarrow> (case v of None \<Rightarrow> False | Some d \<Rightarrow> vd_status d = VerdictBlocked)"

definition graded_verdict :: "outside \<Rightarrow> host \<Rightarrow> rpc \<Rightarrow> string \<Rightarrow> verdict option \<Rightarrow> (verdict option \<times> verify_result option) agent_eff" where
  "graded_verdict E H r worktree v =
     (if is_blocked v then eret (v, None)
      else feedback_rounds E H r worktree (max_rounds r) (max_rounds r) [] [] v (verdict_fixes v) None)"

definition task_prompt :: "host \<Rightarrow> string \<Rightarrow> task \<Rightarrow> string" where
  "task_prompt H runID t =
     (case t of
        SecurityTask base \<Rightarrow> SecurityPrompt (ho_print H) runID base @ reportingInstructions
      | IssueTask i \<Rightarrow> IssuePrompt (ho_print H) runID i @ reportingInstructions
      | ReviewTask v \<Rightarrow> ReviewPrompt v @ reviewReportingInstructions)"

fun is_review :: "task \<Rightarrow> bool" where
  "is_review (ReviewTask _) = True"
| "is_review _ = False"

fun is_issue :: "task \<Rightarrow> bool" where
  "is_issue (IssueTask _) = True"
| "is_issue _ = False"

fun is_security :: "task \<Rightarrow> bool" where
  "is_security (SecurityTask _) = True"
| "is_security _ = False"

definition no_change_verdict :: verdict where
  "no_change_verdict = zero_verdict\<lparr>vd_status := VerdictBlocked,
     vd_summary := ''The agent did not produce a committed change or a usable blocked report. Please provide one concrete implementation decision, then trigger a new labeled run.''\<rparr>"

definition result_with :: "rpc \<Rightarrow> int \<times> int \<times> int \<Rightarrow> envelope list \<Rightarrow> verdict option \<Rightarrow> run_result" where
  "result_with r usage envs v =
     (case usage of (i, ou, c) \<Rightarrow>
       \<lparr>rr_intents = envs, rr_model = pi_model r, rr_tokens_in = i, rr_tokens_out = ou, rr_cost = c, rr_verdict = v\<rparr>)"

text \<open>The result of a run that is no review.\<close>

definition change_result ::
  "outside \<Rightarrow> rpc \<Rightarrow> run_input \<Rightarrow> int \<times> int \<times> int \<Rightarrow> verdict option \<Rightarrow> verify_result option \<Rightarrow> run_result agent_eff" where
  "change_result E r input usage v vr =
     (if is_blocked v then eret (result_with r usage [] v)
      else
        ebind (beside (hasCommits E (ri_worktree input))) (\<lambda>committed.
        if \<not> committed then
          (if is_issue (ri_task input) \<and> v = None then eret (result_with r usage [] (Some no_change_verdict))
           else efail NoCommits)
        else eret (result_with r usage [openPRIntent (ri_run input) v vr] v)))"

text \<open>The conversation: configuration, the prompt, the verdict and the rounds, the review, the usage, the exit.\<close>

definition conversation :: "outside \<Rightarrow> host \<Rightarrow> rpc \<Rightarrow> run_input \<Rightarrow> run_result agent_eff" where
  "conversation E H r input =
     (let worktree = ri_worktree input; t = ri_task input in
     ebind (ewrap (\<lambda>_. WriteError ''set_auto_compaction'') (send H (Configure ''cfg-compaction'' ''set_auto_compaction''))) (\<lambda>_.
     ebind (ewrap (\<lambda>_. WriteError ''set_auto_retry'') (send H (Configure ''cfg-retry'' ''set_auto_retry''))) (\<lambda>_.
     ebind (awaitConfigAcks H [''cfg-compaction'', ''cfg-retry'']) (\<lambda>_.
     ebind (ewrap (\<lambda>_. WriteError ''prompt'') (send H (Prompt ''1'' (task_prompt H (ri_run input) t)))) (\<lambda>_.
     ebind (etry awaitSettled) (\<lambda>settled.
     ebind (if settled = Inr () \<and> \<not> is_review t then first_verdict H worktree else eret None) (\<lambda>v0.
     ebind (if is_security t then graded_verdict E H r worktree v0 else eret (v0, None)) (\<lambda>(v, vr).
     ebind (if is_review t \<and> settled = Inr () then etry (beside (readReviewIntent H worktree (ri_run input))) else eret (Inl NoReviewFile)) (\<lambda>review.
     ebind (sessionUsage H) (\<lambda>usage.
     ebind (beside (observe (ho_pi_exits H))) (\<lambda>exits.
     if \<not> exits then efail PiExited
     else
       ebind (elift settled) (\<lambda>_.
       if is_review t then ebind (elift review) (\<lambda>env. eret (result_with r usage [env] None))
       else change_result E r input usage v vr))))))))))))"

definition max_pi_line :: nat where
  "max_pi_line = 4 * 1024 * 1024"

definition pi_args :: "rpc \<Rightarrow> string \<Rightarrow> string list" where
  "pi_args r dir = [''--mode'', ''rpc'', ''--session-dir'', dir, ''--model'', pi_model r] @ (if pi_approve r then [''--approve''] else [])"

definition with_process :: "pi_process \<Rightarrow> 'a agent_eff \<Rightarrow> (world, pi_error, 'a) eff" where
  "with_process p m w = (case m (w, p) of (r, (v, _)) \<Rightarrow> (r, v))"

definition started :: "string \<Rightarrow> pi_process" where
  "started txt = (case scan_lines max_pi_line txt of (ls, whole) \<Rightarrow> \<lparr>pp_lines = ls, pp_torn = \<not> whole, pp_sent = []\<rparr>)"

definition RPC_Run :: "outside \<Rightarrow> host \<Rightarrow> rpc \<Rightarrow> run_input \<Rightarrow> (world, pi_error, run_result) eff" where
  "RPC_Run E H r input =
     (let dir = filepath_join [pi_session r, ri_run input] in
     ebind (observe (\<lambda>t. ho_mkdir H t dir)) (\<lambda>made.
     if \<not> made then efail SessionDirError
     else
       ebind (observe (\<lambda>t. ho_pi H t (pi_bin r) (pi_args r dir) (ri_worktree input) (withoutSecrets (ho_environ H)))) (\<lambda>process.
       case process of
         None \<Rightarrow> efail StartError
       | Some txt \<Rightarrow> with_process (started txt) (conversation E H r input))))"

section \<open>A run of the agent leaves tables and log alone\<close>

definition silent :: "(world \<times> 'p, 'e, 'a) eff \<Rightarrow> bool" where
  "silent m \<longleftrightarrow> keeps (\<lambda>s t. w_db (fst t) = w_db (fst s) \<and> w_log (fst t) = w_log (fst s)) m"

named_theorems silent_intros "which steps of the conversation leave tables and log alone"

lemma silentI: "(\<And>w p r v q. m (w, p) = (r, (v, q)) \<Longrightarrow> w_db v = w_db w \<and> w_log v = w_log w) \<Longrightarrow> silent m"
  unfolding silent_def by (rule keepsI) auto

lemma silentD: "silent m \<Longrightarrow> m (w, p) = (r, (v, q)) \<Longrightarrow> w_db v = w_db w \<and> w_log v = w_log w"
  unfolding silent_def by (drule keepsD) auto

lemma silent_ebind [silent_intros]: "silent m \<Longrightarrow> (\<And>x. silent (f x)) \<Longrightarrow> silent (ebind m f)"
  unfolding silent_def
  by (rule keeps_ebind [where R = "\<lambda>s t. w_db (fst t) = w_db (fst s) \<and> w_log (fst t) = w_log (fst s)"]) auto

lemma silent_basic [silent_intros]: "silent (eret x)" "silent (efail e)" "silent (elift r)"
  unfolding silent_def by (simp_all add: keeps_eret keeps_efail keeps_elift)

lemma silent_wrapped [silent_intros]:
  "silent m \<Longrightarrow> silent (ewrap h m)" "silent m \<Longrightarrow> silent (eignore m)" "silent m \<Longrightarrow> silent (etry m)"
  unfolding silent_def by (simp_all add: keeps_ewrap keeps_eignore keeps_etry)

lemma silent_branches [silent_intros]:
  "silent m \<Longrightarrow> silent n \<Longrightarrow> silent (if b then m else n)"
  "silent m \<Longrightarrow> (\<And>y. silent (f y)) \<Longrightarrow> silent (case x of None \<Rightarrow> m | Some y \<Rightarrow> f y)"
  "(\<And>a. silent (g a)) \<Longrightarrow> (\<And>b. silent (h b)) \<Longrightarrow> silent (case s of Inl a \<Rightarrow> g a | Inr b \<Rightarrow> h b)"
  "(\<And>a b. silent (k a b)) \<Longrightarrow> silent (case q of (a, b) \<Rightarrow> k a b)"
  by (simp, cases x, simp_all, cases s, simp_all, cases q, simp)

lemma silent_beside [silent_intros]: "logs (\<lambda>_. False) m \<Longrightarrow> db_still m \<Longrightarrow> silent (beside m)"
  by (rule silentI) (auto simp: beside_def adds_none split: prod.splits dest: logsD db_stillD)

lemma silent_process [silent_intros]:
  "silent (send H m)" "silent (awaitConfigAcksLoop ids)" "silent awaitSettled" "silent (awaitSessionStats H)"
  by (rule silentI, auto simp: send_def awaitConfigAcksLoop_def awaitSettled_def awaitSessionStats_def split: if_splits prod.splits)+

lemma silent_usage [silent_intros]: "silent (sessionUsage H)"
  unfolding sessionUsage_def by (intro silent_intros trace_intros)

lemma quiet_reads [trace_intros]:
  "logs P (readVerdict H wt)" "db_still (readVerdict H wt)" "logs P (readReviewIntent H wt i)" "db_still (readReviewIntent H wt i)"
  "logs P (hasCommits E wt)" "db_still (hasCommits E wt)"
  unfolding readVerdict_def readReviewIntent_def hasCommits_def by (intro trace_intros)+

lemma quiet_verify [trace_intros]:
  assumes "pi_verify r = None"
  shows "logs P (verify_worktree E H r wt fixes)" "db_still (verify_worktree E H r wt fixes)"
  unfolding verify_worktree_def assms option.case by (intro trace_intros Verify_quiet)+

lemma silent_rounds:
  assumes "pi_verify r = None"
  shows "silent (feedback_rounds E H r wt m k sig prev v fs vr)"
proof (induction k arbitrary: sig prev v fs vr)
  case (Suc k)
  show ?case
    unfolding feedback_rounds.simps Let_def by (intro silent_intros trace_intros assms Suc.IH)
qed (simp add: silent_basic)

lemma silent_conversation:
  assumes "pi_verify r = None"
  shows "silent (conversation E H r input)"
  unfolding conversation_def Let_def awaitConfigAcks_def first_verdict_def graded_verdict_def change_result_def
  by (intro silent_intros trace_intros silent_rounds assms)

lemma quiet_process [trace_intros]:
  assumes "silent m"
  shows "logs P (with_process p m)" "db_still (with_process p m)"
  using silentD [OF assms] by (auto simp: with_process_def split: prod.splits intro!: logsI db_stillI adds_same)

lemma RPC_quiet:
  assumes "pi_verify r = None"
  shows "logs P (RPC_Run E H r input)" "db_still (RPC_Run E H r input)"
  unfolding RPC_Run_def Let_def by (intro trace_intros silent_conversation assms)+

section \<open>What a result holds\<close>

definition yields :: "('a \<Rightarrow> bool) \<Rightarrow> ('s, 'e, 'a) eff \<Rightarrow> bool" where
  "yields Q m \<longleftrightarrow> (\<forall>s x t. m s = (Inr x, t) \<longrightarrow> Q x)"

named_theorems yield_intros "what a computation yields"

lemma yieldsD: "yields Q m \<Longrightarrow> m s = (Inr x, t) \<Longrightarrow> Q x"
  unfolding yields_def by blast

lemma yieldsI: "(\<And>s x t. m s = (Inr x, t) \<Longrightarrow> Q x) \<Longrightarrow> yields Q m"
  unfolding yields_def by blast

lemma yields_bind: "yields P m \<Longrightarrow> (\<And>x. P x \<Longrightarrow> yields Q (f x)) \<Longrightarrow> yields Q (ebind m f)"
  unfolding yields_def ebind_Inr_iff by blast

lemma yields_next [yield_intros]: "(\<And>x. yields Q (f x)) \<Longrightarrow> yields Q (ebind m f)"
  unfolding yields_def ebind_Inr_iff by blast

lemma yields_basic [yield_intros]: "Q x \<Longrightarrow> yields Q (eret x)" "yields Q (efail e)"
  by (simp_all add: yields_def)

lemma yields_branches [yield_intros]:
  "(b \<Longrightarrow> yields Q m) \<Longrightarrow> (\<not> b \<Longrightarrow> yields Q n) \<Longrightarrow> yields Q (if b then m else n)"
  "(x = None \<Longrightarrow> yields Q m) \<Longrightarrow> (\<And>y. x = Some y \<Longrightarrow> yields Q (f y)) \<Longrightarrow> yields Q (case x of None \<Rightarrow> m | Some y \<Rightarrow> f y)"
  "(\<And>a. s = Inl a \<Longrightarrow> yields Q (g a)) \<Longrightarrow> (\<And>b. s = Inr b \<Longrightarrow> yields Q (h b)) \<Longrightarrow> yields Q (case s of Inl a \<Rightarrow> g a | Inr b \<Rightarrow> h b)"
  "(\<And>a b. q = (a, b) \<Longrightarrow> yields Q (k a b)) \<Longrightarrow> yields Q (case q of (a, b) \<Rightarrow> k a b)"
  by (simp, cases x, simp_all, cases s, simp_all, cases q, simp)

lemma yields_elift: "(\<And>x. r = Inr x \<Longrightarrow> Q x) \<Longrightarrow> yields Q (elift r)"
  by (auto simp: yields_def)

lemma yields_beside: "yields Q m \<Longrightarrow> yields Q (beside m)"
  by (auto simp: yields_def beside_def split: prod.splits)

lemma yields_etry: "yields Q m \<Longrightarrow> yields (\<lambda>r. \<forall>x. r = Inr x \<longrightarrow> Q x) (etry m)"
  by (auto simp: yields_def etry_def split: prod.splits)

text \<open>The envelopes a run can end with, by its task.\<close>

definition review_envelope_of :: "run_input \<Rightarrow> envelope \<Rightarrow> bool" where
  "review_envelope_of input env \<longleftrightarrow> env_kind env = KindPostReview \<and> env_run env = ri_run input \<and> env_schema env = SchemaVersion \<and>
     (\<exists>p. env_payload env = marshal (enc_post_review p) \<and> pr_verdict p \<in> {VerdictComment, VerdictRequestChanges})"

definition change_envelope_of :: "run_input \<Rightarrow> envelope \<Rightarrow> bool" where
  "change_envelope_of input env \<longleftrightarrow> env_kind env = KindOpenPR \<and> env_run env = ri_run input \<and> env_schema env = SchemaVersion \<and>
     (\<exists>p. env_payload env = marshal (enc_open_pr p) \<and> op_draft p)"

definition result_ok :: "run_input \<Rightarrow> run_result \<Rightarrow> bool" where
  "result_ok input res \<longleftrightarrow>
     (if is_review (ri_task input) then \<exists>env. rr_intents res = [env] \<and> review_envelope_of input env
      else if is_blocked (rr_verdict res) then rr_intents res = []
      else \<exists>env. rr_intents res = [env] \<and> change_envelope_of input env)"

lemma review_yields: "yields (review_envelope_of input) (readReviewIntent H wt (ri_run input))"
  unfolding readReviewIntent_def
  by (intro yield_intros yields_elift)
    (auto simp: parse_review_def review_envelope_of_def split: option.splits prod.splits)

lemma change_yields: "\<not> is_review (ri_task input) \<Longrightarrow> yields (result_ok input) (change_result E r input usage v vr)"
  unfolding change_result_def
  by (intro yield_intros)
    (auto simp: result_ok_def result_with_def change_envelope_of_def openPRIntent_def is_blocked_def no_change_verdict_def split: prod.splits)

lemma conversation_yields: "yields (result_ok input) (conversation E H r input)"
proof -
  let ?Q = "\<lambda>r. \<forall>env. r = Inr env \<longrightarrow> review_envelope_of input env"
  have read: "yields ?Q (if b then etry (beside (readReviewIntent H wt (ri_run input))) else eret (Inl e))" for b wt and e :: pi_error
    by (auto intro: yields_etry yields_beside review_yields yields_basic)
  have review: "yields (result_ok input) (ebind (elift review) (\<lambda>env. eret (result_with r usage [env] None)))"
    if "?Q review" "is_review (ri_task input)" for review usage
    by (rule yields_bind [where P = "review_envelope_of input"], rule yields_elift)
      (use that in \<open>auto intro!: yields_basic simp: result_ok_def result_with_def split: prod.splits\<close>)
  show ?thesis
    unfolding conversation_def Let_def
    by (rule yields_next, rule yields_next, rule yields_next, rule yields_next, rule yields_next, rule yields_next, rule yields_next,
      rule yields_branches(4), rule yields_bind [OF read],
      intro yields_next [where m = "sessionUsage H"] yields_next [where m = "beside m" for m] yields_next [where m = "elift settled" for settled]
        yields_branches yields_basic(2) review change_yields)
qed

lemma RPC_ok:
  assumes "RPC_Run E H r input w = (Inr res, v)"
  shows "result_ok input res"
proof -
  have "yields (result_ok input) (with_process p (conversation E H r input))" for p
    using yieldsD [OF conversation_yields] by (auto simp: with_process_def intro: yieldsI split: prod.splits)
  then have "yields (result_ok input) (RPC_Run E H r input)"
    unfolding RPC_Run_def Let_def by (intro yield_intros)
  then show ?thesis using assms by (rule yieldsD)
qed

text \<open>
  C21: A run of the agent that returns without an error has, for a review, one envelope with a review of
  a permitted verdict, for any other task no envelope when the agent is blocked and otherwise one
  with a pull request that is a draft; its run and schema are the harness's, not the agent's.
\<close>

theorem RPC_result:
  assumes "RPC_Run E H r input w = (Inr res, v)"
  shows "result_ok input res"
  using assms by (rule RPC_ok)

section \<open>The environment of the process\<close>

lemma before_char: "before s [c] = takeWhile (\<lambda>x. x \<noteq> c) s"
  by (induction s) (auto simp: before_def has_prefix_def split: prod.splits)


section \<open>Lines of the process\<close>

text \<open>An acknowledgement, and the two events that say the agent is through.\<close>

definition ack_line :: "string \<Rightarrow> string" where
  "ack_line i = marshal (JObj [(asc ''type'', jstr ''response''), (asc ''id'', jstr i), (asc ''success'', JBool True)])"

definition end_line :: string where
  "end_line = marshal (JObj [(asc ''type'', jstr ''agent_end''), (asc ''willRetry'', JBool False)])"

definition settled_line :: string where
  "settled_line = marshal (JObj [(asc ''type'', jstr ''agent_settled'')])"

lemma event_fields:
  "event_field (asc ''id'') = Some (into ev_id (\<lambda>f. ev_id_update (\<lambda>_. f)) dec_string)"
  "event_field (asc ''type'') = Some (into ev_type (\<lambda>f. ev_type_update (\<lambda>_. f)) dec_string)"
  "event_field (asc ''success'') = Some (into ev_success (\<lambda>f. ev_success_update (\<lambda>_. f)) (dec_ptr dec_bool False))"
  "event_field (asc ''willRetry'') = Some (into ev_retry (\<lambda>f. ev_retry_update (\<lambda>_. f)) dec_bool)"
  by (simp_all add: event_field_def field_names)

lemma unmarshal_marshal:
  "printable max_nesting_depth v \<Longrightarrow> unmarshal fld zero (marshal v) = dec_struct False fld v zero"
  by (simp add: unmarshal_def parse_marshal)

lemma read_lines:
  "ascii i \<Longrightarrow> read_event (ack_line i) = Some (zero_event\<lparr>ev_type := ''response'', ev_id := i, ev_success := Some True\<rparr>)"
  "read_event end_line = Some (zero_event\<lparr>ev_type := ''agent_end''\<rparr>)"
  "read_event settled_line = Some (zero_event\<lparr>ev_type := ''agent_settled''\<rparr>)"
  by (simp_all add: read_event_def ack_line_def end_line_def settled_line_def unmarshal_marshal asc_valid max_nesting_depth_def
      dec_struct_def event_fields into_def zero_event_def valid_utf8_ascii ascii_def dec_ptr_def)

text \<open>
  C40: A process that says it is through in both ways, first by the end of the agent's turn and then by
  the event that it has settled, ends the harness's next wait too: what follows a reminder or a
  feedback round is judged before the agent has read it.
\<close>

theorem stale_settle_ends_next_wait:
  "awaitSettled (w, p\<lparr>pp_lines := end_line # settled_line # ls\<rparr>) = (Inr (), (w, p\<lparr>pp_lines := settled_line # ls\<rparr>)) \<and>
   awaitSettled (w, p\<lparr>pp_lines := settled_line # ls\<rparr>) = (Inr (), (w, p\<lparr>pp_lines := ls\<rparr>))"
  by (simp add: awaitSettled_def read_lines zero_event_def)

lemma line_texts:
  "settled_line = ''{'' @ dq ''type'' @ '':'' @ dq ''agent_settled'' @ ''}''"
  "ack_line ''cfg-retry'' = ''{'' @ dq ''type'' @ '':'' @ dq ''response'' @ '','' @ dq ''id'' @ '':'' @ dq ''cfg-retry'' @ '','' @ dq ''success'' @ '':true}''"
  "ack_line ''cfg-compaction'' = ''{'' @ dq ''type'' @ '':'' @ dq ''response'' @ '','' @ dq ''id'' @ '':'' @ dq ''cfg-compaction'' @ '','' @ dq ''success'' @ '':true}''"
proof -
  have asc: "print_json v = asc s \<Longrightarrow> ascii s \<Longrightarrow> marshal v = s" for v s
    by (simp add: marshal_def of_runes_asc)
  have str: "ascii s \<Longrightarrow> jstr s = JStr (asc s)" for s
    by (simp add: jstr_def to_runes_ascii)
  show "settled_line = ''{'' @ dq ''type'' @ '':'' @ dq ''agent_settled'' @ ''}''"
    unfolding settled_line_def by (rule asc, simp add: str ascii_def, simp add: quote_def esc_rune_def asc_def dq_def, simp add: ascii_def dq_def)
  show "ack_line ''cfg-retry'' = ''{'' @ dq ''type'' @ '':'' @ dq ''response'' @ '','' @ dq ''id'' @ '':'' @ dq ''cfg-retry'' @ '','' @ dq ''success'' @ '':true}''"
    unfolding ack_line_def by (rule asc, simp add: str ascii_def, simp add: quote_def esc_rune_def asc_def dq_def, simp add: ascii_def dq_def)
  show "ack_line ''cfg-compaction'' = ''{'' @ dq ''type'' @ '':'' @ dq ''response'' @ '','' @ dq ''id'' @ '':'' @ dq ''cfg-compaction'' @ '','' @ dq ''success'' @ '':true}''"
    unfolding ack_line_def by (rule asc, simp add: str ascii_def, simp add: quote_def esc_rune_def asc_def dq_def, simp add: ascii_def dq_def)
qed


section \<open>A run in full\<close>

definition sample_review :: post_review where
  "sample_review = \<lparr>pr_verdict = ''comment'', pr_summary = ''ok'', pr_comments = ([], 0)\<rparr>"

text \<open>A host on which an agent acknowledges, settles and leaves a review.\<close>

definition review_host :: host where
  "review_host =
     \<lparr>ho_spawn = (\<lambda>_ _ _ _. NotRun), ho_shell = (\<lambda>_ _ _. (True, [])),
      ho_pi = (\<lambda>_ _ _ _ _. Some (print_lines [ack_line ''cfg-compaction'', ack_line ''cfg-retry'', settled_line])),
      ho_pi_takes = (\<lambda>_. True), ho_in_time = (\<lambda>_. True), ho_pi_exits = (\<lambda>_. True), ho_is_file = (\<lambda>_ _. False),
      ho_read = (\<lambda>_ _. Some (marshal (enc_post_review sample_review))), ho_mkdir = (\<lambda>_ _. True), ho_temp = (\<lambda>_ _. Some ''/tmp/x''),
      ho_message = (\<lambda>_. []), ho_environ = [], ho_float = (\<lambda>_. Some 0), ho_print = (\<lambda>_. True)\<rparr>"

definition sample_input :: run_input where
  "sample_input = \<lparr>ri_run = ''r1'', ri_task = ReviewTask \<lparr>rt_pr = 7, rt_base_sha = ''b'', rt_head_sha = ''h'', rt_url = ''u''\<rparr>,
     ri_graph_key = [], ri_worktree = ''/tmp/x/repo'', ri_limits = \<lparr>al_max_tokens = 0, al_max_seconds = 0\<rparr>\<rparr>"

lemma started_sample: "started (print_lines [ack_line ''cfg-compaction'', ack_line ''cfg-retry'', settled_line]) =
    \<lparr>pp_lines = [ack_line ''cfg-compaction'', ack_line ''cfg-retry'', settled_line], pp_torn = False, pp_sent = []\<rparr>"
proof -
  have "list_all short_line [ack_line ''cfg-compaction'', ack_line ''cfg-retry'', settled_line]"
    unfolding line_texts by (simp add: short_line_def dq_def max_diff_line_def)
  then have "scan_lines max_diff_line (print_lines [ack_line ''cfg-compaction'', ack_line ''cfg-retry'', settled_line]) =
      (map drop_cr [ack_line ''cfg-compaction'', ack_line ''cfg-retry'', settled_line], True)"
    by (rule scan_lines_print)
  also have "map drop_cr [ack_line ''cfg-compaction'', ack_line ''cfg-retry'', settled_line] =
      [ack_line ''cfg-compaction'', ack_line ''cfg-retry'', settled_line]"
    unfolding line_texts by (simp add: drop_cr_def dq_def)
  moreover have "max_pi_line = max_diff_line" by (simp only: max_pi_line_def max_diff_line_def)
  ultimately show ?thesis by (simp only: started_def prod.case simp_thms)
qed

lemma parse_sample: "\<exists>env. parse_review i (marshal (enc_post_review sample_review)) = Inr env"
proof -
  have "decode_payload post_review_field zero_post_review (marshal (enc_post_review sample_review)) = Inr sample_review"
    by (rule post_review_round_trip [where cs = "[]"]) (simp_all add: sample_review_def valid_utf8_ascii ascii_def)
  moreover have "printable max_nesting_depth (enc_post_review sample_review)"
    by (auto simp: enc_post_review_def asc_valid max_nesting_depth_def sample_review_def review_comments_def slice_list_def)
  ultimately show ?thesis
    by (auto simp: parse_review_def decode_payload_def decode_first_marshal check_def string_consts sample_review_def split: option.splits)
qed

lemma RPC_sample: "\<exists>res v. RPC_Run E review_host (NewPIRPC [] [] [] True) sample_input w = (Inr res, v)"
proof -
  obtain env where env: "parse_review ''r1'' (marshal (enc_post_review sample_review)) = Inr env" using parse_sample by blast
  have read: "read_event (ack_line ''cfg-compaction'') = Some (zero_event\<lparr>ev_type := ''response'', ev_id := ''cfg-compaction'', ev_success := Some True\<rparr>)"
    "read_event (ack_line ''cfg-retry'') = Some (zero_event\<lparr>ev_type := ''response'', ev_id := ''cfg-retry'', ev_success := Some True\<rparr>)"
    "read_event settled_line = Some (zero_event\<lparr>ev_type := ''agent_settled''\<rparr>)"
    by (rule read_lines, simp add: ascii_def)+ (rule read_lines)
  show ?thesis
    by (simp add: RPC_Run_def Let_def ebind_def observe_def review_host_def sample_input_def with_process_def conversation_def
        started_sample send_def ewrap_def awaitConfigAcks_def awaitConfigAcksLoop_def beside_def read zero_event_def etry_def
        awaitSettled_def eret_def readReviewIntent_def elift_def env sessionUsage_def awaitSessionStats_def zero_stats_def)
qed

lemma RPC_result_witness:
  "\<exists>res v. RPC_Run still_outside review_host (NewPIRPC [] [] [] True) sample_input (start_world empty_db) = (Inr res, v) \<and>
     result_ok sample_input res"
  using RPC_sample RPC_result by blast


section \<open>The rounds with the verifier\<close>

text \<open>At most \<open>n\<close> messages go to the process.\<close>

definition sends :: "nat \<Rightarrow> (world \<times> pi_process, 'e, 'a) eff \<Rightarrow> bool" where
  "sends n m \<longleftrightarrow> (\<forall>w p r v q. m (w, p) = (r, (v, q)) \<longrightarrow> length (pp_sent q) \<le> length (pp_sent p) + n)"

lemma sendsD: "sends n m \<Longrightarrow> m (w, p) = (r, (v, q)) \<Longrightarrow> length (pp_sent q) \<le> length (pp_sent p) + n"
  unfolding sends_def by blast

lemma sends_more: "sends a m \<Longrightarrow> a \<le> b \<Longrightarrow> sends b m"
  unfolding sends_def by (meson add_left_mono order_trans)

lemma sends_ebind:
  assumes "sends a m" "\<And>x. sends b (f x)"
  shows "sends (a + b) (ebind m f)"
  unfolding sends_def
proof (intro allI impI)
  fix w p r v q
  assume e: "ebind m f (w, p) = (r, (v, q))"
  obtain c u o' where c: "m (w, p) = (c, (u, o'))" by (cases "m (w, p)") auto
  have "length (pp_sent o') \<le> length (pp_sent p) + a" by (rule sendsD [OF assms(1) c])
  moreover have "c = Inr x \<Longrightarrow> f x (u, o') = (r, (v, q))" "c = Inl y \<Longrightarrow> q = o'" for x y
    using e c by (auto simp: ebind_def)
  ultimately show "length (pp_sent q) \<le> length (pp_sent p) + (a + b)"
    using sendsD [OF assms(2)] by (cases c) fastforce+
qed

lemma sends_none:
  "sends 0 (eret x)" "sends 0 (beside m)" "sends 0 awaitSettled" "sends 0 (eignore awaitSettled)"
  by (auto simp: sends_def beside_def awaitSettled_def eignore_def split: prod.splits)

lemma sends_one: "sends 1 (etry (send H m))"
  by (auto simp: sends_def etry_def send_def split: if_splits)

lemma sends_rounds: "sends (k - 1) (feedback_rounds E H r wt m k sig prev v fs vr)"
proof (induction k arbitrary: sig prev v fs vr)
  case (Suc k)
  let ?go = "\<lambda>res. ebind (etry (send H (Prompt (''fb'' @ itoa (int (m - k))) (FormatFeedback prev (vs_failures res) (int (m - k)) (int m))))) (\<lambda>q.
     case q of
       Inl _ \<Rightarrow> eret (v, Some res)
     | Inr _ \<Rightarrow>
         ebind (eignore awaitSettled) (\<lambda>_.
         ebind (beside (readVerdict H wt)) (\<lambda>nv.
         case nv of
           None \<Rightarrow> feedback_rounds E H r wt m k (Signature (vs_failures res)) (vs_failures res) v fs (Some res)
         | Some _ \<Rightarrow> feedback_rounds E H r wt m k (Signature (vs_failures res)) (vs_failures res) nv (verdict_fixes nv) (Some res))))"
  have go: "sends k (?go res)" if "k \<noteq> 0" for res
  proof -
    have "sends (k - 1) (case nv of
           None \<Rightarrow> feedback_rounds E H r wt m k (Signature (vs_failures res)) (vs_failures res) v fs (Some res)
         | Some _ \<Rightarrow> feedback_rounds E H r wt m k (Signature (vs_failures res)) (vs_failures res) nv (verdict_fixes nv) (Some res))" for nv
      using Suc.IH by (cases nv) simp_all
    then have "sends (0 + (0 + (k - 1))) (ebind (eignore awaitSettled) (\<lambda>_. ebind (beside (readVerdict H wt)) (\<lambda>nv. case nv of
           None \<Rightarrow> feedback_rounds E H r wt m k (Signature (vs_failures res)) (vs_failures res) v fs (Some res)
         | Some _ \<Rightarrow> feedback_rounds E H r wt m k (Signature (vs_failures res)) (vs_failures res) nv (verdict_fixes nv) (Some res))))"
      by (intro sends_ebind sends_none)
    then have "sends (1 + (k - 1)) (?go res)"
      by (intro sends_ebind sends_one) (auto split: sum.splits intro: sends_more [OF sends_none(1)])
    then show ?thesis using that by simp
  qed
  have "sends (0 + k) (feedback_rounds E H r wt m (Suc k) sig prev v fs vr)"
    unfolding feedback_rounds.simps Let_def
    by (rule sends_ebind [OF sends_none(2)]) (use go in \<open>auto intro: sends_more [OF sends_none(1)]\<close>)
  then show ?case by simp
qed (simp add: sends_none)

text \<open>
  C37: The verifier is heard a bounded number of times: with \<open>m\<close> rounds at most, no more than
  \<open>m - 1\<close> findings are sent back to the agent, whatever agent and verifier do.
\<close>

theorem feedback_is_bounded:
  assumes "graded_verdict E H r wt v (w, p) = (res, (u, q))"
  shows "length (pp_sent q) \<le> length (pp_sent p) + (max_rounds r - 1)"
proof -
  have "sends (max_rounds r - 1) (graded_verdict E H r wt v)"
    unfolding graded_verdict_def using sends_rounds sends_more [OF sends_none(1)] by auto
  then show ?thesis using assms by (rule sendsD)
qed

lemma feedback_is_bounded_witness:
  "\<exists>res u q. graded_verdict still_outside review_host (NewPIRPC [] [] [] True) ''wt'' None (start_world empty_db, \<lparr>pp_lines = [], pp_torn = False, pp_sent = []\<rparr>) = (res, (u, q)) \<and>
     length (pp_sent q) \<le> 2"
proof -
  obtain res u q where e: "graded_verdict still_outside review_host (NewPIRPC [] [] [] True) ''wt'' None
      (start_world empty_db, \<lparr>pp_lines = [], pp_torn = False, pp_sent = []\<rparr>) = (res, (u, q))"
    by (metis prod.exhaust)
  from feedback_is_bounded [OF e] e show ?thesis by (auto simp: max_rounds_def NewPIRPC_def)
qed

text \<open>What the verifier said of a worktree, at some time, and a body that does not hide it.\<close>

definition verified_as :: "outside \<Rightarrow> host \<Rightarrow> rpc \<Rightarrow> string \<Rightarrow> verify_result \<Rightarrow> bool" where
  "verified_as E H r wt res \<longleftrightarrow> (\<exists>claimed u u'. verify_worktree E H r wt claimed u = (Inr res, u'))"

definition reports :: "verify_result \<Rightarrow> string \<Rightarrow> bool" where
  "reports res body \<longleftrightarrow> vs_pass res \<or> list_all (\<lambda>f. sublist (''- '' @ fl_rule f @ '': '' @ fl_detail f @ newline) body) (vs_failures res)"

lemma sublist_concat: "x \<in> set xs \<Longrightarrow> sublist (f x) (concat (map f xs))"
proof (induction xs)
  case (Cons y xs)
  then show ?case by (cases "x = y") (auto simp: sublist_def, metis append.assoc)
qed simp

lemma reports_failures: "reports res (a @ pr_failures (Some res))"
proof (cases "vs_pass res")
  case False
  let ?line = "\<lambda>f. ''- '' @ fl_rule f @ '': '' @ fl_detail f @ newline"
  have "sublist (?line f) (a @ pr_failures (Some res))" if "f \<in> set (vs_failures res)" for f
  proof -
    note f = that
    obtain x y where "concat (map ?line (vs_failures res)) = x @ ?line f @ y"
      using sublist_concat [OF f, of ?line] by (auto simp: sublist_def)
    then show ?thesis unfolding sublist_def pr_failures_def using False
      by (intro exI [of _ "a @ newline @ newline @ ''**Known failures (external verifier):**'' @ newline @ x"] exI [of _ y]) simp
  qed
  then show ?thesis by (simp add: reports_def list_all_iff)
qed (simp add: reports_def)

definition graded :: "outside \<Rightarrow> host \<Rightarrow> rpc \<Rightarrow> string \<Rightarrow> verdict option \<times> verify_result option \<Rightarrow> bool" where
  "graded E H r wt = (\<lambda>(v, vr). is_blocked v \<or> (\<exists>res. vr = Some res \<and> verified_as E H r wt res))"

lemma yields_rounds:
  "k \<noteq> 0 \<or> (\<exists>res. vr = Some res \<and> verified_as E H r wt res) \<Longrightarrow>
   yields (graded E H r wt) (feedback_rounds E H r wt m k sig prev v fs vr)"
proof (induction k arbitrary: sig prev v fs vr)
  case 0
  then show ?case by (auto intro!: yields_basic simp: graded_def)
next
  case (Suc k)
  have "yields (verified_as E H r wt) (beside (verify_worktree E H r wt fs))"
    by (intro yields_beside yieldsI) (auto simp: verified_as_def)
  then show ?case
    unfolding feedback_rounds.simps Let_def
  proof (rule yields_bind)
    fix res
    assume res: "verified_as E H r wt res"
    then have "graded E H r wt (w, Some res)" for w by (simp add: graded_def)
    moreover have "yields (graded E H r wt) (feedback_rounds E H r wt m k s p w f (Some res))" for s p w f
      using Suc.IH res by blast
    ultimately show "yields (graded E H r wt)
        (if vs_pass res then eret (v, Some res)
         else if k = 0 \<or> Signature (vs_failures res) = sig then eret (v, Some res)
         else ebind (etry (send H (Prompt (''fb'' @ itoa (int (m - k))) (FormatFeedback prev (vs_failures res) (int (m - k)) (int m))))) (\<lambda>q.
           case q of
             Inl _ \<Rightarrow> eret (v, Some res)
           | Inr _ \<Rightarrow>
               ebind (eignore awaitSettled) (\<lambda>_.
               ebind (beside (readVerdict H wt)) (\<lambda>nv.
               case nv of
                 None \<Rightarrow> feedback_rounds E H r wt m k (Signature (vs_failures res)) (vs_failures res) v fs (Some res)
               | Some _ \<Rightarrow> feedback_rounds E H r wt m k (Signature (vs_failures res)) (vs_failures res) nv (verdict_fixes nv) (Some res)))))"
      by (intro yield_intros)
  qed
qed

lemma yields_graded: "yields (graded E H r wt) (graded_verdict E H r wt v)"
  unfolding graded_verdict_def
  by (intro yields_branches yields_basic yields_rounds) (auto simp: graded_def max_rounds_def)

definition verified_result :: "outside \<Rightarrow> host \<Rightarrow> rpc \<Rightarrow> string \<Rightarrow> run_result \<Rightarrow> bool" where
  "verified_result E H r wt res \<longleftrightarrow> list_all (\<lambda>env. \<exists>p q. env_payload env = marshal (enc_open_pr p) \<and>
     verified_as E H r wt q \<and> reports q (op_body p)) (rr_intents res)"

lemma yields_verified_change:
  assumes "graded E H r (ri_worktree input) (v, vr)"
  shows "yields (verified_result E H r (ri_worktree input)) (change_result E r input usage v vr)"
proof -
  have "\<exists>p q. marshal (enc_open_pr \<lparr>op_title = pr_title v, op_body = pr_report v @ pr_failures vr, op_draft = True\<rparr>) = marshal (enc_open_pr p) \<and>
      verified_as E H r (ri_worktree input) q \<and> reports q (op_body p)" if "\<not> is_blocked v"
  proof -
    note unblocked = that
    obtain q where "vr = Some q" "verified_as E H r (ri_worktree input) q" using assms unblocked by (auto simp: graded_def)
    then show ?thesis using reports_failures [of q "pr_report v"]
      by (intro exI [of _ "\<lparr>op_title = pr_title v, op_body = pr_report v @ pr_failures vr, op_draft = True\<rparr>"] exI [of _ q]) simp
  qed
  then show ?thesis
    unfolding change_result_def
    by (intro yield_intros) (auto simp: verified_result_def result_with_def openPRIntent_def split: prod.splits)
qed

lemma yields_verified:
  assumes "is_security (ri_task input)"
  shows "yields (verified_result E H r (ri_worktree input)) (conversation E H r input)"
proof -
  have s: "is_security (ri_task input) = True" "is_review (ri_task input) = False" using assms by (cases "ri_task input"; simp)+
  show ?thesis
    unfolding conversation_def Let_def s if_True if_False simp_thms
    by (rule yields_next, rule yields_next, rule yields_next, rule yields_next, rule yields_next, rule yields_next,
      rule yields_bind [OF yields_graded], rule yields_branches(4), intro yields_next yields_branches(1) yields_basic(2) yields_verified_change, simp_all)
qed

text \<open>
  C23: A security change never goes out unverified or silently red: when a security run ends with an
  envelope, the external verifier has judged the worktree, and it either passed it or each
  of its failures is in the body of the pull request.
\<close>

theorem security_change_was_verified:
  assumes "RPC_Run E H r input w = (Inr res, v)" "is_security (ri_task input)" "env \<in> set (rr_intents res)"
  shows "\<exists>p q. env_payload env = marshal (enc_open_pr p) \<and> verified_as E H r (ri_worktree input) q \<and> reports q (op_body p)"
proof -
  have "yields (verified_result E H r (ri_worktree input)) (with_process p (conversation E H r input))" for p
    using yieldsD [OF yields_verified [OF assms(2)]] by (auto simp: with_process_def intro: yieldsI split: prod.splits)
  then have "yields (verified_result E H r (ri_worktree input)) (RPC_Run E H r input)"
    unfolding RPC_Run_def Let_def by (intro yield_intros)
  from yieldsD [OF this assms(1)] show ?thesis using assms(3) by (auto simp: verified_result_def list_all_iff)
qed

text \<open>A security run whose agent leaves a commit and no verdict, and whose scanner does not run.\<close>

definition commit_outside :: outside where
  "commit_outside = still_outside\<lparr>o_git := (\<lambda>_ args. if ''rev-list'' \<in> set args then Some ''1'' else None)\<rparr>"

definition change_host :: host where
  "change_host = review_host\<lparr>ho_read := (\<lambda>_ _. None)\<rparr>"

definition security_input :: run_input where
  "security_input = sample_input\<lparr>ri_task := SecurityTask ''main''\<rparr>"

lemma security_sample:
  "\<exists>res v env. RPC_Run commit_outside change_host ((NewPIRPC [] [] [] True)\<lparr>pi_rounds := 1\<rparr>) security_input w = (Inr res, v) \<and>
     env \<in> set (rr_intents res)"
proof -
  have read: "read_event (ack_line ''cfg-compaction'') = Some (zero_event\<lparr>ev_type := ''response'', ev_id := ''cfg-compaction'', ev_success := Some True\<rparr>)"
    "read_event (ack_line ''cfg-retry'') = Some (zero_event\<lparr>ev_type := ''response'', ev_id := ''cfg-retry'', ev_success := Some True\<rparr>)"
    "read_event settled_line = Some (zero_event\<lparr>ev_type := ''agent_settled''\<rparr>)"
    by (rule read_lines, simp add: ascii_def)+ (rule read_lines)
  have "word ''1''" by (simp add: word_def ascii_def is_space_def)
  then have one: "atoi (trim_space ''1'') = Some 1" by (simp add: trim_space_word) code_simp
  show ?thesis
    by (simp add: RPC_Run_def Let_def ebind_def observe_def change_host_def review_host_def security_input_def sample_input_def with_process_def conversation_def
        started_sample send_def ewrap_def awaitConfigAcks_def awaitConfigAcksLoop_def beside_def read zero_event_def etry_def
        awaitSettled_def eret_def elift_def sessionUsage_def awaitSessionStats_def zero_stats_def first_verdict_def readVerdict_def eignore_def
        graded_verdict_def is_blocked_def max_rounds_def NewPIRPC_def verify_worktree_def Verify_def uncommitted_failures_def git_def commit_outside_def
        vuln_failures_def StandardTools_def test_failures_def TestCommandFor_def change_result_def hasCommits_def one result_with_def
        verdict_fixes_def numeral_eq_Suc)
qed

lemma security_change_was_verified_witness:
  "\<exists>res v env p q. RPC_Run commit_outside change_host ((NewPIRPC [] [] [] True)\<lparr>pi_rounds := 1\<rparr>) security_input (start_world empty_db) = (Inr res, v) \<and>
     env \<in> set (rr_intents res) \<and> env_payload env = marshal (enc_open_pr p) \<and>
     verified_as commit_outside change_host ((NewPIRPC [] [] [] True)\<lparr>pi_rounds := 1\<rparr>) (ri_worktree security_input) q \<and> reports q (op_body p)"
proof -
  obtain res v env where r: "RPC_Run commit_outside change_host ((NewPIRPC [] [] [] True)\<lparr>pi_rounds := 1\<rparr>) security_input (start_world empty_db) = (Inr res, v)"
    "env \<in> set (rr_intents res)"
    using security_sample by blast
  have "is_security (ri_task security_input)" by (simp add: security_input_def)
  from security_change_was_verified [OF r(1) this r(2)] r show ?thesis by blast
qed

end
