(* ===== verification/Worker.thy ===== *)
theory Worker
  imports Scanjob Agent
begin

text \<open>
  The worker (\<open>cmd/worker/main.go\<close>): the checkouts it makes for a run and the handler of a job, with the
  pipelines over the ledger, the executor and the agent of this development. Its \<open>main\<close> is in \<open>Process\<close>; its
  log lines are left out.
\<close>

section \<open>Checkouts\<close>

definition worker_git :: "outside \<Rightarrow> string \<Rightarrow> string list \<Rightarrow> (world, unit, unit) eff" where
  "worker_git E worktree args = ebind (git E ([''-C'', worktree] @ args)) (\<lambda>_. eret ())"

definition newSandboxer :: "outside \<Rightarrow> host \<Rightarrow> string \<Rightarrow> (world, sandbox_error, string) eff" where
  "newSandboxer E H repo =
     ebind (observe (\<lambda>t. ho_temp H t ''bothos-sandbox-'')) (\<lambda>tmp.
     case tmp of
       None \<Rightarrow> efail TempDirError
     | Some dir \<Rightarrow>
         let wt = dir @ ''/repo'' in
         ebind (ewrap (\<lambda>_. GitStepError 0) (ShallowClone E H wt repo)) (\<lambda>_.
         ebind (ewrap (\<lambda>_. GitStepError 1) (worker_git E wt [''config'', ''user.name'', ''bothos''])) (\<lambda>_.
         ebind (ewrap (\<lambda>_. GitStepError 2) (worker_git E wt [''config'', ''user.email'', ''bothos@localhost''])) (\<lambda>_.
         ebind (eignore (worker_git E wt [''remote'', ''set-head'', ''origin'', ''--auto''])) (\<lambda>_.
         eret wt)))))"

definition gitURL :: "string \<Rightarrow> string \<Rightarrow> string" where
  "gitURL tok repo = clone_address tok (trim_suffix repo ''.git'')"

definition newReviewSandboxerWithURL ::
  "outside \<Rightarrow> host \<Rightarrow> (string \<Rightarrow> string) \<Rightarrow> string \<Rightarrow> int \<Rightarrow> string \<Rightarrow> string \<Rightarrow> (world, sandbox_error, string) eff" where
  "newReviewSandboxerWithURL E H repoURL repo prNumber baseSHA headSHA =
     ebind (observe (\<lambda>t. ho_temp H t ''bothos-review-'')) (\<lambda>tmp.
     case tmp of
       None \<Rightarrow> efail TempDirError
     | Some dir \<Rightarrow>
         let wt = filepath_join [dir, ''repo''] in
         ebind (observe (\<lambda>t. ho_mkdir H t wt)) (\<lambda>made.
         if \<not> made then efail (GitStepError 0)
         else
           ebind (ewrap (\<lambda>_. GitStepError 1) (worker_git E wt [''init'', ''-q''])) (\<lambda>_.
           ebind (ewrap (\<lambda>_. GitStepError 2) (worker_git E wt [''remote'', ''add'', ''origin'', repoURL repo])) (\<lambda>_.
           ebind (ewrap (\<lambda>_. GitStepError 3) (worker_git E wt [''fetch'', ''--depth=1'', ''origin'', baseSHA])) (\<lambda>_.
           ebind (ewrap (\<lambda>_. GitStepError 4) (worker_git E wt [''update-ref'', ''refs/bothos/base'', ''FETCH_HEAD''])) (\<lambda>_.
           ebind (ewrap (\<lambda>_. GitStepError 5) (worker_git E wt [''fetch'', ''--depth=1'', ''origin'', ''refs/pull/'' @ itoa prNumber @ ''/head''])) (\<lambda>_.
           ebind (ewrap (\<lambda>_. GitStepError 6) (worker_git E wt [''checkout'', ''--detach'', ''FETCH_HEAD''])) (\<lambda>_.
           ebind (ewrap (\<lambda>_. GitStepError 7) (git E [''-C'', wt, ''rev-parse'', ''HEAD''])) (\<lambda>out.
           let got = trim_space out in
           if got \<noteq> headSHA then efail (HeadMismatch got) else eret wt)))))))))"

definition newReviewSandboxer :: "outside \<Rightarrow> host \<Rightarrow> string \<Rightarrow> int \<Rightarrow> string \<Rightarrow> string \<Rightarrow> (world, sandbox_error, string) eff" where
  "newReviewSandboxer E H = newReviewSandboxerWithURL E H (gitURL (getenv (ho_environ H) ''GITHUB_READ_TOKEN''))"

section \<open>The handler\<close>

record worker_flags =
  wf_pi :: string
  wf_model :: string
  wf_session :: string

definition agent_config :: "worker_flags \<Rightarrow> (string \<times> cfg_value) list" where
  "agent_config fl = [(''pi'', CfgString (wf_pi fl)), (''model'', CfgString (wf_model fl)),
     (''session_dir'', CfgString (wf_session fl)), (''approve'', CfgBool True)]"

definition worker_registry :: "string \<Rightarrow> ((string \<times> cfg_value) list \<Rightarrow> (unit registry_error, rpc) result) option" where
  "worker_registry = Register ''pi'' newPIRuntime Map.empty"

text \<open>
  The pipelines as the handler puts them together. \<open>R\<close> is the machine as the checks of a review see it
  at some time, \<open>render\<close> the text of a failure.
\<close>

definition change_pipeline :: "outside \<Rightarrow> host \<Rightarrow> (pipe_error \<Rightarrow> string) \<Rightarrow> (string \<Rightarrow> string) \<Rightarrow> rpc \<Rightarrow> pipeline" where
  "change_pipeline E H render lookup agent =
     \<lparr>pl_store = pg_store E, pl_agent = (\<lambda>input. ewrap (\<lambda>_. ()) (RPC_Run E H agent input)),
      pl_exec = Execute E (NewExecutor E lookup), pl_sandbox = newSandboxer E H, pl_now = clock E, pl_render = render\<rparr>"

definition worker_review_pipeline ::
  "outside \<Rightarrow> host \<Rightarrow> (nat \<Rightarrow> review_env) \<Rightarrow> (pipe_error \<Rightarrow> string) \<Rightarrow> (string \<Rightarrow> string) \<Rightarrow> rpc \<Rightarrow> review_pipeline" where
  "worker_review_pipeline E H R render lookup agent =
     \<lparr>pl_store = pg_store E, pl_agent = (\<lambda>input. ewrap (\<lambda>_. ()) (RPC_Run E H agent input)),
      pl_exec = Execute E (NewExecutor E lookup), pl_sandbox = newSandboxer E H, pl_now = clock E, pl_render = render,
      pl_acknowledge = Some (AcknowledgeReview (NewExecutor E lookup)),
      pl_review_sandbox = newReviewSandboxer E H,
      pl_checks = (\<lambda>wt w. All_checks E (R (w_tick w)) wt w)\<rparr>"

definition failRun :: "outside \<Rightarrow> string \<Rightarrow> (world, db_error, unit) eff" where
  "failRun E runID = eignore (SetRunStatus E runID RunFailed)"

text \<open>One of the three pipelines, by the run's trigger.\<close>

definition run_pipeline ::
  "outside \<Rightarrow> host \<Rightarrow> (nat \<Rightarrow> review_env) \<Rightarrow> (pipe_error \<Rightarrow> string) \<Rightarrow> (string \<Rightarrow> string) \<Rightarrow> rpc \<Rightarrow> string \<Rightarrow> string \<Rightarrow> (world, pipe_error, string) eff" where
  "run_pipeline E H R render lookup agent trig runID =
     (if trig = ''upgrade'' then Pipeline_Run (change_pipeline E H render lookup agent) runID
      else if trig = ''webhook_pull_request'' then ReviewPipeline_Run E (worker_review_pipeline E H R render lookup agent) runID
      else IssuePipeline_Run (change_pipeline E H render lookup agent) runID)"

definition handled_triggers :: "string list" where
  "handled_triggers = [''upgrade'', ''webhook_pull_request'', ''webhook_issue_labeled'']"

definition handle ::
  "outside \<Rightarrow> host \<Rightarrow> (nat \<Rightarrow> review_env) \<Rightarrow> (pipe_error \<Rightarrow> string) \<Rightarrow> worker_flags \<Rightarrow> string \<Rightarrow> (world, db_error, unit) eff" where
  "handle E H R render fl runID =
     ebind (RunByID E runID) (\<lambda>run.
     if lr_trigger run \<notin> set handled_triggers then failRun E runID
     else case New ''pi'' (agent_config fl) worker_registry of
         Inl _ \<Rightarrow> failRun E runID
       | Inr agent \<Rightarrow>
           ebind (etry (run_pipeline E H R render (getenv (ho_environ H)) agent (lr_trigger run) runID)) (\<lambda>r.
           case r of Inl _ \<Rightarrow> failRun E runID | Inr _ \<Rightarrow> eret ()))"

definition envOr :: "string list \<Rightarrow> string \<Rightarrow> string \<Rightarrow> string" where
  "envOr env k dflt = (if getenv env k \<noteq> [] then getenv env k else dflt)"

definition envIntOr :: "string list \<Rightarrow> string \<Rightarrow> int \<Rightarrow> int" where
  "envIntOr env k dflt =
     (if getenv env k \<noteq> [] then (case atoi (getenv env k) of Some v \<Rightarrow> v | None \<Rightarrow> dflt) else dflt)"

section \<open>The worker's seams\<close>

lemma row_prod [row_intros]: "(\<And>a b. row_stays i (f a b)) \<Longrightarrow> row_stays i (case q of (a, b) \<Rightarrow> f a b)"
  by (cases q) simp

lemma row_intents [row_intros]:
  "row_stays i (Lookup E k)" "row_stays i (Record E k j rf)" "row_stays i (ReviewCommentID E rp n)" "row_stays i (UpsertReviewComment E rp n c)"
  unfolding Lookup_def Record_def ReviewCommentID_def UpsertReviewComment_def
  by (rule row_exec_stmt, auto simp: stmt_lookup_def stmt_record_def stmt_review_comment_def stmt_upsert_review_def
      split: option.splits)+

lemma pg_ledger_simps [simp]:
  "xl_Lookup (pg_ledger E) = Lookup E" "xl_Record (pg_ledger E) = Record E"
  "xl_ReviewCommentID (pg_ledger E) = ReviewCommentID E" "xl_UpsertReviewComment (pg_ledger E) = UpsertReviewComment E"
  by (simp_all add: pg_ledger_def)

lemma row_Execute: "row_stays i (Execute E (NewExecutor E lookup) env g wt)"
  unfolding Execute_def execute_new_def mapped_comment_def record_comment_def Let_def NewExecutor_simps pg_ledger_simps
  by (intro row_intros row_still [OF worker_exec.still_write_payload] row_still [OF db_still_quiet(1)])

lemma row_Acknowledge: "row_stays i (AcknowledgeReview (NewExecutor E lookup) g)"
  unfolding AcknowledgeReview_def Let_def NewExecutor_simps pg_ledger_simps
  by (intro row_intros row_still [OF go_github.writer_still(7)])

text \<open>What an execution may write, and an acknowledgement.\<close>

definition worker_writes :: "outside \<Rightarrow> (string \<Rightarrow> string) \<Rightarrow> envelope \<Rightarrow> grant \<Rightarrow> string \<Rightarrow> event \<Rightarrow> bool" where
  "worker_writes E lookup env g wt e \<longleftrightarrow> exec_event (NewExecutor E lookup) env g e \<and>
     (publishes e \<longrightarrow> diff_accepted (NewExecutor E lookup) g wt \<and> (\<exists>now v. Validate env g now = Inr (POpenPR v) \<and> opens_as v e))"

text \<open>A write to the conversation of the grant's number, under the token for comments.\<close>

definition comment_event :: "(string \<Rightarrow> string) \<Rightarrow> grant \<Rightarrow> event \<Rightarrow> bool" where
  "comment_event lookup g e \<longleftrightarrow> (\<exists>tok. Resolve lookup (repo_account (g_repo g)) TokenIssuesWrite = Inr tok \<and>
     event_at \<lparr>cr_account = repo_account (g_repo g), cr_scope = TokenIssuesWrite, cr_token = tok, cr_repo = g_repo g\<rparr>
       (sc_number (g_scope g)) (\<lambda>_. False) (\<lambda>c. \<not> creates_pr c) e)"

lemma logs_Acknowledge: "logs (comment_event lookup g) (AcknowledgeReview (NewExecutor E lookup) g)"
proof -
  have quiet: "logs P (UpsertReviewComment E rp n c)" for P rp n c
    unfolding UpsertReviewComment_def by (intro trace_intros)
  have ack: "logs (comment_event lookup g) (gw_AcknowledgeReview (NewGitHubWriter E)
      \<lparr>cr_account = repo_account (g_repo g), cr_scope = TokenIssuesWrite, cr_token = tok, cr_repo = g_repo g\<rparr> (sc_number (g_scope g)))"
    if "Resolve lookup (repo_account (g_repo g)) TokenIssuesWrite = Inr tok" for tok
    by (rule logs_mono [OF go_github.ack_logs]) (use that in \<open>auto simp: comment_event_def\<close>)
  have tok: "ewrap XToken (elift s) w = (Inr tok, v) \<Longrightarrow> s = Inr tok" for s and w v :: world and tok :: string
    by (auto simp: eff_iffs)
  show ?thesis
    unfolding AcknowledgeReview_def Let_def NewExecutor_simps pg_ledger_simps
    by (intro trace_intros quiet ack logs_ebind_reach [where m = "ewrap XToken m" for m]) (rule tok)
qed

lemma quiet_checkouts [trace_intros]:
  "logs P (worker_git E wt args)" "db_still (worker_git E wt args)" "logs P (ShallowClone E H dir rp)" "db_still (ShallowClone E H dir rp)"
  unfolding worker_git_def ShallowClone_def by (intro trace_intros)+

lemma quiet_sandboxes [trace_intros]:
  "logs P (newSandboxer E H rp)" "db_still (newSandboxer E H rp)"
  "logs P (newReviewSandboxer E H rp n b h)" "db_still (newReviewSandboxer E H rp n b h)"
  unfolding newSandboxer_def newReviewSandboxer_def newReviewSandboxerWithURL_def Let_def by (intro trace_intros)+

text \<open>The backend the handler gets.\<close>

definition worker_agent :: "worker_flags \<Rightarrow> rpc" where
  "worker_agent fl = (case newPIRuntime (agent_config fl) of Inl (_ :: unit registry_error) \<Rightarrow> NewPIRPC [] [] [] False | Inr r \<Rightarrow> r)"

lemma worker_runtime: "New ''pi'' (agent_config fl) worker_registry = Inr (worker_agent fl)"
  by (simp add: New_def worker_registry_def Register_def worker_agent_def newPIRuntime_def Let_def)

lemma worker_agent_verify: "pi_verify (worker_agent fl) = None"
  by (simp add: worker_agent_def newPIRuntime_def Let_def NewPIRPC_def)

lemma agent_answers:
  assumes "ewrap (\<lambda>_. ()) (RPC_Run E H r input) w = (Inr res, v)"
  shows "result_ok input res"
  using RPC_ok assms by (auto simp: ewrap_Inr_iff)

section \<open>The checks make no calls\<close>

lemma quiet_manifests: "logs P (manifest_deltas E R wt fs ps)" "db_still (manifest_deltas E R wt fs ps)"
proof -
  have base: "logs P (readBaseFile E wt p)" "db_still (readBaseFile E wt p)" for P p
    unfolding readBaseFile_def by (intro trace_intros)+
  show "logs P (manifest_deltas E R wt fs ps)" "db_still (manifest_deltas E R wt fs ps)"
    by (induction ps) (unfold manifest_deltas.simps, (intro trace_intros base, assumption?)+)
qed

lemma quiet_checks [trace_intros]: "logs P (All_checks E R wt)" "db_still (All_checks E R wt)"
proof -
  have delta: "logs P (osvDeltaFindings E R wt ins)" "db_still (osvDeltaFindings E R wt ins)" for P ins
    unfolding osvDeltaFindings_def materializeBase_def by (intro trace_intros)+
  have deps: "logs P (dependencyDeltaFindings E R wt fs)" "db_still (dependencyDeltaFindings E R wt fs)" for P fs
    unfolding dependencyDeltaFindings_def Let_def
    by (cases "lockfiles_of fs"; auto intro!: trace_intros quiet_manifests)+
  have load: "logs P (loadDiff E wt)" "db_still (loadDiff E wt)" for P
    unfolding loadDiff_def by (intro trace_intros)+
  show "logs P (All_checks E R wt)" "db_still (All_checks E R wt)"
    unfolding All_checks_def by (intro trace_intros delta deps load)+
qed

lemma quiet_checks_then [trace_intros]:
  "logs P (\<lambda>w. All_checks E (R (w_tick w)) wt w)" "db_still (\<lambda>w. All_checks E (R (w_tick w)) wt w)"
  using logsD [OF quiet_checks(1)] db_stillD [OF quiet_checks(2)] by (auto intro!: logsI db_stillI)

lemma quiet_agent: "logs P (ewrap h (RPC_Run E H (worker_agent fl) input))" "db_still (ewrap h (RPC_Run E H (worker_agent fl) input))"
  by (intro trace_intros RPC_quiet worker_agent_verify)+

lemma logs_worker_writes: "logs (worker_writes E lookup env g wt) (Execute E (NewExecutor E lookup) env g wt)"
  using worker_exec.Execute_logs by (rule logs_mono) (simp add: worker_writes_def)

interpretation worker_change: run_seams E "change_pipeline E H render lookup (worker_agent fl)" "worker_writes E lookup" result_ok
  for E H render lookup fl
proof unfold_locales
  fix input w res v
  show "pl_agent (change_pipeline E H render lookup (worker_agent fl)) input w = (Inr res, v) \<Longrightarrow> result_ok input res"
    by (simp add: change_pipeline_def) (rule agent_answers)
qed (simp_all add: change_pipeline_def row_Execute logs_worker_writes quiet_agent quiet_sandboxes trace_intros)

interpretation worker_review: review_seams E "worker_review_pipeline E H R render lookup (worker_agent fl)" "worker_writes E lookup" result_ok "comment_event lookup"
  for E H R render lookup fl
proof unfold_locales
  fix input w res v
  show "pl_agent (worker_review_pipeline E H R render lookup (worker_agent fl)) input w = (Inr res, v) \<Longrightarrow> result_ok input res"
    by (simp add: worker_review_pipeline_def) (rule agent_answers)
qed (auto simp: worker_review_pipeline_def row_Execute row_Acknowledge logs_worker_writes logs_Acknowledge quiet_agent quiet_sandboxes trace_intros)

section \<open>A handled job ends its run\<close>

lemma row_run_pipeline: "row_stays i (run_pipeline E H R render lookup (worker_agent fl) trig i)"
  unfolding run_pipeline_def Pipeline_Run_def IssuePipeline_Run_def ReviewPipeline_Run_def
    worker_change.store_simps worker_review.store_simps
  by (intro row_intros worker_change.row_Pipeline worker_change.row_Issue worker_review.row_Review)

lemma ends_run_pipeline: "ends_ok i (run_pipeline E H R render lookup (worker_agent fl) trig i)"
  unfolding run_pipeline_def Pipeline_Run_def IssuePipeline_Run_def ReviewPipeline_Run_def
    worker_change.store_simps worker_review.store_simps
  by (intro end_intros row_intros worker_change.ends_Pipeline worker_change.ends_Issue worker_review.ends_Review)

lemma handle_eq:
  "handle E H R render fl i = ebind (RunByID E i) (\<lambda>run.
     if lr_trigger run \<notin> set handled_triggers then failRun E i
     else ebind (etry (run_pipeline E H R render (getenv (ho_environ H)) (worker_agent fl) (lr_trigger run) i)) (\<lambda>r.
       case r of Inl _ \<Rightarrow> failRun E i | Inr _ \<Rightarrow> eret ()))"
  unfolding handle_def worker_runtime sum.case ..

lemma row_handle: "row_stays i (handle E H R render fl i)"
  unfolding handle_eq failRun_def by (intro row_intros row_run_pipeline)

text \<open>
  C16: A job is confined to its run: whatever the agent, the outside and the database do, the rows of all other
  runs are what they were, no run or job is added or removed, and the rules of the repositories stay.
\<close>

theorem job_leaves_other_runs:
  assumes "handle E H R render fl i w = (r, v)"
  shows "(\<forall>j. find_run j (w_db v) = find_run j (w_db w) \<or> j = i) \<and> map rn_id (db_runs (w_db v)) = map rn_id (db_runs (w_db w)) \<and>
    db_jobs (w_db v) = db_jobs (w_db w) \<and> db_config (w_db v) = db_config (w_db w)"
proof -
  have k: "kept i (w_db v) = kept i (w_db w)" by (rule row_stays_kept [OF row_handle assms])
  then have ins: "map run_core (db_runs (w_db v)) = map run_core (db_runs (w_db w))" "db_jobs (w_db v) = db_jobs (w_db w)" "db_config (w_db v) = db_config (w_db w)"
    by (simp_all add: kept_def inserted_def)
  have "map fst (map run_core rs) = map rn_id rs" for rs by (simp add: run_core_def comp_def)
  then have "map rn_id (db_runs (w_db v)) = map rn_id (db_runs (w_db w))" using ins(1) by metis
  then show ?thesis using kept_find [OF k] ins(2,3) by blast
qed

lemma healthy_stmt: "\<forall>t. o_db E t = Healthy \<Longrightarrow> exec_stmt E f w = (fst (f (o_clock E (w_tick w)) (w_db w)), (tick w)\<lparr>w_db := snd (f (o_clock E (w_tick w)) (w_db w))\<rparr>)"
  by (simp add: exec_stmt_def split: prod.splits)

lemma failRun_ends:
  assumes "\<forall>t. o_db E t = Healthy" "find_run i (w_db w) \<noteq> None"
  shows "\<exists>v. failRun E i w = (Inr (), v) \<and> ended i v"
proof -
  obtain v where v: "SetRunStatus E i RunFailed w = (Inr (), v)"
    unfolding SetRunStatus_def healthy_stmt [OF assms(1)] by (simp add: stmt_set_status_def)
  then have "ebind (ewrap id (SetRunStatus E i RunFailed)) (\<lambda>_. eret ()) w = (Inr (), v)" by (simp add: eff_iffs)
  moreover have "ends_ok i (ebind (ewrap id (SetRunStatus E i RunFailed)) (\<lambda>_. eret ()))"
    by (rule ends_set_status) (simp add: terminal_def)
  ultimately have "ended i v" using assms(2) by (blast intro: ends_okD)
  then show ?thesis using v by (simp add: failRun_def eignore_def)
qed

lemma handle_ends:
  assumes "\<forall>t. o_db E t = Healthy" "find_run runID (w_db w) \<noteq> None"
  shows "\<exists>v. handle E H R render fl runID w = (Inr (), v) \<and> ended runID v"
proof -
  obtain run u where u: "RunByID E runID w = (Inr run, u)"
    using assms by (auto simp: RunByID_def healthy_stmt [OF assms(1)] stmt_run_by_id_def)
  have row: "find_run runID (w_db u) \<noteq> None" using row_staysD [OF row_store(1) u assms(2)] .
  show ?thesis
  proof (cases "lr_trigger run \<in> set handled_triggers")
    case False
    then show ?thesis using failRun_ends [OF assms(1) row] u by (simp add: handle_eq ebind_def)
  next
    case True
    obtain q z where z: "run_pipeline E H R render (getenv (ho_environ H)) (worker_agent fl) (lr_trigger run) runID u = (q, z)" by fastforce
    have "find_run runID (w_db z) \<noteq> None" by (rule row_staysD [OF row_run_pipeline z row])
    then show ?thesis
      using True u z failRun_ends [OF assms(1)] ends_okD [OF ends_run_pipeline _ row]
      by (cases q) (auto simp: handle_eq ebind_def etry_def eret_def)
  qed
qed

text \<open>A run that has ended stays so under the jobs of other runs, and under its own when it is delivered again.\<close>

lemma handle_keeps_ended:
  assumes "\<forall>t. o_db E t = Healthy" "handle E H R render fl i w = (r, v)" "ended j w"
  shows "ended j v"
proof (cases "j = i")
  case True
  then show ?thesis using handle_ends [OF assms(1), of i w H R render fl] assms(2,3) by (auto simp: ended_def)
next
  case False
  then show ?thesis using kept_find [OF row_stays_kept [OF row_handle assms(2)]] assms(3) by (simp add: ended_def)
qed

text \<open>
  C15: While the database answers, a job does not leave its run behind: whatever the agent, git, GitHub, the
  file system and the clock do, the handler returns without an error, so that the queue does not run the
  job again, and the run has ended as succeeded, failed or in need of input.
\<close>

theorem handled_run_ends:
  assumes "\<forall>t. o_db E t = Healthy" "find_run runID (w_db w) \<noteq> None"
  shows "\<exists>v. handle E H R render fl runID w = (Inr (), v) \<and> ended runID v"
  by (rule handle_ends [OF assms])

section \<open>What a job may write\<close>

lemma RunByID_logs: "logs P (RunByID E j)" "logs P (failRun E j)"
  unfolding RunByID_def failRun_def SetRunStatus_def by (intro trace_intros)+

text \<open>The calls of a run, by its row.\<close>

definition run_event :: "outside \<Rightarrow> (string \<Rightarrow> string) \<Rightarrow> run_row \<Rightarrow> event \<Rightarrow> bool" where
  "run_event E lookup row e \<longleftrightarrow> rn_trigger row \<in> set handled_triggers \<and>
     (if rn_trigger row = ''upgrade'' then \<exists>env wt j. security_intent result_ok j env \<and> worker_writes E lookup env (rn_grant row) wt e
      else if rn_trigger row = ''webhook_pull_request'' then
        comment_event lookup (rn_grant row) e \<or>
        (\<exists>findings model wt j. worker_writes E lookup (review_envelope j (trusted_review (rn_grant row) findings model)) (rn_grant row) wt e)
      else \<exists>env wt. issue_intent env \<and> worker_writes E lookup env (rn_grant row) wt e)"

lemma ewrap_id: "ewrap (\<lambda>e. e) m = m"
  by (rule ext) (simp add: ewrap_def split: prod.splits sum.splits)

lemma load_adds:
  assumes "find_run i (w_db w) = Some row" "ebind (ewrap h (RunByID E i)) f w = (a, z)"
    and "\<And>run u b y. lr_grant run = rn_grant row \<Longrightarrow> lr_trigger run = rn_trigger row \<Longrightarrow> w_db u = w_db w \<Longrightarrow>
      f run u = (b, y) \<Longrightarrow> adds P u y"
  shows "adds P w z"
proof -
  obtain q u where u: "RunByID E i w = (q, u)" by fastforce
  have wu: "adds P w u" using RunByID_logs(1) u by (rule logsD)
  show ?thesis
  proof (cases q)
    case (Inl e)
    then show ?thesis using assms(2) u wu by (simp add: ebind_def ewrap_def)
  next
    case (Inr run)
    then have "f run u = (a, z)" using assms(2) u by (simp add: ebind_def ewrap_def)
    moreover have "lr_grant run = rn_grant row" "lr_trigger run = rn_trigger row" "w_db u = w_db w"
      using RunByID_row [OF u [unfolded Inr]] assms(1) by auto
    ultimately show ?thesis using assms(3) wu adds_trans by blast
  qed
qed

lemma run_pipeline_adds:
  assumes "run_pipeline E H R render (getenv (ho_environ H)) (worker_agent fl) (rn_trigger row) i w = (a, z)" "find_run i (w_db w) = Some row"
    and "rn_trigger row \<in> set handled_triggers"
  shows "adds (run_event E (getenv (ho_environ H)) row) w z"
proof -
  let ?P = "run_event E (getenv (ho_environ H)) row"
  let ?c = "change_pipeline E H render (getenv (ho_environ H)) (worker_agent fl)"
  let ?v = "worker_review_pipeline E H R render (getenv (ho_environ H)) (worker_agent fl)"
  let ?f = "if rn_trigger row = ''upgrade'' then Pipeline_loaded ?c i
    else if rn_trigger row = ''webhook_pull_request'' then ReviewPipeline_loaded E ?v i else IssuePipeline_loaded ?c i"
  have "logs ?P (?f run)" if "lr_grant run = rn_grant row" for run
  proof -
    have "rn_trigger row = ''upgrade'' \<Longrightarrow> logs ?P (Pipeline_loaded ?c i run)"
      by (rule logs_mono [OF worker_change.logs_Pipeline]) (use that assms(3) in \<open>auto simp: run_event_def\<close>)
    moreover have "rn_trigger row = ''webhook_pull_request'' \<Longrightarrow> logs ?P (ReviewPipeline_loaded E ?v i run)"
      by (rule logs_mono [OF worker_review.logs_Review]) (use that assms(3) in \<open>auto simp: run_event_def\<close>)
    moreover have "rn_trigger row \<noteq> ''upgrade'' \<Longrightarrow> rn_trigger row \<noteq> ''webhook_pull_request'' \<Longrightarrow> logs ?P (IssuePipeline_loaded ?c i run)"
      by (rule logs_mono [OF worker_change.logs_Issue]) (use that assms(3) in \<open>auto simp: run_event_def\<close>)
    ultimately show ?thesis by simp
  qed
  moreover have "ebind (ewrap PLoad (RunByID E i)) ?f w = (a, z)"
    using assms(1) by (simp add: run_pipeline_def Pipeline_Run_def IssuePipeline_Run_def ReviewPipeline_Run_def split: if_splits)
  ultimately show ?thesis using assms(2) by (blast intro: load_adds logsD)
qed

lemma handle_logs:
  assumes "handle E H R render fl i w = (r, v)" "find_run i (w_db w) = Some row"
  shows "adds (run_event E (getenv (ho_environ H)) row) w v"
proof (rule load_adds [OF assms(2)])
  show "ebind (ewrap (\<lambda>e. e) (RunByID E i)) (\<lambda>run.
     if lr_trigger run \<notin> set handled_triggers then failRun E i
     else ebind (etry (run_pipeline E H R render (getenv (ho_environ H)) (worker_agent fl) (lr_trigger run) i)) (\<lambda>r.
       case r of Inl _ \<Rightarrow> failRun E i | Inr _ \<Rightarrow> eret ())) w = (r, v)"
    using assms(1) by (simp only: handle_eq ewrap_id)
next
  fix run u b y
  let ?P = "run_event E (getenv (ho_environ H)) row"
  assume run: "lr_trigger run = rn_trigger row" "w_db u = w_db w"
    and y: "(if lr_trigger run \<notin> set handled_triggers then failRun E i
     else ebind (etry (run_pipeline E H R render (getenv (ho_environ H)) (worker_agent fl) (lr_trigger run) i)) (\<lambda>r.
       case r of Inl _ \<Rightarrow> failRun E i | Inr _ \<Rightarrow> eret ())) u = (b, y)"
  show "adds ?P u y"
  proof (cases "lr_trigger run \<in> set handled_triggers")
    case False
    then show ?thesis using y logsD [OF RunByID_logs(2)] by simp
  next
    case True
    obtain a z where z: "run_pipeline E H R render (getenv (ho_environ H)) (worker_agent fl) (lr_trigger run) i u = (a, z)" by fastforce
    then have "(case a of Inl _ \<Rightarrow> failRun E i | Inr _ \<Rightarrow> eret ()) z = (b, y)"
      using True y by (simp add: ebind_def etry_def)
    then have "adds ?P z y" using logsD [OF RunByID_logs(2)] by (cases a) auto
    moreover have "adds ?P u z" by (rule run_pipeline_adds) (use z run assms(2) True in simp_all)
    ultimately show ?thesis using adds_trans by blast
  qed
qed

section \<open>Properties\<close>

lemma Validate_decodes: "Validate env g now = Inr p \<Longrightarrow> decodeAndSanitise env g = Inr p"
  by (simp add: Validate_iff)

lemma not_publishes_at: "\<not> publishes e \<Longrightarrow> event_at cred n B Q e \<Longrightarrow> event_at cred n (\<lambda>_. False) (\<lambda>c. \<not> creates_pr c) e"
  by (cases e) auto

lemma review_writes:
  assumes "worker_writes E lookup (review_envelope j r) g wt e"
  shows "comment_event lookup g e"
proof -
  have kinds: "KindPostReview \<noteq> KindOpenPR" by (simp add: kind_consts)
  have "\<not> publishes e"
  proof
    assume "publishes e"
    then obtain now v where "Validate (review_envelope j r) g now = Inr (POpenPR v)" using assms by (auto simp: worker_writes_def)
    from Validate_decodes [OF this] show False
      by (cases rule: decode_cases) (auto simp: review_envelope_def kind_consts elim: decode_post_reviewE)
  qed
  then show ?thesis
    using assms not_publishes_at
    by (auto simp: worker_writes_def exec_event_def comment_event_def exec_tier_def review_envelope_def)
qed


text \<open>The draft flag that is validated is the one that is in the payload.\<close>

lemma dec_members_lax: "dec_members True fld ms x = Some y \<Longrightarrow> dec_members False fld ms x = Some y"
  by (induction ms arbitrary: x) (auto split: option.splits)

lemma dec_struct_lax: "dec_struct True fld v x = Some y \<Longrightarrow> dec_struct False fld v x = Some y"
  by (auto simp: dec_struct_def dec_members_lax split: json.splits)

lemma validated_draft:
  assumes "Validate env g now = Inr (POpenPR v)" "unmarshal_open_pr (env_payload env) = Some p"
  shows "op_draft v = op_draft p"
proof -
  have "decode_open_pr (env_payload env) g = Inr (POpenPR v)"
    using Validate_decodes [OF assms(1)]
    by (cases rule: decode_cases) (auto elim: decode_update_prE decode_post_reviewE decode_post_commentE decode_set_labelsE)
  then obtain q where q: "decode_payload open_pr_field zero_open_pr (env_payload env) = Inr q" "op_draft v = op_draft q"
    by (auto simp: decode_open_pr_def)
  from q(1) obtain val rest where "decode_first (to_runes (env_payload env)) = Some (val, rest)" "dec_struct True open_pr_field val zero_open_pr = Some q"
    by (auto simp: decode_payload_def split: option.splits)
  then have "p = q"
    using assms(2) dec_struct_lax [of open_pr_field val zero_open_pr q]
    by (auto simp: unmarshal_open_pr_def unmarshal_def parse_json_def split: if_splits option.splits)
  then show ?thesis using q(2) by simp
qed

lemma unmarshal_draft: "\<exists>q. unmarshal_open_pr (marshal (enc_open_pr p)) = Some q \<and> op_draft q = op_draft p"
proof -
  have "printable max_nesting_depth (enc_open_pr p)" by (auto simp: enc_open_pr_def asc_valid max_nesting_depth_def)
  moreover have "dec_string (jstr s) x = Some (of_runes (to_runes s))" for s x by (simp add: dec_string_def jstr_def)
  ultimately show ?thesis
    by (simp add: unmarshal_open_pr_def unmarshal_marshal enc_open_pr_def dec_struct_def open_pr_fields into_def zero_open_pr_def)
qed

lemma draft_writes:
  assumes "worker_writes E lookup env g wt (GhEvent t (PullsCreate ow nm title br bs body draft))"
    and "unmarshal_open_pr (env_payload env) = Some p"
  shows "draft = op_draft p \<and> ow = repo_owner (g_repo g) \<and> nm = repo_name (g_repo g)"
proof -
  obtain now v where "Validate env g now = Inr (POpenPR v)" "opens_as v (GhEvent t (PullsCreate ow nm title br bs body draft))"
    using assms(1) by (auto simp: worker_writes_def)
  then have "draft = op_draft p" using validated_draft [OF _ assms(2)] by (auto simp: opens_as_def)
  then show ?thesis using assms(1) by (auto simp: worker_writes_def exec_event_def)
qed

lemma comment_intent_publishes_nothing:
  "worker_writes E lookup env g wt e \<Longrightarrow> env_kind env = KindPostComment \<Longrightarrow> \<not> publishes e"
proof
  assume "worker_writes E lookup env g wt e" "env_kind env = KindPostComment" "publishes e"
  then obtain now v where "Validate env g now = Inr (POpenPR v)" "env_kind env = KindPostComment" by (auto simp: worker_writes_def)
  from Validate_decodes [OF this(1)] this(2) show False
    by (cases rule: decode_cases) (auto simp: kind_consts elim: decode_post_commentE)
qed

lemma run_event_draft:
  assumes "run_event E lk row (GhEvent t (PullsCreate ow nm title br bs body draft))"
  shows "draft \<and> ow = repo_owner (g_repo (rn_grant row)) \<and> nm = repo_name (g_repo (rn_grant row))"
proof -
  let ?e = "GhEvent t (PullsCreate ow nm title br bs body draft)"
  have "\<not> comment_event lk (rn_grant row) ?e" by (auto simp: comment_event_def)
  then have "(\<exists>env wt j. security_intent result_ok j env \<and> worker_writes E lk env (rn_grant row) wt ?e) \<or>
      (\<exists>env wt. issue_intent env \<and> worker_writes E lk env (rn_grant row) wt ?e)"
    using assms review_writes by (auto simp: run_event_def split: if_splits)
  then obtain env wt p where w: "worker_writes E lk env (rn_grant row) wt ?e" "unmarshal_open_pr (env_payload env) = Some p" "op_draft p"
  proof (elim disjE exE conjE)
    fix env wt j
    assume s: "security_intent result_ok j env" and w: "worker_writes E lk env (rn_grant row) wt ?e"
    then obtain input q where "change_envelope_of input env" "env_payload env = marshal (enc_open_pr q)" "op_draft q"
      by (fastforce simp: security_intent_def result_ok_def change_envelope_of_def split: if_splits)
    then show ?thesis using that w unmarshal_draft [of q] by auto
  next
    fix env wt
    assume "issue_intent env" "worker_writes E lk env (rn_grant row) wt ?e"
    then show ?thesis using that comment_intent_publishes_nothing by (fastforce simp: issue_intent_def)
  qed
  from draft_writes [OF w(1,2)] w(3) show ?thesis by simp
qed

fun draft_only :: "repo \<Rightarrow> event \<Rightarrow> bool" where
  "draft_only r (GhEvent t (PullsCreate ow nm title br bs body draft)) \<longleftrightarrow> draft \<and> ow = repo_owner r \<and> nm = repo_name r"
| "draft_only r e \<longleftrightarrow> True"

text \<open>
  Every pull request that a job opens is a draft in the repository of its grant, whichever run the job is
  for and whatever the agent does.
\<close>

theorem every_pull_request_is_a_draft:
  assumes "handle E H R render fl runID w = (r, v)" "find_run runID (w_db w) = Some row"
  shows "set (w_log v) \<subseteq> set (w_log w) \<union> {e. draft_only (g_repo (rn_grant row)) e}"
proof
  fix e assume "e \<in> set (w_log v)"
  then consider "e \<in> set (w_log w)" | "run_event E (getenv (ho_environ H)) row e"
    using adds_in [OF handle_logs [OF assms]] by blast
  then show "e \<in> set (w_log w) \<union> {e. draft_only (g_repo (rn_grant row)) e}"
  proof cases
    case 2
    then have "draft_only (g_repo (rn_grant row)) e"
      by (cases "(g_repo (rn_grant row), e)" rule: draft_only.cases) (auto dest!: run_event_draft)
    then show ?thesis by simp
  qed simp
qed

section \<open>Witnesses\<close>

definition manual_review_grant :: grant where
  "manual_review_grant = example_review_grant\<lparr>g_manual := True\<rparr>"

definition review_run :: ledger_run where
  "review_run = example_run\<lparr>lr_trigger := ''webhook_pull_request'', lr_grant := manual_review_grant\<rparr>"

definition review_db :: db where
  "review_db = snd (stmt_insert_run review_run 0 empty_db)"

definition comment_host :: host where
  "comment_host = review_host\<lparr>ho_environ := [''GITHUB_COMMENT_TOKEN=c''], ho_temp := (\<lambda>_ _. None)\<rparr>"

lemma review_db_find: "\<exists>row. find_run ''r1'' review_db = Some row \<and> rn_trigger row = ''webhook_pull_request'' \<and> rn_grant row = manual_review_grant"
  by (simp add: review_db_def review_run_def example_run_def empty_db_def stmt_insert_run_def find_run_def int4_def)

text \<open>A manual review that is acknowledged and whose checkout then fails.\<close>

lemmas eff_run = ebind_def ewrap_def etry_def eignore_def eret_def efail_def elift_def

lemma run_by_id_at: "find_run i (w_db w) = Some row \<Longrightarrow>
  \<exists>run. RunByID still_outside i w = (Inr run, tick w) \<and> lr_trigger run = rn_trigger row \<and> lr_grant run = rn_grant row"
  by (simp add: RunByID_def still_stmt stmt_run_by_id_def)

lemma comment_token: "Resolve (getenv [''GITHUB_COMMENT_TOKEN=c'']) a TokenIssuesWrite = Inr ''c''"
  by (simp add: Resolve_def tiered_def getenv_def has_prefix_def string_consts)

lemma acknowledges:
  assumes "sc_kind (g_scope g) = ScopePullRequest" "sc_number (g_scope g) = 7"
  shows "\<exists>x. AcknowledgeReview (NewExecutor still_outside (getenv [''GITHUB_COMMENT_TOKEN=c''])) g w = (Inr (), x) \<and>
    GhEvent ''c'' (CreateComment (repo_owner (g_repo g)) (repo_name (g_repo g)) 7 reviewQueuedBody) \<in> set (w_log x)"
  unfolding AcknowledgeReview_def NewExecutor_simps pg_ledger_simps assms Let_def
  by (simp add: comment_token eff_run writer_AcknowledgeReview_def NewGitHubWriter_def findOwnedReviewComment_def
      gh_ok_def gh_def still_fields create_comment_def UpsertReviewComment_def exec_stmt_def stmt_upsert_review_def int4_def)

lemma review_is_acknowledged:
  assumes row: "find_run i (w_db w) = Some row" "rn_trigger row = ''webhook_pull_request''" "rn_grant row = g"
    and g: "review_scope_ok (g_scope g)" "sc_number (g_scope g) = 7" "0 \<le> g_expires g" "g_manual g"
  shows "GhEvent ''c'' (CreateComment (repo_owner (g_repo g)) (repo_name (g_repo g)) 7 reviewQueuedBody) \<in>
     set (w_log (snd (handle still_outside comment_host R render fl i w)))" (is "?e \<in> _")
proof -
  let ?p = "worker_review_pipeline still_outside comment_host R render (getenv (ho_environ comment_host)) (worker_agent fl)"
  obtain run where run: "RunByID still_outside i w = (Inr run, tick w)" "lr_trigger run = ''webhook_pull_request''"
    using run_by_id_at [OF row(1)] row(2) by auto
  have "find_run i (w_db (tick w)) = Some row" using row(1) by simp
  then obtain run2 where run2: "RunByID still_outside i (tick w) = (Inr run2, tick (tick w))" "lr_grant run2 = g"
    using run_by_id_at [of i "tick w" row] row(3) by auto
  obtain z where z: "SetRunStatus still_outside i RunRunning (tick (tick w)) = (Inr (), z)"
    by (simp add: SetRunStatus_def still_stmt stmt_set_status_def)
  obtain x where x: "AcknowledgeReview (NewExecutor still_outside (getenv [''GITHUB_COMMENT_TOKEN=c''])) g (tick z) = (Inr (), x)"
    "?e \<in> set (w_log x)"
    using acknowledges [of g "tick z"] g(1,2) by (auto simp: review_scope_ok_def)
  have env: "ho_environ comment_host = [''GITHUB_COMMENT_TOKEN=c'']" "ho_temp comment_host t d = None" for t d
    by (simp_all add: comment_host_def)
  have box: "newReviewSandboxer still_outside comment_host a b c d x = (Inl TempDirError, tick x)" for a b c d
    by (simp add: newReviewSandboxer_def newReviewSandboxerWithURL_def observe_def env eff_run)
  have "ReviewPipeline_loaded still_outside ?p i run2 (tick (tick w)) = pipe_fail ?p i (PSandbox TempDirError) (tick x)"
    using z x(1) g(1,3,4)
    by (simp add: ReviewPipeline_loaded_def Let_def run2(2) worker_review_pipeline_def pg_store_def eff_run clock_def still_fields
      acknowledge_def or_fail_def box env(1))
  moreover have "w_log (snd (pipe_fail ?p i er (tick x))) = w_log x" for er
    by (simp add: pipe_fail_def eff_run worker_review_pipeline_def pg_store_def SetRunStatus_def SetRunFailure_def still_stmt)
  moreover have "w_log (snd (failRun still_outside i y)) = w_log y" for y
    by (simp add: failRun_def eff_run SetRunStatus_def still_stmt)
  ultimately show ?thesis
    using x(2) run run2
    by (simp add: handle_eq ebind_def [of "RunByID _ _"] handled_triggers_def run_pipeline_def ReviewPipeline_Run_def
      worker_review.store_simps eff_run pipe_fail_def)
qed

lemma review_handled:
  "GhEvent ''c'' (CreateComment ''acme'' ''widget'' 7 reviewQueuedBody) \<in>
     set (w_log (snd (handle still_outside comment_host R render fl ''r1'' (start_world review_db))))"
proof -
  obtain row where row: "find_run ''r1'' (w_db (start_world review_db)) = Some row" "rn_trigger row = ''webhook_pull_request''"
    "rn_grant row = manual_review_grant"
    using review_db_find by (auto simp: start_world_def)
  have "review_scope_ok (g_scope manual_review_grant)" "sc_number (g_scope manual_review_grant) = 7" "0 \<le> g_expires manual_review_grant"
    "g_manual manual_review_grant" "repo_owner (g_repo manual_review_grant) = ''acme''" "repo_name (g_repo manual_review_grant) = ''widget''"
    by (simp_all add: manual_review_grant_def example_review_grant_def base_grant_def example_trigger_def hour_def review_scope_ok_def
      trim_space_ascii ascii_def is_space_def)
  then show ?thesis using review_is_acknowledged [OF row(1,2), of manual_review_grant R render fl] row(3) by simp
qed


lemma every_pull_request_is_a_draft_witness:
  "\<forall>R render fl. list_all (draft_only (g_repo manual_review_grant)) (w_log (snd (handle still_outside comment_host R render fl ''r1'' (start_world review_db))))"
proof (intro allI)
  fix R render fl
  obtain row where row: "find_run ''r1'' (w_db (start_world review_db)) = Some row" "rn_grant row = manual_review_grant"
    using review_db_find by (auto simp: start_world_def)
  obtain r v where h: "handle still_outside comment_host R render fl ''r1'' (start_world review_db) = (r, v)" by fastforce
  have "w_log (start_world review_db) = []" by (simp add: start_world_def)
  then show "list_all (draft_only (g_repo manual_review_grant)) (w_log (snd (handle still_outside comment_host R render fl ''r1'' (start_world review_db))))"
    using every_pull_request_is_a_draft [OF h row(1)] h row(2) by (auto simp: list_all_iff)
qed

lemma job_leaves_other_runs_witness:
  "\<forall>R render fl. \<exists>w other. find_run ''r1'' (w_db w) \<noteq> None \<and> find_run ''r2'' (w_db w) = Some other \<and>
     find_run ''r2'' (w_db (snd (handle still_outside comment_host R render fl ''r1'' w))) = Some other"
proof (intro allI)
  fix R render fl
  obtain row where row: "find_run ''r1'' review_db = Some row" using review_db_find by blast
  let ?other = "row\<lparr>rn_id := ''r2''\<rparr>"
  let ?w = "start_world (review_db\<lparr>db_runs := ?other # db_runs review_db\<rparr>)"
  have w: "find_run ''r1'' (w_db ?w) = Some row" "find_run ''r2'' (w_db ?w) = Some ?other"
    using row by (simp_all add: start_world_def find_run_def)
  obtain r v where h: "handle still_outside comment_host R render fl ''r1'' ?w = (r, v)" by fastforce
  have "find_run ''r2'' (w_db v) = find_run ''r2'' (w_db ?w)"
    using spec [OF conjunct1 [OF job_leaves_other_runs [OF h]], of "''r2''"] by simp
  then show "\<exists>w other. find_run ''r1'' (w_db w) \<noteq> None \<and> find_run ''r2'' (w_db w) = Some other \<and>
     find_run ''r2'' (w_db (snd (handle still_outside comment_host R render fl ''r1'' w))) = Some other"
    using w h by - (rule exI [of _ ?w], rule exI [of _ ?other], simp)
qed

lemma handled_run_ends_witness:
  "\<forall>R render fl. \<exists>v. handle still_outside comment_host R render fl ''r1'' (start_world review_db) = (Inr (), v) \<and> ended ''r1'' v"
proof (intro allI)
  fix R render fl
  have "\<forall>t. o_db still_outside t = Healthy" "find_run ''r1'' (w_db (start_world review_db)) \<noteq> None"
    using review_db_find by (auto simp: still_fields start_world_def)
  then show "\<exists>v. handle still_outside comment_host R render fl ''r1'' (start_world review_db) = (Inr (), v) \<and> ended ''r1'' v"
    by (rule handled_run_ends)
qed

end
