(* ===== verification/Dispatch.thy ===== *)
theory Dispatch
  imports Scanjob
begin

text \<open>
  The dispatcher (\<open>internal/dispatch/dispatch.go\<close>) and the queue's insert (\<open>internal/queue\<close>): a webhook event
  becomes a trigger, the trigger a grant or a denial, and either is recorded. The events are go-github's
  structures as far as the dispatcher reads them; a pointer field that may be nil is an option.
\<close>

section \<open>Events\<close>

record gh_user =
  us_login :: "string option"
  us_type :: "string option"

record gh_repository =
  gr_owner :: "gh_user option"
  gr_name :: "string option"
  gr_default_branch :: "string option"

record gh_branch =
  br_ref :: "string option"
  br_sha :: "string option"

record gh_pull =
  gp_base :: "gh_branch option"
  gp_head :: "gh_branch option"
  gp_number :: "int option"

record gh_issue =
  gi_number :: "int option"
  gi_title :: "string option"
  gi_body :: "string option"
  gi_pull_links :: bool

text \<open>A label and a comment are known by their one field that is read.\<close>

record pull_request_event =
  pe_action :: "string option"
  pe_repo :: "gh_repository option"
  pe_label :: "string option option"
  pe_pull :: "gh_pull option"
  pe_sender :: "gh_user option"
  pe_number :: "int option"

record issue_comment_event =
  ic_action :: "string option"
  ic_repo :: "gh_repository option"
  ic_issue :: "gh_issue option"
  ic_comment :: "string option option"
  ic_sender :: "gh_user option"

record issues_event =
  ie_action :: "string option"
  ie_repo :: "gh_repository option"
  ie_issue :: "gh_issue option"
  ie_label :: "string option option"
  ie_sender :: "gh_user option"

datatype webhook =
    PullRequestEvent pull_request_event
  | IssueCommentEvent issue_comment_event
  | IssuesEvent issues_event
  | OtherEvent

text \<open>The getters of go-github: the zero value for nil.\<close>

definition get_str :: "string option \<Rightarrow> string" where
  "get_str x = (case x of None \<Rightarrow> [] | Some s \<Rightarrow> s)"

definition get_int :: "int option \<Rightarrow> int" where
  "get_int x = (case x of None \<Rightarrow> 0 | Some n \<Rightarrow> n)"

definition get_login :: "gh_user option \<Rightarrow> string" where
  "get_login u = (case u of None \<Rightarrow> [] | Some x \<Rightarrow> get_str (us_login x))"

definition eventSender :: "gh_user option \<Rightarrow> string" where
  "eventSender u = (if u = None then [] else get_login u)"

text \<open>\<open>e.Repo == nil || e.Repo.Owner == nil || e.Repo.Name == nil\<close>\<close>

definition repo_named :: "gh_repository option \<Rightarrow> bool" where
  "repo_named r = (case r of None \<Rightarrow> False | Some x \<Rightarrow> gr_owner x \<noteq> None \<and> gr_name x \<noteq> None)"

definition repo_at :: "gh_repository option \<Rightarrow> string \<times> string" where
  "repo_at r = (case r of None \<Rightarrow> ([], []) | Some x \<Rightarrow> (get_login (gr_owner x), get_str (gr_name x)))"

definition default_branch_of :: "gh_repository option \<Rightarrow> string" where
  "default_branch_of r = (case r of None \<Rightarrow> [] | Some x \<Rightarrow> get_str (gr_default_branch x))"

definition branch_ref :: "gh_branch option \<Rightarrow> string" where
  "branch_ref b = (case b of None \<Rightarrow> [] | Some x \<Rightarrow> get_str (br_ref x))"

definition branch_sha :: "gh_branch option \<Rightarrow> string" where
  "branch_sha b = (case b of None \<Rightarrow> [] | Some x \<Rightarrow> get_str (br_sha x))"

section \<open>The dispatcher\<close>

datatype dispatch_error =
    LoaderMissing
  | LoadPullRequest
  | LoadRules db_error
  | DenialNotRecorded db_error
  | RunNotQueued tx_error

text \<open>Nil for the authorizer and the loader is none. \<open>dp_random\<close> is the source of the eight bytes of \<open>newRunID\<close>.\<close>

record dispatcher =
  dp_rules :: "string \<Rightarrow> string \<Rightarrow> (world, db_error, rules) eff"
  dp_authorize :: "(string \<Rightarrow> string \<Rightarrow> string \<Rightarrow> (world, unit, bool) eff) option"
  dp_load_pr :: "(string \<Rightarrow> string \<Rightarrow> int \<Rightarrow> (world, unit, string \<times> string) eff) option"
  dp_random :: "nat \<Rightarrow> nat list"

definition newRunID :: "(nat \<Rightarrow> nat list) \<Rightarrow> (world, 'e, string) eff" where
  "newRunID rnd = observe (\<lambda>t. hex_encode (rnd t))"

definition actorCanWrite :: "dispatcher \<Rightarrow> string \<Rightarrow> string \<Rightarrow> string \<Rightarrow> (world, dispatch_error, bool) eff" where
  "actorCanWrite d owner name actor =
     (case dp_authorize d of
        None \<Rightarrow> eret False
      | Some authorize \<Rightarrow> ebind (etry (authorize owner name actor)) (\<lambda>r. case r of Inl _ \<Rightarrow> eret False | Inr allowed \<Rightarrow> eret allowed))"

definition reviewMention :: rx where
  "reviewMention = Seq BeginText (Seq (seqs [Rep rx_space 0 None, ilit ''@bothos'', Rep rx_space 1 None, ilit ''review'', Rep rx_space 0 None]) EndText)"

definition mentions_review :: "string \<Rightarrow> bool" where
  "mentions_review body = list_ex (match_string reviewMention) (lines body)"

definition no_trigger :: trigger where
  "no_trigger = \<lparr>t_kind = TriggerScheduled, t_repo = [], t_account = [], t_owner = [], t_name = [], t_number = 0, t_base_ref = [],
     t_base_sha = [], t_head_sha = [], t_default_branch = [], t_actor = [], t_actor_write = False, t_manual = False,
     t_review_label = False, t_labels = [], t_title = [], t_body = []\<rparr>"

definition pull_request_trigger :: "dispatcher \<Rightarrow> pull_request_event \<Rightarrow> (world, dispatch_error, trigger option) eff" where
  "pull_request_trigger d e =
     (if \<not> repo_named (pe_repo e) \<or> pe_pull e = None then eret None
      else
        let action = get_str (pe_action e); manual = (action = ''labeled'') in
        if action \<notin> set [''opened'', ''synchronize'', ''reopened'', ''labeled''] then eret None
        else if manual \<and> (pe_label e = None \<or> get_str (the (pe_label e)) \<noteq> ''bothos/review'') then eret None
        else
          let (owner, name) = repo_at (pe_repo e); actor = eventSender (pe_sender e); pull = the (pe_pull e) in
          ebind (if manual then actorCanWrite d owner name actor else eret False) (\<lambda>canWrite.
          eret (Some (no_trigger\<lparr>t_kind := TriggerPullRequest, t_owner := owner, t_name := name,
            t_number := (if get_int (pe_number e) = 0 then get_int (gp_number pull) else get_int (pe_number e)),
            t_base_ref := branch_ref (gp_base pull), t_base_sha := branch_sha (gp_base pull), t_head_sha := branch_sha (gp_head pull),
            t_actor := actor, t_actor_write := canWrite, t_manual := manual, t_review_label := manual\<rparr>))))"

definition comment_trigger :: "dispatcher \<Rightarrow> issue_comment_event \<Rightarrow> (world, dispatch_error, trigger option) eff" where
  "comment_trigger d e =
     (if get_str (ic_action e) \<noteq> ''created'' \<or> \<not> repo_named (ic_repo e) \<or> ic_issue e = None \<or> ic_comment e = None \<or>
         \<not> gi_pull_links (the (ic_issue e)) \<or> ic_sender e = None \<or> equal_fold (get_str (us_type (the (ic_sender e)))) ''Bot''
      then eret None
      else if \<not> mentions_review (get_str (the (ic_comment e))) then eret None
      else
        let (owner, name) = repo_at (ic_repo e); actor = eventSender (ic_sender e) in
        ebind (actorCanWrite d owner name actor) (\<lambda>canWrite.
        let t = no_trigger\<lparr>t_kind := TriggerPullRequest, t_owner := owner, t_name := name,
              t_number := get_int (gi_number (the (ic_issue e))), t_actor := actor, t_actor_write := canWrite, t_manual := True\<rparr> in
        if \<not> canWrite then eret (Some t)
        else case dp_load_pr d of
            None \<Rightarrow> efail LoaderMissing
          | Some load \<Rightarrow>
              ebind (ewrap (\<lambda>_. LoadPullRequest) (load owner name (t_number t))) (\<lambda>(b, h).
              eret (Some (t\<lparr>t_base_sha := b, t_head_sha := h\<rparr>)))))"

definition issue_trigger :: "dispatcher \<Rightarrow> issues_event \<Rightarrow> (world, dispatch_error, trigger option) eff" where
  "issue_trigger d e =
     (if \<not> repo_named (ie_repo e) \<or> ie_issue e = None \<or> ie_label e = None then eret None
      else if get_str (ie_action e) \<noteq> ''labeled'' then eret None
      else
        let (owner, name) = repo_at (ie_repo e); actor = eventSender (ie_sender e); issue = the (ie_issue e) in
        ebind (actorCanWrite d owner name actor) (\<lambda>canWrite.
        eret (Some (no_trigger\<lparr>t_kind := TriggerIssueLabeled, t_owner := owner, t_name := name, t_number := get_int (gi_number issue),
          t_default_branch := default_branch_of (ie_repo e), t_actor := actor, t_actor_write := canWrite,
          t_labels := [get_str (the (ie_label e))], t_title := get_str (gi_title issue), t_body := get_str (gi_body issue)\<rparr>))))"

definition triggerFromEvent :: "dispatcher \<Rightarrow> webhook \<Rightarrow> (world, dispatch_error, trigger option) eff" where
  "triggerFromEvent d event =
     (case event of
        PullRequestEvent e \<Rightarrow> pull_request_trigger d e
      | IssueCommentEvent e \<Rightarrow> comment_trigger d e
      | IssuesEvent e \<Rightarrow> issue_trigger d e
      | OtherEvent \<Rightarrow> eret None)"

definition enc_issue_task :: "issue_task \<Rightarrow> json" where
  "enc_issue_task t = JObj [(asc ''issue_number'', jint (it_number t)), (asc ''title'', jstr (it_title t)),
     (asc ''body'', jstr (it_body t)), (asc ''repo_url'', jstr (it_url t)), (asc ''base_ref'', jstr (it_base_ref t))]"

definition issue_task_of :: "trigger \<Rightarrow> issue_task" where
  "issue_task_of t = \<lparr>it_number = t_number t, it_title = t_title t, it_body = t_body t,
     it_url = ''https://github.com/'' @ t_owner t @ ''/'' @ t_name t @ ''.git'', it_base_ref = t_default_branch t\<rparr>"

definition issueTaskMeta :: "trigger \<Rightarrow> json option" where
  "issueTaskMeta t = (if t_kind t \<noteq> TriggerIssueLabeled then None else Some (enc_issue_task (issue_task_of t)))"

definition denied_run :: "string \<Rightarrow> trigger \<Rightarrow> policy_error \<Rightarrow> ledger_run" where
  "denied_run runID t e =
     \<lparr>lr_id = runID, lr_repo = t_owner t @ ''/'' @ t_name t, lr_trigger = trigger_string (t_kind t),
      lr_scope_kind = sc_kind (g_scope zero_grant), lr_scope_number = sc_number (g_scope zero_grant), lr_grant = zero_grant,
      lr_decision = ''deny'', lr_deny_reason = Some e, lr_status = RunDenied, lr_meta = issueTaskMeta t\<rparr>"

definition allowed_run :: "string \<Rightarrow> trigger \<Rightarrow> grant \<Rightarrow> ledger_run" where
  "allowed_run runID t g =
     \<lparr>lr_id = runID, lr_repo = t_owner t @ ''/'' @ t_name t, lr_trigger = trigger_string (t_kind t),
      lr_scope_kind = sc_kind (g_scope g), lr_scope_number = sc_number (g_scope g), lr_grant = g,
      lr_decision = ''allow'', lr_deny_reason = None, lr_status = RunQueued, lr_meta = issueTaskMeta t\<rparr>"

definition dispatch_trigger :: "outside \<Rightarrow> dispatcher \<Rightarrow> trigger \<Rightarrow> (world, dispatch_error, unit) eff" where
  "dispatch_trigger E d t =
     ebind (ewrap LoadRules (dp_rules d (t_owner t) (t_name t))) (\<lambda>rules.
     ebind (newRunID (dp_random d)) (\<lambda>runID.
     ebind (clock E) (\<lambda>now.
     case Decide t rules runID now of
       Inl e \<Rightarrow> ewrap DenialNotRecorded (InsertRun E (denied_run runID t e))
     | Inr g \<Rightarrow> ewrap RunNotQueued (in_tx E [stmt_insert_run (allowed_run runID t g), stmt_enqueue runID]))))"

definition HandleEvent :: "outside \<Rightarrow> dispatcher \<Rightarrow> webhook \<Rightarrow> (world, dispatch_error, unit) eff" where
  "HandleEvent E d event =
     ebind (triggerFromEvent d event) (\<lambda>handled.
     case handled of None \<Rightarrow> eret () | Some t \<Rightarrow> dispatch_trigger E d t)"

section \<open>What a trigger says of its event\<close>

fun event_actor :: "webhook \<Rightarrow> string" where
  "event_actor (PullRequestEvent e) = eventSender (pe_sender e)"
| "event_actor (IssueCommentEvent e) = eventSender (ic_sender e)"
| "event_actor (IssuesEvent e) = eventSender (ie_sender e)"
| "event_actor OtherEvent = []"

fun event_repo :: "webhook \<Rightarrow> string \<times> string" where
  "event_repo (PullRequestEvent e) = repo_at (pe_repo e)"
| "event_repo (IssueCommentEvent e) = repo_at (ic_repo e)"
| "event_repo (IssuesEvent e) = repo_at (ie_repo e)"
| "event_repo OtherEvent = ([], [])"

text \<open>An event nobody asked for: a pull request that was opened, reopened or pushed to.\<close>

fun automatic :: "webhook \<Rightarrow> bool" where
  "automatic (PullRequestEvent e) \<longleftrightarrow> get_str (pe_action e) \<in> {''opened'', ''synchronize'', ''reopened''}"
| "automatic _ \<longleftrightarrow> False"

text \<open>\<open>writer d ow nm a\<close>: at some time the authorizer said that the actor may write.\<close>

definition writer :: "dispatcher \<Rightarrow> string \<Rightarrow> string \<Rightarrow> string \<Rightarrow> bool" where
  "writer d ow nm a \<longleftrightarrow> (\<exists>f u u'. dp_authorize d = Some f \<and> f ow nm a u = (Inr True, u'))"

definition trigger_of :: "dispatcher \<Rightarrow> webhook \<Rightarrow> trigger \<Rightarrow> bool" where
  "trigger_of d ev t \<longleftrightarrow> (t_owner t, t_name t) = event_repo ev \<and> t_actor t = event_actor ev \<and> t_account t = [] \<and>
     (t_actor_write t \<longrightarrow> writer d (t_owner t) (t_name t) (t_actor t)) \<and>
     t_kind t \<in> {TriggerPullRequest, TriggerIssueLabeled} \<and>
     (t_kind t = TriggerPullRequest \<longrightarrow> t_manual t = (\<not> automatic ev)) \<and> (t_kind t = TriggerIssueLabeled \<longrightarrow> \<not> automatic ev)"

lemma actorCanWrite_writer: "actorCanWrite d ow nm a w = (Inr True, v) \<Longrightarrow> writer d ow nm a"
  by (auto simp: actorCanWrite_def writer_def ebind_def etry_def eret_def split: option.splits sum.splits prod.splits; blast)

lemma trigger_consts_distinct: "TriggerPullRequest \<noteq> TriggerIssueLabeled" "TriggerScheduled \<noteq> TriggerPullRequest" "TriggerScheduled \<noteq> TriggerIssueLabeled"
    "TriggerIssueLabeled \<noteq> TriggerPullRequest"
  by (simp_all add: trigger_consts)

lemma eret_iff: "eret x w = (r, v) \<longleftrightarrow> r = Inr x \<and> v = w"
  by (auto simp: eret_def)

lemma pull_request_trigger_of:
  assumes "pull_request_trigger d e w = (Inr (Some t), v)"
  shows "trigger_of d (PullRequestEvent e) t"
  using assms unfolding pull_request_trigger_def Let_def
  by (auto simp: eff_iffs eret_iff trigger_of_def no_trigger_def trigger_consts_distinct split: if_splits prod.splits dest: actorCanWrite_writer)

lemma comment_trigger_of:
  assumes "comment_trigger d e w = (Inr (Some t), v)"
  shows "trigger_of d (IssueCommentEvent e) t"
  using assms unfolding comment_trigger_def Let_def
  by (auto simp: eff_iffs eret_iff efail_def trigger_of_def no_trigger_def trigger_consts_distinct
      split: if_splits prod.splits option.splits dest: actorCanWrite_writer)

lemma issue_trigger_of:
  assumes "issue_trigger d e w = (Inr (Some t), v)"
  shows "trigger_of d (IssuesEvent e) t"
  using assms unfolding issue_trigger_def Let_def
  by (auto simp: eff_iffs eret_iff trigger_of_def no_trigger_def trigger_consts_distinct split: if_splits prod.splits dest: actorCanWrite_writer)

lemma triggerFromEvent_of: "triggerFromEvent d ev w = (Inr (Some t), v) \<Longrightarrow> trigger_of d ev t"
  by (auto simp: triggerFromEvent_def eret_iff dest: pull_request_trigger_of comment_trigger_of issue_trigger_of split: webhook.splits)

section \<open>Interface: the dispatcher's seams\<close>

text \<open>What the dispatcher relies on: loading the rules, asking for a permission and loading a pull request only read.\<close>

locale dispatcher_seams =
  fixes d :: dispatcher
  assumes rules_quiet: "db_still (dp_rules d ow nm)" "logs P (dp_rules d ow nm)"
    and authorize_quiet: "dp_authorize d = Some f \<Longrightarrow> db_still (f ow nm a) \<and> logs P (f ow nm a)"
    and load_quiet: "dp_load_pr d = Some g \<Longrightarrow> db_still (g ow nm n) \<and> logs P (g ow nm n)"
begin

lemma can_write_quiet: "db_still (actorCanWrite d ow nm a)" "logs P (actorCanWrite d ow nm a)"
  unfolding actorCanWrite_def using authorize_quiet
  by (cases "dp_authorize d"; auto intro!: trace_intros)+

lemma trigger_quiet: "db_still (triggerFromEvent d ev)" "logs P (triggerFromEvent d ev)"
proof -
  have load: "db_still (ewrap h (f ow nm n))" "logs P (ewrap h (f ow nm n))" if "dp_load_pr d = Some f" for f ow nm n P and h :: "unit \<Rightarrow> dispatch_error"
    using load_quiet [OF that] by (auto intro!: trace_intros)
  have "db_still (pull_request_trigger d e)" "logs P (pull_request_trigger d e)" for e P
    unfolding pull_request_trigger_def Let_def by (intro trace_intros can_write_quiet)+
  moreover have "db_still (issue_trigger d e)" "logs P (issue_trigger d e)" for e P
    unfolding issue_trigger_def Let_def by (intro trace_intros can_write_quiet)+
  moreover have "db_still (comment_trigger d e)" "logs P (comment_trigger d e)" for e P
    unfolding comment_trigger_def Let_def
    by ((cases "dp_load_pr d"; simp only: option.case), (intro trace_intros can_write_quiet load; assumption)+)+
  ultimately show "db_still (triggerFromEvent d ev)" "logs P (triggerFromEvent d ev)"
    unfolding triggerFromEvent_def by (cases ev; auto intro!: trace_intros)+
qed

end

text \<open>What an event may do to the tables.\<close>

inductive recorded :: "dispatcher \<Rightarrow> webhook \<Rightarrow> db \<Rightarrow> db \<Rightarrow> bool" for d ev s where
  ignored: "recorded d ev s s"
| denied: "trigger_of d ev t \<Longrightarrow> dp_rules d (t_owner t) (t_name t) u = (Inr rs, u') \<Longrightarrow> Decide t rs i now = Inl e \<Longrightarrow>
    stmt_insert_run (denied_run i t e) tx s = (Inr (), s') \<Longrightarrow> recorded d ev s s'"
| queued: "trigger_of d ev t \<Longrightarrow> dp_rules d (t_owner t) (t_name t) u = (Inr rs, u') \<Longrightarrow> Decide t rs i now = Inr g \<Longrightarrow>
    stmt_insert_run (allowed_run i t g) tx s = (Inr (), s1) \<Longrightarrow> recorded d ev s (s1\<lparr>db_jobs := db_jobs s1 @ [i]\<rparr>)"

lemma insert_run_cases: "stmt_insert_run r t d = (Inr (), snd (stmt_insert_run r t d)) \<or> snd (stmt_insert_run r t d) = d"
  by (simp add: stmt_insert_run_def)

context dispatcher_seams
begin

lemma dispatch_recorded:
  assumes "dispatch_trigger E d t w = (r, v)" "trigger_of d ev t"
  shows "recorded d ev (w_db w) (w_db v) \<and> w_log v = w_log w"
proof -
  obtain q x where x: "dp_rules d (t_owner t) (t_name t) w = (q, x)" by fastforce
  have still: "w_db x = w_db w" "w_log x = w_log w"
    using db_stillD [OF rules_quiet(1) x] logsD [OF rules_quiet(2) x, of "\<lambda>_. False"] by (simp_all add: adds_none)
  show ?thesis
  proof (cases q)
    case (Inl e)
    then show ?thesis using assms(1) x still by (auto simp: dispatch_trigger_def ebind_def ewrap_def intro: recorded.ignored)
  next
    case (Inr rs)
    let ?i = "hex_encode (dp_random d (w_tick x))" and ?x = "tick (tick x)"
    let ?now = "o_clock E (w_tick (tick x))"
    note rules = x [unfolded Inr]
    note rest = assms(1) [unfolded dispatch_trigger_def newRunID_def] x Inr
    show ?thesis
    proof (cases "Decide t rs ?i ?now")
      case (Inl e)
      then have ins: "ewrap DenialNotRecorded (InsertRun E (denied_run ?i t e)) ?x = (r, v)"
        using rest by (simp add: ebind_def ewrap_def observe_def clock_def)
      then obtain q' where "InsertRun E (denied_run ?i t e) ?x = (q', v)"
        by (cases "InsertRun E (denied_run ?i t e) ?x") (auto simp: ewrap_def split: sum.splits)
      then have v: "exec_stmt E (stmt_insert_run (denied_run ?i t e)) ?x = (q', v)" by (simp add: InsertRun_def)
      have "w_db v = w_db ?x \<or> w_db v = snd (stmt_insert_run (denied_run ?i t e) (o_clock E (w_tick ?x)) (w_db ?x))"
        using exec_stmt_db [OF v] .
      then have "w_db v = w_db w \<or> stmt_insert_run (denied_run ?i t e) (o_clock E (w_tick ?x)) (w_db w) = (Inr (), w_db v)"
        using insert_run_cases [of "denied_run ?i t e" "o_clock E (w_tick ?x)" "w_db w"] still by auto
      then show ?thesis
        using exec_stmt_log [OF v] still recorded.denied [OF assms(2) rules Inl] recorded.ignored by auto
    next
      case (Inr g)
      then have "ewrap RunNotQueued (in_tx E [stmt_insert_run (allowed_run ?i t g), stmt_enqueue ?i]) ?x = (r, v)"
        using rest by (simp add: ebind_def ewrap_def observe_def clock_def)
      then obtain q' where v: "in_tx E [stmt_insert_run (allowed_run ?i t g), stmt_enqueue ?i] ?x = (q', v)"
        by (cases "in_tx E [stmt_insert_run (allowed_run ?i t g), stmt_enqueue ?i] ?x") (auto simp: ewrap_def split: sum.splits)
      then show ?thesis
      proof (cases rule: in_tx_all_or_nothing)
        case 1
        then show ?thesis using still by (simp add: recorded.ignored)
      next
        case (2 tx)
        from 2(3) have "\<exists>y. fst (stmt_insert_run (allowed_run ?i t g) tx (w_db w)) = Inr y"
          using still by (auto dest: spec [of _ 0])
        then obtain s1 where s1: "stmt_insert_run (allowed_run ?i t g) tx (w_db w) = (Inr (), s1)"
          by (cases "stmt_insert_run (allowed_run ?i t g) tx (w_db w)") auto
        then have "w_db v = s1\<lparr>db_jobs := db_jobs s1 @ [?i]\<rparr>" using 2(2) still by (simp add: stmt_enqueue_def)
        then show ?thesis using recorded.queued [OF assms(2) rules Inr s1] 2(1) still by simp
      qed
    qed
  qed
qed

lemma HandleEvent_recorded:
  assumes "HandleEvent E d ev w = (r, v)"
  shows "recorded d ev (w_db w) (w_db v) \<and> w_log v = w_log w"
proof -
  obtain q x where x: "triggerFromEvent d ev w = (q, x)" by fastforce
  have still: "w_db x = w_db w" "w_log x = w_log w"
    using db_stillD [OF trigger_quiet(1) x] logsD [OF trigger_quiet(2) x, of "\<lambda>_. False"] by (simp_all add: adds_none)
  consider "v = x" | t where "q = Inr (Some t)" "dispatch_trigger E d t x = (r, v)"
    using assms x by (auto simp: HandleEvent_def ebind_def eret_def split: sum.splits option.splits)
  then show ?thesis
  proof cases
    case 2
    then show ?thesis using dispatch_recorded [OF 2(2) triggerFromEvent_of [OF x [unfolded 2(1)]]] still by simp
  qed (simp add: still recorded.ignored)
qed

end

section \<open>The comment that asks for a review\<close>

lemma find_here_full: 
  assumes "plain_rx r"
  shows "find_here (Seq BeginText (Seq r EndText)) pv rs \<noteq> None \<longleftrightarrow> pv = None \<and> rs \<in> words r"
proof -
  have "find_here (Seq BeginText (Seq r EndText)) pv rs \<noteq> None \<longleftrightarrow> pv = None \<and> (\<exists>pv'. reach r pv rs [] pv' [])"
    unfolding find_here_None_iff reach_def by (cases pv) (auto simp: Bex_def)
  then show ?thesis by (simp add: reach_words [OF assms])
qed

lemma match_string_full:
  assumes "plain_rx r"
  shows "match_string (Seq BeginText (Seq r EndText)) s \<longleftrightarrow> to_runes s \<in> words r"
proof -
  have "match_string (Seq BeginText (Seq r EndText)) s \<longleftrightarrow>
      (\<exists>a b. to_runes s = a @ b \<and> after None a = None \<and> b \<in> words r)"
    unfolding match_string_def match_from_iff find_here_full [OF assms] ..
  also have "\<dots> \<longleftrightarrow> to_runes s \<in> words r" by (auto simp: after_def)
  finally show ?thesis .
qed

text \<open>
  A comment asks for a review exactly when one of its lines is nothing but the mention and the word
  review, in any case, apart from white space around them and at least one white space between.
\<close>

theorem mentions_review_iff:
  "mentions_review body \<longleftrightarrow> (\<exists>l \<in> set (lines body). \<exists>a m b n c. to_runes l = a @ m @ b @ n @ c \<and>
     list_all rx_space (a @ b @ c) \<and> b \<noteq> [] \<and>
     map fold_rune m = map fold_rune (asc ''@bothos'') \<and> map fold_rune n = map fold_rune (asc ''review''))"
proof -
  let ?r = "seqs [Rep rx_space 0 None, ilit ''@bothos'', Rep rx_space 1 None, ilit ''review'', Rep rx_space 0 None]"
  have "match_string reviewMention l \<longleftrightarrow> to_runes l \<in> words ?r" for l
    unfolding reviewMention_def by (rule match_string_full) simp
  moreover have "w \<in> words ?r \<longleftrightarrow> (\<exists>a m b n c. w = a @ m @ b @ n @ c \<and> list_all rx_space (a @ b @ c) \<and> b \<noteq> [] \<and>
     map fold_rune m = map fold_rune (asc ''@bothos'') \<and> map fold_rune n = map fold_rune (asc ''review''))" for w
    by (simp add: words_ilit Suc_le_eq) blast
  ultimately show ?thesis by (simp add: mentions_review_def list_ex_iff)
qed


section \<open>The task of an issue\<close>

lemma issue_task_fields:
  "issue_task_field (asc ''issue_number'') = Some (into it_number (\<lambda>f. it_number_update (\<lambda>_. f)) dec_int)"
  "issue_task_field (asc ''title'') = Some (into it_title (\<lambda>f. it_title_update (\<lambda>_. f)) dec_string)"
  "issue_task_field (asc ''body'') = Some (into it_body (\<lambda>f. it_body_update (\<lambda>_. f)) dec_string)"
  "issue_task_field (asc ''repo_url'') = Some (into it_url (\<lambda>f. it_url_update (\<lambda>_. f)) dec_string)"
  "issue_task_field (asc ''base_ref'') = Some (into it_base_ref (\<lambda>f. it_base_ref_update (\<lambda>_. f)) dec_string)"
  by (simp_all add: issue_task_field_def field_names)

lemma dec_issue_task:
  assumes "int_ok (it_number t)" "valid_utf8 (it_title t)" "valid_utf8 (it_body t)" "valid_utf8 (it_url t)" "valid_utf8 (it_base_ref t)"
  shows "dec_struct False issue_task_field (enc_issue_task t) zero_issue_task = Some t"
  using assms by (simp add: enc_issue_task_def dec_struct_def issue_task_fields into_def zero_issue_task_def)

lemma inserted_found:
  assumes "stmt_insert_run r tx s = (Inr (), s')"
  shows "\<exists>row. find_run (lr_id r) s' = Some row \<and> rn_grant row = lr_grant r \<and> rn_trigger row = lr_trigger r \<and>
    rn_decision row = lr_decision r \<and> rn_status row = lr_status r \<and> rn_meta row = (case lr_meta r of None \<Rightarrow> JObj [] | Some m \<Rightarrow> m)"
proof -
  have new: "find_run (lr_id r) s = None" using assms by (simp add: stmt_insert_run_def split: if_splits)
  have app: "List.find P (xs @ [y]) = (case List.find P xs of None \<Rightarrow> if P y then Some y else None | Some z \<Rightarrow> Some z)" for P :: "run_row \<Rightarrow> bool" and xs y
    by (induction xs) auto
  show ?thesis using assms new by (auto simp: stmt_insert_run_def find_run_def app split: if_splits)
qed


definition labelled_trigger :: trigger where
  "labelled_trigger = no_trigger\<lparr>t_kind := TriggerIssueLabeled, t_owner := ''acme'', t_name := ''widget'', t_number := 12,
     t_default_branch := ''main'', t_actor := ''ann'', t_actor_write := True, t_labels := [''bothos/fix''], t_title := ''broken''\<rparr>"

lemma labelled_granted: "\<exists>g. Decide labelled_trigger example_rules ''r1'' 0 = Inr g \<and> sc_number (g_scope g) = 12"
  by (simp add: Decide_def labelled_trigger_def no_trigger_def example_rules_def trigger_consts check_def has_def containsStr_def Let_def)


end
