(* ===== verification/Gateway.thy ===== *)
theory Gateway
  imports Dispatch
begin

text \<open>
  The gateway (\<open>cmd/gateway/main.go\<close>): what it asks GitHub under the read token, the webhook handler and the
  request log. The signature check and the parser of payloads are go-github's, hence parameters; the answers of
  GitHub are functions of the number of outside interactions. Its \<open>main\<close> is in \<open>Process\<close>.
\<close>

section \<open>What it asks GitHub\<close>

record gateway =
  ga_token :: string
  ga_permission :: "nat \<Rightarrow> string \<Rightarrow> string \<Rightarrow> string \<Rightarrow> string option"          \<comment> \<open>owner, name, actor: none for an error\<close>
  ga_pull :: "nat \<Rightarrow> string \<Rightarrow> string \<Rightarrow> int \<Rightarrow> (string \<times> string) option"   \<comment> \<open>the base's and the head's SHA\<close>
  ga_random :: "nat \<Rightarrow> nat list"

definition newActorAuthorizer :: "gateway \<Rightarrow> bool \<Rightarrow> string \<Rightarrow> string \<Rightarrow> string \<Rightarrow> (world, unit, bool) eff" where
  "newActorAuthorizer G tokenConfigured owner name actor =
     (if \<not> tokenConfigured then eret False
      else ebind (observe (\<lambda>t. ga_permission G t owner name actor)) (\<lambda>permission.
        case permission of
          None \<Rightarrow> efail ()
        | Some p \<Rightarrow> eret (to_lower p \<in> set [''admin'', ''maintain'', ''write''])))"

definition newPullRequestLoader :: "gateway \<Rightarrow> string \<Rightarrow> string \<Rightarrow> int \<Rightarrow> (world, unit, string \<times> string) eff" where
  "newPullRequestLoader G owner name number =
     ebind (observe (\<lambda>t. ga_pull G t owner name number)) (\<lambda>pull.
     case pull of
       None \<Rightarrow> efail ()
     | Some (baseSHA, headSHA) \<Rightarrow> if baseSHA = [] \<or> headSHA = [] then efail () else eret (baseSHA, headSHA))"

definition gateway_dispatcher :: "outside \<Rightarrow> gateway \<Rightarrow> dispatcher" where
  "gateway_dispatcher E G =
     \<lparr>dp_rules = RulesForRepo E, dp_authorize = Some (newActorAuthorizer G (ga_token G \<noteq> [])),
      dp_load_pr = Some (newPullRequestLoader G), dp_random = ga_random G\<rparr>"

section \<open>Responses\<close>

text \<open>A handler's calls on its \<open>http.ResponseWriter\<close>, and what the client gets: the first status wins, a body without one means 200.\<close>

datatype response_call = WriteHeader int | WriteBody string

record response =
  rs_status :: "int option"
  rs_body :: string

fun respond :: "response_call \<Rightarrow> response \<Rightarrow> response" where
  "respond (WriteHeader code) r = (if rs_status r = None then r\<lparr>rs_status := Some code\<rparr> else r)"
| "respond (WriteBody b) r = r\<lparr>rs_status := Some (case rs_status r of None \<Rightarrow> 200 | Some c \<Rightarrow> c), rs_body := rs_body r @ b\<rparr>"

definition client_status :: "response \<Rightarrow> int" where
  "client_status r = (case rs_status r of None \<Rightarrow> 200 | Some c \<Rightarrow> c)"

record recorder =
  sr_status :: int
  sr_writer :: response

fun recorder_call :: "response_call \<Rightarrow> recorder \<Rightarrow> recorder" where
  "recorder_call (WriteHeader code) s =
     (let s1 = (if sr_status s = 0 then s\<lparr>sr_status := code\<rparr> else s) in s1\<lparr>sr_writer := respond (WriteHeader code) (sr_writer s1)\<rparr>)"
| "recorder_call (WriteBody b) s =
     (let s1 = (if sr_status s = 0 then s\<lparr>sr_status := 200\<rparr> else s) in s1\<lparr>sr_writer := respond (WriteBody b) (sr_writer s1)\<rparr>)"

text \<open>The status in the log line, and the response.\<close>

definition requestLogger :: "response_call list \<Rightarrow> int \<times> response" where
  "requestLogger calls =
     (let s = foldl (\<lambda>s c. recorder_call c s) \<lparr>sr_status = 0, sr_writer = \<lparr>rs_status = None, rs_body = []\<rparr>\<rparr> calls in
      (if sr_status s = 0 then 200 else sr_status s, sr_writer s))"

definition http_Error :: "string \<Rightarrow> int \<Rightarrow> response_call list" where
  "http_Error msg code = [WriteHeader code, WriteBody (msg @ newline)]"

section \<open>The webhook handler\<close>

text \<open>\<open>validate\<close> and \<open>parse\<close> are \<open>github.ValidatePayload\<close> and \<open>github.ParseWebHook\<close>, \<open>kind\<close> is \<open>github.WebHookType\<close>.\<close>

definition webhookHandler ::
  "outside \<Rightarrow> ('q \<Rightarrow> string \<Rightarrow> string option) \<Rightarrow> ('q \<Rightarrow> string) \<Rightarrow> (string \<Rightarrow> string \<Rightarrow> webhook option) \<Rightarrow>
    string \<Rightarrow> dispatcher \<Rightarrow> 'q \<Rightarrow> world \<Rightarrow> response_call list \<times> world" where
  "webhookHandler E validate kind parse secret d q w =
     (case validate q secret of
        None \<Rightarrow> (http_Error ''invalid signature'' 401, w)
      | Some payload \<Rightarrow>
          (case parse (kind q) payload of
             None \<Rightarrow> (http_Error ''bad payload'' 400, w)
           | Some event \<Rightarrow>
               (case HandleEvent E d event w of
                  (Inl _, v) \<Rightarrow> (http_Error ''internal error'' 500, v)
                | (Inr _, v) \<Rightarrow> ([WriteHeader 200, WriteBody ''ok''], v))))"

text \<open>A request to \<open>/webhook\<close> as the server of \<open>main\<close> runs it: the logged status, the response and the world after it.\<close>

definition serve_webhook ::
  "outside \<Rightarrow> gateway \<Rightarrow> ('q \<Rightarrow> string \<Rightarrow> string option) \<Rightarrow> ('q \<Rightarrow> string) \<Rightarrow> (string \<Rightarrow> string \<Rightarrow> webhook option) \<Rightarrow>
    string \<Rightarrow> 'q \<Rightarrow> world \<Rightarrow> (int \<times> response) \<times> world" where
  "serve_webhook E G validate kind parse secret q w =
     (let (calls, v) = webhookHandler E validate kind parse secret (gateway_dispatcher E G) q w in (requestLogger calls, v))"

section \<open>The request log tells the truth\<close>

fun sound_call :: "response_call \<Rightarrow> bool" where
  "sound_call (WriteHeader code) \<longleftrightarrow> 200 \<le> code"
| "sound_call (WriteBody b) \<longleftrightarrow> True"

definition recorder_ok :: "recorder \<Rightarrow> bool" where
  "recorder_ok s \<longleftrightarrow> (if sr_status s = 0 then rs_status (sr_writer s) = None else rs_status (sr_writer s) = Some (sr_status s))"

lemma recorder_call_ok: "recorder_ok s \<Longrightarrow> sound_call c \<Longrightarrow> recorder_ok (recorder_call c s)"
  by (cases c) (auto simp: recorder_ok_def Let_def split: if_splits)

lemma recorder_calls_ok: "recorder_ok s \<Longrightarrow> list_all sound_call cs \<Longrightarrow> recorder_ok (foldl (\<lambda>s c. recorder_call c s) s cs)"
  by (induction cs arbitrary: s) (simp_all add: recorder_call_ok)

lemma logged_status: "list_all sound_call cs \<Longrightarrow> requestLogger cs = (st, r) \<Longrightarrow> st = client_status r"
  using recorder_calls_ok [of "\<lparr>sr_status = 0, sr_writer = \<lparr>rs_status = None, rs_body = []\<rparr>\<rparr>" cs]
  by (auto simp: requestLogger_def Let_def recorder_ok_def client_status_def split: if_splits)

section \<open>The gateway's seams\<close>

interpretation gateway: dispatcher_seams "gateway_dispatcher E G" for E G
proof unfold_locales
  fix ow nm P
  show "db_still (dp_rules (gateway_dispatcher E G) ow nm)" "logs P (dp_rules (gateway_dispatcher E G) ow nm)"
    unfolding gateway_dispatcher_def by (auto simp: RulesForRepo_def reads_only_def stmt_rules_def intro!: trace_intros split: option.splits)
next
  fix f ow nm a P
  show "dp_authorize (gateway_dispatcher E G) = Some f \<Longrightarrow> db_still (f ow nm a) \<and> logs P (f ow nm a)"
    unfolding gateway_dispatcher_def by (auto simp: newActorAuthorizer_def intro!: trace_intros)
next
  fix g ow nm n P
  show "dp_load_pr (gateway_dispatcher E G) = Some g \<Longrightarrow> db_still (g ow nm n) \<and> logs P (g ow nm n)"
    unfolding gateway_dispatcher_def by (auto simp: newPullRequestLoader_def intro!: trace_intros)
qed

lemma insert_run_jobs: "stmt_insert_run r tx s = (Inr (), s') \<Longrightarrow> db_jobs s' = db_jobs s"
  by (auto simp: stmt_insert_run_def split: if_splits)

lemma authorizer_asks:
  assumes "writer (gateway_dispatcher E G) ow nm a"
  shows "ga_token G \<noteq> [] \<and> (\<exists>t p. ga_permission G t ow nm a = Some p \<and> to_lower p \<in> {''admin'', ''maintain'', ''write''})"
  using assms unfolding writer_def
  by (auto simp: gateway_dispatcher_def newActorAuthorizer_def eff_iffs eret_iff observe_eq efail_def split: if_splits option.splits)

section \<open>Properties\<close>

text \<open>
  The answer tells what happened. A request without a valid signature, or whose payload cannot be parsed,
  changes nothing and gets 401 or 400; any other is recorded as its event demands and gets 200 exactly when the
  dispatcher did not fail, else 500. No request makes a call to GitHub's writing side, and the log shows the
  status the client gets.
\<close>

theorem webhook_answered:
  "(case serve_webhook E G validate kind parse secret q w of ((logged, r), v) \<Rightarrow>
     logged = client_status r \<and> w_log v = w_log w \<and>
     (case validate q secret of
        None \<Rightarrow> client_status r = 401 \<and> v = w
      | Some payload \<Rightarrow>
          (case parse (kind q) payload of
             None \<Rightarrow> client_status r = 400 \<and> v = w
           | Some ev \<Rightarrow> recorded (gateway_dispatcher E G) ev (w_db w) (w_db v) \<and>
               client_status r = (if HandleEvent E (gateway_dispatcher E G) ev w = (Inr (), v) then 200 else 500))))"
  using gateway.HandleEvent_recorded
  by (auto simp: serve_webhook_def webhookHandler_def Let_def requestLogger_def http_Error_def client_status_def
    split: option.splits prod.splits sum.splits)

text \<open>
  C6: A run is queued only for someone who may ask for it: the repository's rules enable the bot, and the event
  is a change of a pull request where reviews are automatic, or GitHub said, asked under a configured token,
  that the event's sender may write to the repository.
\<close>

theorem only_writers_start_runs:
  assumes "HandleEvent E (gateway_dispatcher E G) ev w = (r, v)" "db_jobs (w_db v) \<noteq> db_jobs (w_db w)"
  shows "\<exists>rs u u'. RulesForRepo E (fst (event_repo ev)) (snd (event_repo ev)) u = (Inr rs, u') \<and> r_enabled rs \<and>
    (if automatic ev then r_auto_review rs
     else ga_token G \<noteq> [] \<and> (\<exists>t p. ga_permission G t (fst (event_repo ev)) (snd (event_repo ev)) (event_actor ev) = Some p \<and>
       to_lower p \<in> {''admin'', ''maintain'', ''write''}))"
proof -
  have "recorded (gateway_dispatcher E G) ev (w_db w) (w_db v)" using gateway.HandleEvent_recorded [OF assms(1)] by simp
  then show ?thesis
  proof cases
    case (denied t u rs u' i now e tx)
    then show ?thesis using assms(2) by (auto dest: insert_run_jobs)
  next
    case (queued t u rs u' i now g tx s1)
    have rules: "RulesForRepo E (fst (event_repo ev)) (snd (event_repo ev)) u = (Inr rs, u')"
      using queued by (auto simp: trigger_of_def gateway_dispatcher_def dest: sym)
    have asks: "t_actor_write t \<Longrightarrow> ga_token G \<noteq> [] \<and> (\<exists>tk p. ga_permission G tk (fst (event_repo ev)) (snd (event_repo ev)) (event_actor ev) = Some p \<and>
       to_lower p \<in> {''admin'', ''maintain'', ''write''})"
      using queued(2) authorizer_asks [of E G "t_owner t" "t_name t" "t_actor t"] by (auto simp: trigger_of_def dest: sym)
    from queued(4) show ?thesis
    proof (cases rule: Decide_cases)
      case Scheduled
      then show ?thesis using queued(2) trigger_consts_distinct by (simp add: trigger_of_def)
    next
      case PullRequest
      then show ?thesis using rules asks queued(2) by (auto simp: trigger_of_def)
    next
      case IssueLabeled
      then show ?thesis using rules asks queued(2) by (auto simp: trigger_of_def)
    qed
  qed (use assms(2) in simp)
qed

lemma insert_run_row:
  assumes "stmt_insert_run r tx s = (Inr (), s')"
  shows "\<exists>row. s' = s\<lparr>db_runs := db_runs s @ [row]\<rparr> \<and> rn_id row = lr_id r \<and> rn_decision row = lr_decision r \<and>
    rn_status row = lr_status r \<and> rn_grant row = lr_grant r \<and> find_run (lr_id r) s = None"
  using assms by (auto simp: stmt_insert_run_def split: if_splits intro!: exI)

text \<open>
  C19: A run and its job come together: an event adds to the tables either nothing, or one denied run and no job,
  or one queued run whose grant the policy gave and the job of that run; nothing else in the tables changes,
  whatever fails on the way.
\<close>

theorem webhook_run_and_job:
  assumes "HandleEvent E (gateway_dispatcher E G) ev w = (r, v)"
  shows "\<exists>rows jobs. w_db v = (w_db w)\<lparr>db_runs := db_runs (w_db w) @ rows, db_jobs := db_jobs (w_db w) @ jobs\<rparr> \<and>
    (rows = [] \<and> jobs = [] \<or>
     (\<exists>row. rows = [row] \<and> rn_decision row = ''deny'' \<and> rn_status row = RunDenied \<and> jobs = []) \<or>
     (\<exists>row t rs now. rows = [row] \<and> rn_decision row = ''allow'' \<and> rn_status row = RunQueued \<and> jobs = [rn_id row] \<and>
        find_run (rn_id row) (w_db w) = None \<and> Decide t rs (rn_id row) now = Inr (rn_grant row)))"
proof -
  have "recorded (gateway_dispatcher E G) ev (w_db w) (w_db v)" using gateway.HandleEvent_recorded [OF assms] by simp
  then show ?thesis
  proof cases
    case ignored
    then have "w_db v = (w_db w)\<lparr>db_runs := db_runs (w_db w) @ [], db_jobs := db_jobs (w_db w) @ []\<rparr>" by simp
    then show ?thesis by blast
  next
    case (denied t u rs u' i now e tx)
    then have "\<exists>row. w_db v = (w_db w)\<lparr>db_runs := db_runs (w_db w) @ [row], db_jobs := db_jobs (w_db w) @ []\<rparr> \<and>
      rn_decision row = ''deny'' \<and> rn_status row = RunDenied"
      using insert_run_row [OF denied(4)] by (auto simp: denied_run_def)
    then show ?thesis by blast
  next
    case (queued t u rs u' i now g tx s1)
    then obtain row where "w_db v = (w_db w)\<lparr>db_runs := db_runs (w_db w) @ [row], db_jobs := db_jobs (w_db w) @ [rn_id row]\<rparr>"
      "rn_decision row = ''allow''" "rn_status row = RunQueued" "rn_id row = i" "rn_grant row = g" "find_run i (w_db w) = None"
      using insert_run_row [OF queued(5)] by (auto simp: allowed_run_def)
    then show ?thesis using queued(4) by metis
  qed
qed

section \<open>Witnesses\<close>

definition labelled_event :: webhook where
  "labelled_event = IssuesEvent \<lparr>ie_action = Some ''labeled'',
     ie_repo = Some \<lparr>gr_owner = Some \<lparr>us_login = Some ''acme'', us_type = None\<rparr>, gr_name = Some ''widget'', gr_default_branch = Some ''main''\<rparr>,
     ie_issue = Some \<lparr>gi_number = Some 12, gi_title = Some ''broken'', gi_body = None, gi_pull_links = False\<rparr>,
     ie_label = Some (Some ''bothos/fix''), ie_sender = Some \<lparr>us_login = Some ''ann'', us_type = None\<rparr>\<rparr>"

definition example_gateway :: gateway where
  "example_gateway = \<lparr>ga_token = ''t'', ga_permission = (\<lambda>_ _ _ _. Some ''write''), ga_pull = (\<lambda>_ _ _ _. Some (''b'', ''h'')), ga_random = (\<lambda>_. [1])\<rparr>"

definition configured_db :: db where
  "configured_db = empty_db\<lparr>db_config := [\<lparr>cf_owner = ''acme'', cf_name = ''widget'', cf_rules = example_rules\<rparr>]\<rparr>"

lemma to_lower_write: "to_lower ''write'' = ''write''"
proof -
  have "map lower_rune (asc ''write'') = asc ''write''" by (simp add: asc_def lower_rune_def is_upper_def)
  then show ?thesis by (simp add: to_lower_def to_runes_ascii ascii_def of_runes_asc)
qed

lemma permission_asked: "newActorAuthorizer example_gateway True ow nm a w = (Inr True, tick w)"
  by (simp add: newActorAuthorizer_def example_gateway_def ebind_def observe_def eret_def to_lower_write)

lemma labelled_handled_at:
  assumes "w_db w = configured_db"
  shows "\<exists>v row. HandleEvent still_outside (gateway_dispatcher still_outside example_gateway) labelled_event w = (Inr (), v) \<and>
    db_jobs (w_db v) = [''01''] \<and> db_runs (w_db v) = [row] \<and> rn_decision row = ''allow''"
proof -
  let ?d = "gateway_dispatcher still_outside example_gateway"
  have fields: "dp_authorize ?d = Some (newActorAuthorizer example_gateway True)" "dp_rules ?d = RulesForRepo still_outside" "dp_random ?d t = [1]" for t
    by (simp_all add: gateway_dispatcher_def example_gateway_def)
  have trig: "triggerFromEvent ?d labelled_event w = (Inr (Some labelled_trigger), tick w)"
    by (simp add: triggerFromEvent_def labelled_event_def issue_trigger_def repo_named_def repo_at_def get_login_def get_str_def get_int_def
      default_branch_of_def eventSender_def actorCanWrite_def fields permission_asked ebind_def etry_def eret_def labelled_trigger_def no_trigger_def Let_def)
  have rules: "RulesForRepo still_outside ''acme'' ''widget'' (tick w) = (Inr example_rules, tick (tick w))"
    using assms by (simp add: RulesForRepo_def still_stmt stmt_rules_def configured_db_def empty_db_def tick_def)
  obtain g where g: "Decide labelled_trigger example_rules ''01'' 0 = Inr g" "sc_number (g_scope g) = 12"
    by (auto simp: Decide_def labelled_trigger_def no_trigger_def example_rules_def trigger_consts check_def has_def containsStr_def Let_def)
  have hex: "hex_encode [Suc 0] = ''01''" by (simp add: hex_encode_def hex_char_def char_of_def bit_0 bit_Suc)
  have own: "t_owner labelled_trigger = ''acme''" "t_name labelled_trigger = ''widget''"
    by (simp_all add: labelled_trigger_def no_trigger_def)
  have "\<exists>v row. in_tx still_outside [stmt_insert_run (allowed_run ''01'' labelled_trigger g), stmt_enqueue ''01''] (tick (tick (tick (tick w)))) = (Inr (), v) \<and>
    db_jobs (w_db v) = [''01''] \<and> db_runs (w_db v) = [row] \<and> rn_decision row = ''allow''"
    using assms by (simp add: in_tx_def tx_commit_def still_fields ebind_def stmt_insert_run_def allowed_run_def g(2) int4_def find_run_def
      stmt_enqueue_def configured_db_def empty_db_def)
  then show ?thesis
    by (auto simp: HandleEvent_def dispatch_trigger_def ebind_def ewrap_def trig fields own rules newRunID_def observe_def clock_def
      still_fields hex g(1) )
qed

lemma labelled_handled:
  "\<exists>v row. HandleEvent still_outside (gateway_dispatcher still_outside example_gateway) labelled_event (start_world configured_db) = (Inr (), v) \<and>
    db_jobs (w_db v) = [''01''] \<and> db_runs (w_db v) = [row] \<and> rn_decision row = ''allow''"
  by (rule labelled_handled_at) (simp add: start_world_def)

lemma only_writers_start_runs_witness:
  "\<exists>v :: world. db_jobs (w_db v) = [''01''] \<and> (\<exists>u rs u'. RulesForRepo still_outside ''acme'' ''widget'' u = (Inr rs, u') \<and> r_enabled rs) \<and>
    (\<exists>t p. ga_permission example_gateway t ''acme'' ''widget'' ''ann'' = Some p)"
proof -
  obtain v where v: "HandleEvent still_outside (gateway_dispatcher still_outside example_gateway) labelled_event (start_world configured_db) = (Inr (), v)"
    "db_jobs (w_db v) = [''01'']" using labelled_handled by blast
  have "db_jobs (w_db (start_world configured_db)) = []" by (simp add: start_world_def configured_db_def empty_db_def)
  moreover have "\<not> automatic labelled_event" "event_repo labelled_event = (''acme'', ''widget'')" "event_actor labelled_event = ''ann''"
    by (simp_all add: labelled_event_def repo_at_def get_login_def get_str_def eventSender_def)
  ultimately show ?thesis using only_writers_start_runs [OF v(1)] v(2) by - (rule exI [of _ v], auto)
qed

lemma webhook_run_and_job_witness:
  "\<exists>(v :: world) rows. db_runs (w_db v) = db_runs configured_db @ rows \<and> db_jobs (w_db v) = [''01''] \<and>
    (\<exists>row t rs now. rows = [row] \<and> rn_id row = ''01'' \<and> Decide t rs ''01'' now = Inr (rn_grant row))"
proof -
  obtain v where v: "HandleEvent still_outside (gateway_dispatcher still_outside example_gateway) labelled_event (start_world configured_db) = (Inr (), v)"
    "db_jobs (w_db v) = [''01'']" using labelled_handled by blast
  have w: "w_db (start_world configured_db) = configured_db" "db_jobs configured_db = []"
    by (simp_all add: start_world_def configured_db_def empty_db_def)
  show ?thesis
    using webhook_run_and_job [OF v(1)] v(2) unfolding w by (elim exE conjE disjE) (simp_all, rule exI [of _ v], auto)
qed

end
