(* ===== verification/System.thy ===== *)
theory System
  imports Worker Gateway
begin

text \<open>
  The processes together: the gateway handles events, the commands scan and schedule, the worker takes jobs, an
  operator changes the rules, all over one database and one log of calls. A step is one event, one command or one
  job from its start to its end, or an interaction with the outside that changes neither tables nor log, in any order; a
  job stays in the queue's table, so it may be taken again.
\<close>

section \<open>Steps\<close>

record system =
  sy_out :: outside
  sy_gateway :: gateway
  sy_host :: host
  sy_review :: "nat \<Rightarrow> review_env"
  sy_render :: "pipe_error \<Rightarrow> string"
  sy_flags :: worker_flags

inductive system_step :: "system \<Rightarrow> world \<Rightarrow> world \<Rightarrow> bool" for S w where
  webhook: "HandleEvent (sy_out S) (gateway_dispatcher (sy_out S) (sy_gateway S)) ev w = (r1, v) \<Longrightarrow> system_step S w v"
| scan: "scan_command (sy_out S) (sy_host S) drawn repo w = (r2, v) \<Longrightarrow> system_step S w v"
| upgrade: "upgrade_command (sy_out S) (sy_host S) drawn dsn repo base enabled w = (r3, v) \<Longrightarrow> system_step S w v"
| job: "i \<in> set (db_jobs (w_db w)) \<Longrightarrow>
    handle (sy_out S) (sy_host S) (sy_review S) (sy_render S) (sy_flags S) i w = (r4, v) \<Longrightarrow> system_step S w v"
| configure: "system_step S w (w\<lparr>w_db := (w_db w)\<lparr>db_config := cs\<rparr>\<rparr>)"
| idle: "system_step S w (tick w)"

inductive reachable :: "system \<Rightarrow> world \<Rightarrow> bool" for S where
  start: "reachable S \<lparr>w_tick = n, w_db = empty_db, w_log = []\<rparr>"
| step: "reachable S w \<Longrightarrow> system_step S w v \<Longrightarrow> reachable S v"

section \<open>How the tables grow\<close>

type_synonym core = "string \<times> string \<times> string \<times> grant \<times> string"

text \<open>Where the grant of an allowed run comes from: the policy, the scheduler, or, for a scan, nowhere.\<close>

fun issued :: "core \<Rightarrow> bool" where
  "issued (i, repo, trig, g, dec) \<longleftrightarrow> dec = ''allow'' \<longrightarrow>
     (\<exists>t rs now. Decide t rs i now = Inr g \<and> trig = trigger_string (t_kind t) \<and> repo = t_owner t @ ''/'' @ t_name t) \<or>
     (\<exists>ow nm base now. g = GrantForUpgrade i \<lparr>repo_owner = ow, repo_name = nm, repo_account = ow\<rparr> base now \<and>
        trig = ''upgrade'' \<and> repo = ow @ ''/'' @ nm) \<or>
     (g = zero_grant \<and> trig = ''scheduled'')"

declare issued.simps [simp del]

inductive grows :: "db \<Rightarrow> db \<Rightarrow> bool" for d d' where
  same: "inserted d' = inserted d \<Longrightarrow> grows d d'"
| run: "inserted d' = (fst (inserted d) @ [c], snd (inserted d)) \<Longrightarrow> issued c \<Longrightarrow> grows d d'"
| queued_run: "inserted d' = (fst (inserted d) @ [(i, rp, trig, g, ''allow'')], snd (inserted d) @ [i]) \<Longrightarrow>
    find_run i d = None \<Longrightarrow> issued (i, rp, trig, g, ''allow'') \<Longrightarrow> grows d d'"

lemma grows_then: "grows d d' \<Longrightarrow> inserted d'' = inserted d' \<Longrightarrow> grows d d''"
  by (cases rule: grows.cases) (auto intro: grows.intros)

lemma insert_run_inserted:
  assumes "stmt_insert_run r tx s = (Inr (), s')"
  shows "inserted s' = (fst (inserted s) @ [(lr_id r, lr_repo r, lr_trigger r, lr_grant r, lr_decision r)], snd (inserted s)) \<and>
    find_run (lr_id r) s = None"
  using assms by (auto simp: stmt_insert_run_def inserted_def run_core_def split: if_splits)

lemma recorded_grows:
  assumes "recorded d ev s s'"
  shows "grows s s'"
  using assms
proof cases
  case (denied t u rs u' i now e tx)
  from insert_run_inserted [OF denied(4)] show ?thesis
    by (intro grows.run) (auto simp: denied_run_def issued.simps)
next
  case (queued t u rs u' i now g tx s1)
  have "inserted s' = (fst (inserted s1), snd (inserted s1) @ [i])" using queued(1) by (simp add: inserted_def)
  moreover have "issued (i, t_owner t @ ''/'' @ t_name t, trigger_string (t_kind t), g, ''allow'')"
    using queued(4) by (auto simp: issued.simps)
  ultimately show ?thesis
    using insert_run_inserted [OF queued(5)] by (auto simp: allowed_run_def intro: grows.queued_run)
qed (simp add: grows.same)

lemma row_upserts [row_intros]:
  "row_stays i (UpsertFindings E j fs)" "row_stays i (UpsertUpdates E j us)" "row_stays i (ActionableCandidates E rp)"
  unfolding UpsertFindings_def UpsertUpdates_def ActionableCandidates_def
  by (intro row_intros row_exec_stmt; auto simp: stmt_upsert_findings_def stmt_upsert_updates_def stmt_candidates_def)+

lemma row_observe [row_intros]: "row_stays i (observe f)"
  by (rule row_still) (rule observe_quiet)

lemma scan_quiet: "logs P (scan_run E H no_config rp j)" "row_stays i (scan_run E H no_config rp j)"
proof -
  have ups: "logs P (UpsertFindings E j fs)" "logs P (UpsertUpdates E j us)" for P fs us
    unfolding UpsertFindings_def UpsertUpdates_def by (intro trace_intros)+
  have clone: "row_stays i (ShallowClone E H d rp)" for d
    by (rule row_still) (intro trace_intros)
  show "logs P (scan_run E H no_config rp j)"
    unfolding scan_run_def scan_updates_def no_config_def Let_def by (simp only: scan_config.simps option.case) (intro trace_intros ups)
  show "row_stays i (scan_run E H no_config rp j)"
    unfolding scan_run_def scan_updates_def no_config_def Let_def
    by (simp only: scan_config.simps option.case) (intro row_intros clone)
qed

lemma scan_grows:
  assumes "scan_command E H drawn rp w = (r, v)"
  shows "grows (w_db w) (w_db v) \<and> w_log v = w_log w"
proof -
  let ?i = "''scan-'' @ drawn"
  let ?rest = "ebind (etry (scan_run E H no_config rp ?i)) (\<lambda>r.
        case r of
          Inl e \<Rightarrow> ebind (eignore (SetRunStatus E ?i RunFailed)) (\<lambda>_. efail (CmdScan e))
        | Inr counts \<Rightarrow>
            ebind (ewrap CmdStatus (SetRunStatus E ?i RunSucceeded)) (\<lambda>_.
            ebind (eignore (ActionableCandidates E rp)) (\<lambda>_.
            eret counts)))"
  have quiet: "logs (\<lambda>_. False) ?rest" "row_stays ?i ?rest"
    unfolding SetRunStatus_def ActionableCandidates_def
    by (intro trace_intros scan_quiet) (fold SetRunStatus_def ActionableCandidates_def, intro row_intros scan_quiet)
  have ins: "grows d (snd (stmt_insert_run (scan_row ?i rp) t d))" for d t
    using insert_run_cases [of "scan_row ?i rp" t d] insert_run_inserted [of "scan_row ?i rp" t d]
    by (auto simp: scan_row_def issued.simps intro: grows.run grows.same)
  obtain q u where u: "InsertRun E (scan_row ?i rp) w = (q, u)" by fastforce
  have step: "grows (w_db w) (w_db u)" "w_log u = w_log w"
    using exec_stmt_db [OF u [unfolded InsertRun_def]] exec_stmt_log [OF u [unfolded InsertRun_def]] ins
    by (auto intro: grows.same)
  consider "v = w" | "v = u" | "?rest u = (r, v)"
    using assms u by (auto simp: scan_command_def efail_def ebind_def [of "ewrap CmdInsert _"] ewrap_def Let_def split: if_splits sum.splits)
  then show ?thesis
  proof cases
    case 3
    then show ?thesis
      using logsD [OF quiet(1) 3] row_stays_inserted [OF quiet(2) 3] step grows_then by (auto simp: adds_none)
  qed (use step in \<open>auto intro: grows.same\<close>)
qed

lemma schedule_quiet: "logs P (Schedule E env i ow nm base en)"
proof -
  have tx: "logs P (in_tx E fs)" for fs :: "unit stmt list"
    by (rule logsI) (auto elim!: in_tx_all_or_nothing intro: adds_same)
  have "logs P (alreadyScheduled E rp)" "logs P (ResolveDefaultBranch E env rp)" for rp
    unfolding alreadyScheduled_def ResolveDefaultBranch_def Let_def by (intro trace_intros)+
  then show ?thesis unfolding Schedule_def Let_def by (intro trace_intros tx)
qed

lemma schedule_grows:
  assumes "Schedule E env i ow nm base en w = (r, v)"
  shows "grows (w_db w) (w_db v)"
  using assms
proof (cases rule: Schedule_cases)
  case (2 b now t)
  let ?r = "upgrade_run i ow nm b now"
  obtain s1 where s1: "stmt_insert_run ?r t (w_db w) = (Inr (), s1)"
    using 2(2) by (cases "stmt_insert_run ?r t (w_db w)") auto
  have "issued (i, ow @ ''/'' @ nm, ''upgrade'', lr_grant ?r, ''allow'')"
    by (simp add: issued.simps upgrade_run_def) blast
  moreover have "inserted (w_db v) = (fst (inserted s1), snd (inserted s1) @ [i])"
    using 2(3) s1 by (simp add: stmt_enqueue_def inserted_def)
  ultimately show ?thesis
    using insert_run_inserted [OF s1] by (auto simp: upgrade_run_def intro: grows.queued_run)
qed (simp add: grows.same)

lemma upgrade_grows:
  assumes "upgrade_command E H drawn dsn rp base enabled w = (r, v)"
  shows "grows (w_db w) (w_db v) \<and> w_log v = w_log w"
proof -
  consider "v = w" | ow nm q where "Schedule E (getenv (ho_environ H)) drawn ow nm base enabled w = (q, v)"
    using assms by (auto simp: upgrade_command_def efail_def ewrap_def split: if_splits prod.splits sum.splits)
  then show ?thesis
  proof cases
    case 2
    then show ?thesis using schedule_grows [OF 2] logsD [OF schedule_quiet 2, of "\<lambda>_. False"] by (simp add: adds_none)
  qed (simp add: grows.same)
qed

section \<open>The invariant\<close>

text \<open>Where an event is written: a repository.\<close>

fun written_to :: "repo \<Rightarrow> event \<Rightarrow> bool" where
  "written_to r (GhEvent t c) \<longleftrightarrow> (\<exists>n. call_at r n c)"
| "written_to r (PushEvent t ow nm b) \<longleftrightarrow> ow = repo_owner r \<and> nm = repo_name r"

lemma event_at_written: "event_at cred n B Q e \<Longrightarrow> written_to (cr_repo cred) e"
  by (cases e) auto

lemma run_event_written: "run_event E lk row e \<Longrightarrow> written_to (g_repo (rn_grant row)) e"
  by (auto simp: run_event_def comment_event_def worker_writes_def exec_event_def dest!: event_at_written split: if_splits)

lemma run_event_core: "run_core row = run_core row' \<Longrightarrow> run_event E lk row = run_event E lk row'"
  by (simp add: run_core_def run_event_def fun_eq_iff)

definition licensed :: "outside \<Rightarrow> (string \<Rightarrow> string) \<Rightarrow> db \<Rightarrow> event \<Rightarrow> bool" where
  "licensed E lk d e \<longleftrightarrow> (\<exists>row \<in> set (db_runs d). rn_decision row = ''allow'' \<and> issued (run_core row) \<and> run_event E lk row e)"

text \<open>Every run was issued, every job is one of an allowed run, every write is one of an allowed run.\<close>

definition system_ok :: "system \<Rightarrow> world \<Rightarrow> bool" where
  "system_ok S w \<longleftrightarrow> list_all issued (fst (inserted (w_db w))) \<and>
     list_all (\<lambda>i. \<exists>row. find_run i (w_db w) = Some row \<and> rn_decision row = ''allow'') (db_jobs (w_db w)) \<and>
     list_all (licensed (sy_out S) (getenv (ho_environ (sy_host S))) (w_db w)) (w_log w)"

lemma licensed_core:
  "licensed E lk d e \<longleftrightarrow> (\<exists>row. run_core row \<in> set (fst (inserted d)) \<and> rn_decision row = ''allow'' \<and> issued (run_core row) \<and> run_event E lk row e)"
proof -
  have "run_core row \<in> set (fst (inserted d)) \<Longrightarrow> \<exists>row' \<in> set (db_runs d). run_core row' = run_core row" for row
    by (fastforce simp: inserted_def)
  moreover have "run_core row = run_core row' \<Longrightarrow> rn_decision row = rn_decision row'" for row row' by (simp add: run_core_def)
  ultimately show ?thesis
    unfolding licensed_def using run_event_core by (metis (no_types, opaque_lifting) fst_conv image_eqI inserted_def list.set_map)
qed

lemma grows_licensed: "grows d d' \<Longrightarrow> licensed E lk d e \<Longrightarrow> licensed E lk d' e"
  by (cases rule: grows.cases) (auto simp: licensed_core)

lemma allowed_core:
  "(\<exists>row. find_run i d = Some row \<and> rn_decision row = ''allow'') \<longleftrightarrow>
   (\<exists>rp trig g. List.find (\<lambda>c. fst c = i) (fst (inserted d)) = Some (i, rp, trig, g, ''allow''))"
proof -
  have "find_run i d = Some row \<Longrightarrow> rn_id row = i" for row
    by (auto simp: find_run_def dest: find_Some_set)
  then show ?thesis unfolding find_core [symmetric] by (auto simp: run_core_def)
qed

lemma find_append: "List.find P (xs @ ys) = (case List.find P xs of None \<Rightarrow> List.find P ys | Some x \<Rightarrow> Some x)"
  by (induction xs) auto

lemma grows_jobs:
  assumes "grows d d'" "list_all (\<lambda>i. \<exists>row. find_run i d = Some row \<and> rn_decision row = ''allow'') (db_jobs d)"
  shows "list_all (\<lambda>i. \<exists>row. find_run i d' = Some row \<and> rn_decision row = ''allow'') (db_jobs d')"
proof -
  have keep: "List.find P (fst (inserted d)) = Some c \<Longrightarrow> List.find P (fst (inserted d) @ cs) = Some c" for P c and cs :: "core list"
    by (simp add: find_append)
  have jobs: "db_jobs x = snd (inserted x)" for x by (simp add: inserted_def)
  from assms(1) show ?thesis
  proof cases
    case same
    then show ?thesis using assms(2) unfolding allowed_core jobs by simp
  next
    case (run c)
    then show ?thesis using assms(2) keep unfolding allowed_core jobs by (fastforce simp: list_all_iff)
  next
    case (queued_run i rp trig g)
    have "List.find (\<lambda>c. fst c = i) (fst (inserted d)) = None" using queued_run(2) find_core [of i d] by simp
    then have "List.find (\<lambda>c. fst c = i) (fst (inserted d')) = Some (i, rp, trig, g, ''allow'')"
      using queued_run(1) by (simp add: find_append)
    then show ?thesis using assms(2) keep queued_run(1) unfolding allowed_core jobs by (fastforce simp: list_all_iff)
  qed
qed

lemma grows_issued: "grows d d' \<Longrightarrow> list_all issued (fst (inserted d)) \<Longrightarrow> list_all issued (fst (inserted d'))"
  by (cases rule: grows.cases) auto

lemma quiet_step:
  assumes "system_ok S w" "grows (w_db w) (w_db v)" "w_log v = w_log w"
  shows "system_ok S v"
  using assms grows_issued grows_jobs grows_licensed unfolding system_ok_def by (auto simp: list_all_iff)

lemma job_step:
  assumes "system_ok S w" "i \<in> set (db_jobs (w_db w))" "handle (sy_out S) (sy_host S) R render fl i w = (r, v)"
  shows "system_ok S v"
proof -
  let ?lk = "getenv (ho_environ (sy_host S))"
  obtain row where row: "find_run i (w_db w) = Some row" "rn_decision row = ''allow''"
    using assms(1,2) by (auto simp: system_ok_def list_all_iff)
  then have mem: "row \<in> set (db_runs (w_db w))" by (auto simp: find_run_def dest: find_Some_set)
  then have issued: "issued (run_core row)" using assms(1) by (auto simp: system_ok_def inserted_def list_all_iff)
  have same: "inserted (w_db v) = inserted (w_db w)" by (rule row_stays_inserted [OF row_handle assms(3)])
  have lic: "licensed (sy_out S) ?lk (w_db v) e" if "e \<in> set (w_log v)" for e
  proof -
    note member = that
    consider "e \<in> set (w_log w)" | "run_event (sy_out S) ?lk row e"
      using adds_in [OF handle_logs [OF assms(3) row(1)] member] by blast
    then have "licensed (sy_out S) ?lk (w_db w) e"
      using assms(1) mem issued row(2) by cases (auto simp: system_ok_def list_all_iff licensed_def)
    then show ?thesis using grows_licensed [OF grows.same [OF same]] by blast
  qed
  show ?thesis
    using assms(1) lic grows_jobs [OF grows.same [OF same]] same unfolding system_ok_def by (simp add: list_all_iff)
qed

lemma reachable_ok: "reachable S w \<Longrightarrow> system_ok S w"
proof (induction rule: reachable.induct)
  case (start n)
  then show ?case by (simp add: system_ok_def inserted_def empty_db_def)
next
  case (step w v)
  from step.hyps(2) show ?case
  proof cases
    case (webhook ev r1)
    then show ?thesis using quiet_step [OF step.IH] recorded_grows gateway.HandleEvent_recorded by blast
  next
    case (scan drawn repo r2)
    then show ?thesis using quiet_step [OF step.IH] scan_grows by blast
  next
    case (upgrade drawn dsn repo base enabled r3)
    then show ?thesis using quiet_step [OF step.IH] upgrade_grows by blast
  next
    case (job i r4)
    then show ?thesis using job_step [OF step.IH] by blast
  next
    case (configure cs)
    then show ?thesis by (intro quiet_step [OF step.IH] grows.same) (simp_all add: inserted_def)
  next
    case idle
    then show ?thesis by (intro quiet_step [OF step.IH] grows.same) simp_all
  qed
qed

text \<open>What a licence amounts to.\<close>

lemma licensed_event:
  assumes "licensed E lk d e"
  shows "\<exists>row \<in> set (db_runs d). rn_decision row = ''allow'' \<and>
    ((\<exists>t rs now. Decide t rs (rn_id row) now = Inr (rn_grant row) \<and> rn_trigger row = trigger_string (t_kind t)) \<or>
     (rn_trigger row = ''upgrade'' \<and> (\<exists>rp base now. rn_grant row = GrantForUpgrade (rn_id row) rp base now))) \<and>
    written_to (g_repo (rn_grant row)) e \<and> draft_only (g_repo (rn_grant row)) e \<and>
    (rn_trigger row = ''webhook_pull_request'' \<longrightarrow> comment_event lk (rn_grant row) e)"
proof -
  obtain row where row: "row \<in> set (db_runs d)" "rn_decision row = ''allow''" "issued (run_core row)" "run_event E lk row e"
    using assms by (auto simp: licensed_def)
  have "rn_trigger row \<noteq> ''scheduled''" using row(4) by (auto simp: run_event_def handled_triggers_def)
  moreover have "draft_only (g_repo (rn_grant row)) e"
    using row(4) by (cases "(g_repo (rn_grant row), e)" rule: draft_only.cases) (auto dest!: run_event_draft)
  moreover have "rn_trigger row = ''webhook_pull_request'' \<Longrightarrow> comment_event lk (rn_grant row) e"
    using row(4) review_writes by (auto simp: run_event_def)
  moreover have "(\<exists>t rs now. Decide t rs (rn_id row) now = Inr (rn_grant row) \<and> rn_trigger row = trigger_string (t_kind t)) \<or>
     (rn_trigger row = ''upgrade'' \<and> (\<exists>rp base now. rn_grant row = GrantForUpgrade (rn_id row) rp base now))"
    using row(2,3) calculation(1) by (simp add: issued.simps run_core_def) blast
  ultimately show ?thesis using row(1,2) run_event_written [OF row(4)] by blast
qed

text \<open>
  C1: In every state the processes can reach, whatever GitHub, git, the file systems, the agents and the
  senders of webhooks do, every call that writes is licensed: there is a run that was allowed, whose grant the
  policy or the scheduler issued, and the call goes to the repository of that grant; a pull request is
  opened only as a draft, and a run for a pull request only comments on it. Every queued job is one of an
  allowed run.
\<close>

theorem every_write_is_licensed:
  assumes "reachable S w"
  shows "list_all (\<lambda>e. \<exists>row \<in> set (db_runs (w_db w)). rn_decision row = ''allow'' \<and>
      ((\<exists>t rs now. Decide t rs (rn_id row) now = Inr (rn_grant row) \<and> rn_trigger row = trigger_string (t_kind t)) \<or>
       (rn_trigger row = ''upgrade'' \<and> (\<exists>rp base now. rn_grant row = GrantForUpgrade (rn_id row) rp base now))) \<and>
      written_to (g_repo (rn_grant row)) e \<and> draft_only (g_repo (rn_grant row)) e \<and>
      (rn_trigger row = ''webhook_pull_request'' \<longrightarrow> comment_event (getenv (ho_environ (sy_host S))) (rn_grant row) e)) (w_log w) \<and>
    list_all (\<lambda>i. \<exists>row. find_run i (w_db w) = Some row \<and> rn_decision row = ''allow'') (db_jobs (w_db w))"
  using reachable_ok [OF assms] licensed_event by (fastforce simp: system_ok_def list_all_iff)

section \<open>Witnesses\<close>

definition review_label_event :: webhook where
  "review_label_event = PullRequestEvent \<lparr>pe_action = Some ''labeled'',
     pe_repo = Some \<lparr>gr_owner = Some \<lparr>us_login = Some ''acme'', us_type = None\<rparr>, gr_name = Some ''widget'', gr_default_branch = Some ''main''\<rparr>,
     pe_label = Some (Some ''bothos/review''),
     pe_pull = Some \<lparr>gp_base = Some \<lparr>br_ref = Some ''main'', br_sha = Some ''b''\<rparr>, gp_head = Some \<lparr>br_ref = None, br_sha = Some ''h''\<rparr>, gp_number = Some 7\<rparr>,
     pe_sender = Some \<lparr>us_login = Some ''ann'', us_type = None\<rparr>, pe_number = Some 7\<rparr>"

definition review_trigger :: trigger where
  "review_trigger = no_trigger\<lparr>t_kind := TriggerPullRequest, t_owner := ''acme'', t_name := ''widget'', t_number := 7, t_base_ref := ''main'',
     t_base_sha := ''b'', t_head_sha := ''h'', t_actor := ''ann'', t_actor_write := True, t_manual := True, t_review_label := True\<rparr>"

lemma review_label_queued:
  "\<exists>v row. HandleEvent still_outside (gateway_dispatcher still_outside example_gateway) review_label_event (start_world configured_db) = (Inr (), v) \<and>
    ''01'' \<in> set (db_jobs (w_db v)) \<and> find_run ''01'' (w_db v) = Some row \<and> rn_trigger row = ''webhook_pull_request'' \<and>
    review_scope_ok (g_scope (rn_grant row)) \<and> sc_number (g_scope (rn_grant row)) = 7 \<and> 0 \<le> g_expires (rn_grant row) \<and> g_manual (rn_grant row) \<and>
    w_log v = []"
proof -
  let ?d = "gateway_dispatcher still_outside example_gateway" and ?w = "start_world configured_db"
  have fields: "dp_authorize ?d = Some (newActorAuthorizer example_gateway True)" "dp_rules ?d = RulesForRepo still_outside" "dp_random ?d t = [1]" for t
    by (simp_all add: gateway_dispatcher_def example_gateway_def)
  have trig: "triggerFromEvent ?d review_label_event ?w = (Inr (Some review_trigger), tick ?w)"
    by (simp add: triggerFromEvent_def review_label_event_def pull_request_trigger_def repo_named_def repo_at_def get_login_def get_str_def get_int_def
      branch_ref_def branch_sha_def eventSender_def actorCanWrite_def fields permission_asked ebind_def etry_def eret_def review_trigger_def no_trigger_def Let_def)
  have rules: "RulesForRepo still_outside ''acme'' ''widget'' (tick ?w) = (Inr example_rules, tick (tick ?w))"
    by (simp add: RulesForRepo_def still_stmt stmt_rules_def configured_db_def start_world_def empty_db_def tick_def)
  obtain g where g: "Decide review_trigger example_rules ''01'' 0 = Inr g" "sc_number (g_scope g) = 7" "review_scope_ok (g_scope g)" "0 \<le> g_expires g" "g_manual g"
    by (auto simp: Decide_def review_trigger_def no_trigger_def example_rules_def trigger_consts check_def containsStr_def Let_def
      review_scope_ok_def base_grant_def hour_def trim_space_ascii ascii_def is_space_def)
  have hex: "hex_encode [Suc 0] = ''01''" by (simp add: hex_encode_def hex_char_def char_of_def bit_0 bit_Suc)
  have own: "t_owner review_trigger = ''acme''" "t_name review_trigger = ''widget''" "trigger_string (t_kind review_trigger) = ''webhook_pull_request''"
    by (simp_all add: review_trigger_def no_trigger_def trigger_string_def)
  have "\<exists>v row. in_tx still_outside [stmt_insert_run (allowed_run ''01'' review_trigger g), stmt_enqueue ''01''] (tick (tick (tick (tick ?w)))) = (Inr (), v) \<and>
    ''01'' \<in> set (db_jobs (w_db v)) \<and> find_run ''01'' (w_db v) = Some row \<and> rn_trigger row = ''webhook_pull_request'' \<and> rn_grant row = g \<and> w_log v = []"
    by (simp add: in_tx_def tx_commit_def still_fields ebind_def stmt_insert_run_def allowed_run_def g(2) int4_def find_run_def
      stmt_enqueue_def configured_db_def start_world_def empty_db_def own)
  then show ?thesis using g
    by (auto simp: HandleEvent_def dispatch_trigger_def ebind_def ewrap_def trig fields own rules newRunID_def observe_def clock_def
      still_fields hex)
qed

text \<open>A configured repository, a review asked for by its label, and the worker's acknowledgement.\<close>

lemma every_write_is_licensed_witness:
  "\<forall>R render fl. \<exists>w e. reachable \<lparr>sy_out = still_outside, sy_gateway = example_gateway, sy_host = comment_host, sy_review = R, sy_render = render, sy_flags = fl\<rparr> w \<and>
     e \<in> set (w_log w) \<and> (\<exists>row \<in> set (db_runs (w_db w)). rn_decision row = ''allow'' \<and> written_to (g_repo (rn_grant row)) e)"
proof (intro allI)
  fix R render fl
  let ?S = "\<lparr>sy_out = still_outside, sy_gateway = example_gateway, sy_host = comment_host, sy_review = R, sy_render = render, sy_flags = fl\<rparr>"
  let ?w0 = "\<lparr>w_tick = 0, w_db = empty_db, w_log = []\<rparr>"
  have "system_step ?S ?w0 (start_world configured_db)"
    using system_step.configure [of ?S ?w0 "db_config configured_db"] by (simp add: start_world_def configured_db_def)
  then have 1: "reachable ?S (start_world configured_db)" using reachable.start reachable.step by blast
  obtain v row where v: "HandleEvent still_outside (gateway_dispatcher still_outside example_gateway) review_label_event (start_world configured_db) = (Inr (), v)"
    "''01'' \<in> set (db_jobs (w_db v))" "find_run ''01'' (w_db v) = Some row" "rn_trigger row = ''webhook_pull_request''"
    "review_scope_ok (g_scope (rn_grant row))" "sc_number (g_scope (rn_grant row)) = 7" "0 \<le> g_expires (rn_grant row)" "g_manual (rn_grant row)"
    using review_label_queued by blast
  have 2: "reachable ?S v" using reachable.step [OF 1 system_step.webhook [of ?S review_label_event]] v(1) by simp
  obtain r u where u: "handle still_outside comment_host R render fl ''01'' v = (r, u)" by fastforce
  have 3: "reachable ?S u" using reachable.step [OF 2 system_step.job [of "''01''" v ?S]] v(2) u by simp
  obtain e where "e \<in> set (w_log u)"
    using review_is_acknowledged [OF v(3,4) refl v(5-8), of R render fl] u by auto
  moreover have "\<exists>row \<in> set (db_runs (w_db u)). rn_decision row = ''allow'' \<and> written_to (g_repo (rn_grant row)) e"
    using every_write_is_licensed [OF 3] calculation by (auto simp: list_all_iff)
  ultimately show "\<exists>w e. reachable ?S w \<and> e \<in> set (w_log w) \<and> (\<exists>row \<in> set (db_runs (w_db w)). rn_decision row = ''allow'' \<and> written_to (g_repo (rn_grant row)) e)"
    using 3 by blast
qed

end
