(* ===== verification/Queue.thy ===== *)
theory Queue
  imports Host
begin

text \<open>
  Pools and the queue's client: \<open>New\<close>, \<open>Migrate\<close> and \<open>Close\<close> of \<open>internal/ledger\<close>, \<open>Open\<close> and \<open>Close\<close> of
  \<open>internal/queue\<close>. pgx and River are not the program's code: whether one of their calls succeeds is a field of
  \<open>driver\<close>, a function of the number of interactions with the outside so far. A process keeps, beside the world it shares
  with the others, the history of what it has opened and closed. What the schema and River's migrations
  create is in place in \<open>db\<close> from the start.
\<close>

section \<open>A process and its history\<close>

text \<open>The configuration a River client is made with; no queues is the nil map.\<close>

record river_config =
  rv_queues :: "(string \<times> int) list option"     \<comment> \<open>name and \<open>MaxWorkers\<close>\<close>
  rv_kinds :: "string list"                        \<comment> \<open>the kinds in the bundle of workers\<close>
  rv_job_timeout :: int

text \<open>A pool is known by how many events there had been when it was opened. The last event stands first.\<close>

datatype life =
    PoolOpened string
  | PoolClosed nat
  | SchemaApplied nat
  | RiverMigrated nat
  | ClientMade nat river_config
  | ClientStarted nat
  | ClientStopped nat

record process =
  pr_world :: world
  pr_life :: "life list"

record driver =
  dv_pool :: "nat \<Rightarrow> string \<Rightarrow> bool"
  dv_ping :: "nat \<Rightarrow> bool"
  dv_schema :: "nat \<Rightarrow> bool"
  dv_migrator :: "nat \<Rightarrow> bool"
  dv_migrate :: "nat \<Rightarrow> bool"
  dv_client :: "nat \<Rightarrow> river_config \<Rightarrow> bool"
  dv_start :: "nat \<Rightarrow> bool"

definition ask :: "(nat \<Rightarrow> bool) \<Rightarrow> ('z process_scheme, unit, unit) eff" where
  "ask f p = (if f (w_tick (pr_world p)) then Inr () else Inl (), p\<lparr>pr_world := tick (pr_world p)\<rparr>)"

definition enter :: "life \<Rightarrow> ('z process_scheme, 'e, unit) eff" where
  "enter e p = (Inr (), p\<lparr>pr_life := e # pr_life p\<rparr>)"

text \<open>An effect on the shared world, as one of the process.\<close>

definition in_world :: "(world, 'e, 'a) eff \<Rightarrow> ('z process_scheme, 'e, 'a) eff" where
  "in_world m p = (case m (pr_world p) of (r, w) \<Rightarrow> (r, p\<lparr>pr_world := w\<rparr>))"

section \<open>Pools\<close>

definition pool_New :: "driver \<Rightarrow> string \<Rightarrow> ('z process_scheme, unit, nat) eff" where
  "pool_New D dsn =
     ebind (ask (\<lambda>t. dv_pool D t dsn)) (\<lambda>_ p.
     (Inr (length (pr_life p)), p\<lparr>pr_life := PoolOpened dsn # pr_life p\<rparr>))"

definition pool_Close :: "nat \<Rightarrow> ('z process_scheme, 'e, unit) eff" where
  "pool_Close i = enter (PoolClosed i)"

text \<open>When the first call fails, close the pool and fail.\<close>

definition or_close :: "nat \<Rightarrow> ('z process_scheme, unit, 'a) eff \<Rightarrow> ('a \<Rightarrow> ('z process_scheme, unit, 'b) eff) \<Rightarrow> ('z process_scheme, unit, 'b) eff" where
  "or_close i m f = ebind (etry m) (\<lambda>r.
     case r of Inl _ \<Rightarrow> ebind (pool_Close i) (\<lambda>_. efail ()) | Inr x \<Rightarrow> f x)"

definition ledger_New :: "driver \<Rightarrow> string \<Rightarrow> ('z process_scheme, unit, nat) eff" where
  "ledger_New D dsn =
     ebind (pool_New D dsn) (\<lambda>pool.
     or_close pool (ask (dv_ping D)) (\<lambda>_.
     eret pool))"

definition ledger_Close :: "nat \<Rightarrow> ('z process_scheme, 'e, unit) eff" where
  "ledger_Close pool = pool_Close pool"

definition ledger_Migrate :: "driver \<Rightarrow> nat \<Rightarrow> ('z process_scheme, unit, unit) eff" where
  "ledger_Migrate D pool = ebind (ask (dv_schema D)) (\<lambda>_. enter (SchemaApplied pool))"

section \<open>The queue\<close>

record run_job =
  rj_run_id :: string

definition run_job_kind :: string where
  "run_job_kind = ''run''"

type_synonym 'e run_handler = "string \<Rightarrow> (world, 'e, unit) eff"

text \<open>The pool, and of the client what the program gave it: its configuration and the worker for \<open>RunJob\<close>.\<close>

record 'e queue =
  qu_pool :: nat
  qu_config :: river_config
  qu_work :: "run_job \<Rightarrow> (world, 'e, unit) eff"

definition migrateRiver :: "driver \<Rightarrow> nat \<Rightarrow> ('z process_scheme, unit, unit) eff" where
  "migrateRiver D pool =
     ebind (ask (dv_migrator D)) (\<lambda>_.
     ebind (ask (dv_migrate D)) (\<lambda>_.
     enter (RiverMigrated pool)))"

definition queue_config :: "(string \<times> int) list option \<Rightarrow> river_config" where
  "queue_config queueCfg = \<lparr>rv_queues = queueCfg, rv_kinds = [run_job_kind], rv_job_timeout = -1\<rparr>"

definition work_func :: "'e run_handler option \<Rightarrow> run_job \<Rightarrow> (world, 'e, unit) eff" where
  "work_func handler = (let h = (case handler of None \<Rightarrow> (\<lambda>_. eret ()) | Some h \<Rightarrow> h) in (\<lambda>job. h (rj_run_id job)))"

definition queue_Open ::
  "driver \<Rightarrow> string \<Rightarrow> (string \<times> int) list option \<Rightarrow> 'e run_handler option \<Rightarrow> ('z process_scheme, unit, 'e queue) eff" where
  "queue_Open D dsn queueCfg handler =
     ebind (pool_New D dsn) (\<lambda>pool.
     or_close pool (migrateRiver D pool) (\<lambda>_.
     or_close pool (ask (\<lambda>t. dv_client D t (queue_config queueCfg))) (\<lambda>_.
     ebind (enter (ClientMade pool (queue_config queueCfg))) (\<lambda>_.
     eret \<lparr>qu_pool = pool, qu_config = queue_config queueCfg, qu_work = work_func handler\<rparr>))))"

definition client_Start :: "driver \<Rightarrow> 'e queue \<Rightarrow> ('z process_scheme, unit, unit) eff" where
  "client_Start D q = ebind (ask (dv_start D)) (\<lambda>_. enter (ClientStarted (qu_pool q)))"

text \<open>\<open>client.Stop\<close>; its error is logged or dropped.\<close>

definition client_Stop :: "'e queue \<Rightarrow> ('z process_scheme, 'f, unit) eff" where
  "client_Stop q = enter (ClientStopped (qu_pool q))"

definition queue_Close :: "'e queue \<Rightarrow> ('z process_scheme, 'f, unit) eff" where
  "queue_Close q = ebind (client_Stop q) (\<lambda>_. pool_Close (qu_pool q))"

section \<open>What is open\<close>

fun open_pools :: "life list \<Rightarrow> nat list" where
  "open_pools [] = []"
| "open_pools (PoolOpened _ # h) = length h # open_pools h"
| "open_pools (PoolClosed i # h) = filter (\<lambda>j. j \<noteq> i) (open_pools h)"
| "open_pools (_ # h) = open_pools h"

lemma open_pools_old: "i \<in> set (open_pools h) \<Longrightarrow> i < length h"
  by (induction h rule: open_pools.induct) auto

lemma never_closed [simp]: "length h \<le> i \<Longrightarrow> filter (\<lambda>j. j \<noteq> i) (open_pools h) = open_pools h"
  by (rule filter_True) (auto dest: open_pools_old)

text \<open>Runs of the operations.\<close>

lemma ledger_New_life:
  assumes "ledger_New D dsn p = (r, q)"
  shows "open_pools (pr_life q) = (case r of Inl _ \<Rightarrow> [] | Inr i \<Rightarrow> [i]) @ open_pools (pr_life p)"
    "r = Inr i \<Longrightarrow> i = length (pr_life p)"
  using assms
  by (auto simp: ledger_New_def ebind_def ask_def pool_New_def or_close_def etry_def pool_Close_def enter_def efail_def eret_def
    split: if_splits)

lemma queue_Open_life:
  assumes "queue_Open D dsn cfg handler p = (r, q)"
  shows "open_pools (pr_life q) = (case r of Inl _ \<Rightarrow> [] | Inr qu \<Rightarrow> [qu_pool qu]) @ open_pools (pr_life p)"
    "r = Inr qu \<Longrightarrow> qu_pool qu = length (pr_life p) \<and> qu_work qu = work_func handler"
  using assms
  by (auto simp: queue_Open_def migrateRiver_def ebind_def ask_def pool_New_def or_close_def etry_def pool_Close_def enter_def efail_def eret_def
    split: if_splits)

end
