(* ===== verification/Graphcache.thy ===== *)
theory Graphcache
  imports GoSort GoHash Intent Policy
begin

text \<open>
  The graph cache (\<open>internal/graphcache\<close>): the key of a graph and which graphs are retained. The order in which
  Go visits a map is a parameter, \<open>repos\<close>: some order of the repositories that have entries.
\<close>

section \<open>Keys\<close>

text \<open>The flags are the map's pairs; \<open>encoding/json\<close> writes them in the order of their keys and leaves out empty optional fields.\<close>

record extraction_config =
  ec_filter :: string
  ec_languages :: "string list"
  ec_flags :: "(string \<times> string) list"

definition enc_extraction_config :: "extraction_config \<Rightarrow> json" where
  "enc_extraction_config c =
     JObj ([(asc ''corpus_filter'', jstr (ec_filter c))] @
       (if ec_languages c = [] then [] else [(asc ''languages'', JArr (map jstr (ec_languages c)))]) @
       (if ec_flags c = [] then [] else [(asc ''flags'', JObj (map (\<lambda>(k, v). (to_runes k, jstr v))
          (order_by (\<lambda>p q. byte_less (fst p) (fst q)) (ec_flags c))))]))"

definition Key :: "string \<Rightarrow> extraction_config \<Rightarrow> string \<Rightarrow> string" where
  "Key graphifyVersion cfg treeSHA =
     sha256_hex (graphifyVersion @ [CHR 0xFF] @ marshal (enc_extraction_config cfg) @ [CHR 0xFF] @ treeSHA)"

section \<open>Retention\<close>

record cache_entry =
  ce_key :: string
  ce_repo :: string
  ce_built :: go_time
  ce_in_flight :: bool

definition keep_key :: "string \<Rightarrow> string list \<Rightarrow> string list" where
  "keep_key k ks = (if containsStr ks k then ks else ks @ [k])"

definition by_repo :: "cache_entry list \<Rightarrow> string \<Rightarrow> cache_entry list" where
  "by_repo entries r = filter (\<lambda>e. ce_repo e = r) entries"

definition in_flight_keys :: "cache_entry list \<Rightarrow> string list" where
  "in_flight_keys entries = map ce_key (filter ce_in_flight entries)"

text \<open>One repository: \<open>kept\<close> counts what was kept of it.\<close>

fun retain_repo :: "string list \<Rightarrow> int \<Rightarrow> int \<Rightarrow> cache_entry list \<Rightarrow> string list \<times> string list \<Rightarrow> string list \<times> string list" where
  "retain_repo flying n kept [] (keep, evict) = (keep, evict)"
| "retain_repo flying n kept (e # es) (keep, evict) =
     (if kept \<ge> n \<and> ce_key e \<notin> set flying then retain_repo flying n kept es (keep, evict @ [ce_key e])
      else retain_repo flying n (kept + 1) es (keep_key (ce_key e) keep, evict))"

definition newer :: "cache_entry \<Rightarrow> cache_entry \<Rightarrow> bool" where
  "newer a b \<longleftrightarrow> ce_built a > ce_built b"

definition Retain :: "string list \<Rightarrow> cache_entry list \<Rightarrow> int \<Rightarrow> string list \<times> string list" where
  "Retain repos entries keepPerRepo =
     (let flying = in_flight_keys entries;
          keep = foldl (\<lambda>ks e. if ce_in_flight e then keep_key (ce_key e) ks else ks) [] entries in
      foldl (\<lambda>acc r. retain_repo flying keepPerRepo 0 (order_by newer (by_repo entries r)) acc) (keep, []) repos)"

section \<open>What is retained\<close>

lemma set_keep_key [simp]: "set (keep_key k ks) = insert k (set ks)"
  by (auto simp: keep_key_def containsStr_iff)

lemma retain_repo_sets:
  assumes "retain_repo flying n kept es (ks, ev) = (ks', ev')"
  shows "set ks \<subseteq> set ks' \<and> set ks' \<union> set ev' = set ks \<union> set ev \<union> ce_key ` set es \<and> set ev \<subseteq> set ev' \<and>
    set ev' \<inter> set flying \<subseteq> set ev"
  using assms
proof (induction es arbitrary: kept ks ev)
  case (Cons e es)
  show ?case
  proof (cases "kept \<ge> n \<and> ce_key e \<notin> set flying")
    case True
    then show ?thesis using Cons.IH [of kept ks "ev @ [ce_key e]"] Cons.prems by auto
  next
    case False
    then have "retain_repo flying n (kept + 1) es (keep_key (ce_key e) ks, ev) = (ks', ev')" using Cons.prems by auto
    from Cons.IH [OF this] show ?thesis by simp
  qed
qed auto

text \<open>Of a list in which fewer than \<open>n - kept\<close> entries precede an entry, that entry is kept.\<close>

lemma retain_repo_first:
  assumes "retain_repo flying n kept (as @ e # bs) (ks, ev) = (ks', ev')" "kept + int (length as) < n"
  shows "ce_key e \<in> set ks'"
  using assms
proof (induction as arbitrary: kept ks ev)
  case Nil
  then show ?case using retain_repo_sets [of flying n "kept + 1" bs "keep_key (ce_key e) ks" ev ks' ev'] by auto
next
  case (Cons a as)
  then show ?case using Cons.IH [of "kept + 1" "keep_key (ce_key a) ks" ev] by simp
qed

interpretation newest_first: weak_order newer
  by unfold_locales (auto simp: newer_def)

text \<open>What precedes an entry in the order is at least as new.\<close>

lemma before_is_newer:
  assumes "order_by newer es = as @ e # bs"
  shows "length as < length (filter (\<lambda>f. ce_built f \<ge> ce_built e) es)"
proof -
  have "sorted_wrt (\<lambda>a b. \<not> newer b a) (as @ e # bs)" using newest_first.sorted_order_by [of es] assms by simp
  then have "\<forall>a \<in> set as. ce_built a \<ge> ce_built e" by (auto simp: sorted_wrt_append newer_def)
  then have "filter (\<lambda>f. ce_built f \<ge> ce_built e) as = as" by simp
  moreover have "length (filter (\<lambda>f. ce_built f \<ge> ce_built e) es) = length (filter (\<lambda>f. ce_built f \<ge> ce_built e) (as @ e # bs))"
    by (metis assms mset_filter mset_order_by size_mset)
  ultimately show ?thesis by simp
qed

abbreviation retain_step :: "string list \<Rightarrow> int \<Rightarrow> cache_entry list \<Rightarrow> string list \<times> string list \<Rightarrow> string \<Rightarrow> string list \<times> string list" where
  "retain_step flying n entries acc r \<equiv> retain_repo flying n 0 (order_by newer (by_repo entries r)) acc"

lemma retain_all:
  assumes "foldl (retain_step flying n entries) (ks, ev) rs = (ks', ev')"
  shows "set ks \<subseteq> set ks' \<and> set ks' \<union> set ev' = set ks \<union> set ev \<union> ce_key ` {e \<in> set entries. ce_repo e \<in> set rs} \<and>
    set ev' \<inter> set flying \<subseteq> set ev \<and>
    (\<forall>e \<in> set entries. ce_repo e \<in> set rs \<longrightarrow>
       int (length (filter (\<lambda>f. ce_built f \<ge> ce_built e) (by_repo entries (ce_repo e)))) \<le> n \<longrightarrow> ce_key e \<in> set ks')"
  using assms
proof (induction rs arbitrary: ks ev)
  case (Cons r rs)
  obtain k1 e1 where 1: "retain_step flying n entries (ks, ev) r = (k1, e1)" by fastforce
  note sets = retain_repo_sets [OF 1]
  have first: "ce_key e \<in> set k1" if e: "e \<in> set entries" "ce_repo e = r"
    "int (length (filter (\<lambda>f. ce_built f \<ge> ce_built e) (by_repo entries r))) \<le> n" for e
  proof -
    have "e \<in> set (order_by newer (by_repo entries r))" using e by (simp add: by_repo_def)
    then obtain as bs where split: "order_by newer (by_repo entries r) = as @ e # bs" by (meson split_list)
    then show ?thesis using retain_repo_first [of flying n 0 as e bs ks ev k1 e1] before_is_newer [OF split] 1 e(3) by simp
  qed
  have rest: "foldl (retain_step flying n entries) (k1, e1) rs = (ks', ev')" using Cons.prems 1 by simp
  have "set (order_by newer (by_repo entries r)) = {e \<in> set entries. ce_repo e = r}" by (auto simp: by_repo_def)
  then show ?case using Cons.IH [OF rest] sets first by (auto 4 4)
qed simp

lemma set_flying: "set (foldl (\<lambda>ks e. if ce_in_flight e then keep_key (ce_key e) ks else ks) ks es) = set ks \<union> set (in_flight_keys es)"
  by (induction es arbitrary: ks) (auto simp: in_flight_keys_def)

text \<open>
  Retention keeps what it must, in whatever order the repositories are visited: the key of every graph is
  kept or evicted, a graph that an unfinished run references is kept and not evicted, and so is kept one of the
  given number of newest graphs of its repository.
\<close>

theorem Retain_keeps:
  assumes "Retain repos entries n = (keep, evict)" "set repos = ce_repo ` set entries"
  shows "set keep \<union> set evict = ce_key ` set entries \<and>
    (\<forall>e \<in> set entries. ce_in_flight e \<longrightarrow> ce_key e \<in> set keep \<and> ce_key e \<notin> set evict) \<and>
    (\<forall>e \<in> set entries. int (length (filter (\<lambda>f. ce_built f \<ge> ce_built e) (by_repo entries (ce_repo e)))) \<le> n \<longrightarrow> ce_key e \<in> set keep)"
proof -
  have "foldl (retain_step (in_flight_keys entries) n entries)
      (foldl (\<lambda>ks e. if ce_in_flight e then keep_key (ce_key e) ks else ks) [] entries, []) repos = (keep, evict)"
    using assms(1) by (simp add: Retain_def Let_def)
  note all = retain_all [OF this, unfolded set_flying]
  have "{e \<in> set entries. ce_repo e \<in> set repos} = set entries" "set (in_flight_keys entries) \<subseteq> ce_key ` set entries"
    using assms(2) by (auto simp: in_flight_keys_def)
  moreover have "ce_in_flight e \<Longrightarrow> e \<in> set entries \<Longrightarrow> ce_key e \<in> set (in_flight_keys entries)" for e
    by (auto simp: in_flight_keys_def)
  ultimately show ?thesis using all assms(2) by (auto 4 4)
qed

text \<open>
  A key can be both kept and evicted: two repositories with the same tree share a graph's key, and the
  repository whose newer graph displaces it evicts the blob that the other one keeps.
\<close>

theorem shared_key_evicted:
  "Retain [''acme/a'', ''acme/b'']
     [\<lparr>ce_key = ''k'', ce_repo = ''acme/a'', ce_built = 1, ce_in_flight = False\<rparr>,
      \<lparr>ce_key = ''k'', ce_repo = ''acme/b'', ce_built = 1, ce_in_flight = False\<rparr>,
      \<lparr>ce_key = ''j'', ce_repo = ''acme/b'', ce_built = 2, ce_in_flight = False\<rparr>] 1 = ([''k'', ''j''], [''k''])"
  by (simp add: Retain_def Let_def in_flight_keys_def by_repo_def order_by_def newer_def keep_key_def containsStr_def)

lemma Retain_keeps_witness:
  "\<exists>keep evict. Retain [''acme/a''] [\<lparr>ce_key = ''k'', ce_repo = ''acme/a'', ce_built = 1, ce_in_flight = True\<rparr>] 0 = (keep, evict) \<and>
     ''k'' \<in> set keep \<and> ''k'' \<notin> set evict"
proof -
  let ?es = "[\<lparr>ce_key = ''k'', ce_repo = ''acme/a'', ce_built = 1, ce_in_flight = True\<rparr>]"
  obtain keep evict where r: "Retain [''acme/a''] ?es 0 = (keep, evict)" by fastforce
  then show ?thesis using Retain_keeps [OF r] by simp
qed

end
