(* ===== verification/Spec2Isabelle.thy ===== *)
theory Spec2Isabelle
  imports Process Graphcache
begin

text \<open>
  bothos, a maintenance bot for repositories on GitHub. Events and schedules become runs with a grant; an agent that
  is not trusted works on a checkout and answers with an intent, a small structure that names no repository, number or
  branch; a trusted executor validates the intent against the grant and performs it under a credential of the
  tier the kind needs. What must hold is that nothing an agent, an issue or a pull request says can make the
  bot write outside that grant. This development models the Go program (src/) and proves such statements about it.

  \<^bold>\<open>Parts, and the theories that model them.\<close> Paths are below src/.
  \<^item> Go and its standard library, as far as the program uses it. \<open>Prelude\<close>: results, the effect type \<open>eff\<close> (state in,
    error or value and state out) with its laws, lists. \<open>GoText\<close>: strings as byte lists, runes and UTF-8, the
    strings package. \<open>GoRegex\<close>: the fragment of regexp the nine patterns use. \<open>GoJson\<close>: encoding/json, printing and
    reading. \<open>GoHash\<close>: SHA-256. \<open>GoPath\<close>: path and the glob matcher. \<open>GoSort\<close>: sort and the orders it is given.
  \<^item> \<open>Intent\<close>, \<open>Sanitise\<close>, \<open>Validate\<close>: internal/intent. The schema, the texts made harmless, \<open>Validate\<close>, \<open>ValidateDiff\<close>,
    \<open>IdempotencyKey\<close>.
  \<^item> \<open>Policy\<close>: internal/policy, \<open>Decide\<close>. \<open>Credstore\<close>: internal/credstore, \<open>Resolve\<close>. \<open>Scan\<close>: internal/scan, the parsers of the
    scanners' reports and the driver.
  \<^item> \<open>World\<close>: the state all processes share (the tables of internal/ledger/schema.sql, the count of interactions with
    the outside, the log of the calls that reach GitHub) and \<open>outside\<close>, the oracle of all that is not the program:
    the database's connection, GitHub, git, the clock, each a function of that count, so that a theorem over every
    \<open>outside\<close> is one over every sequence of answers and failures. \<open>Host\<close>: the machine's processes, files and environment.
    \<open>Trace\<close>: the calculus of what an operation may log and whether it touches the tables.
  \<^item> \<open>Ledger\<close>: internal/ledger, each method as the statement it sends, with the constraints of the schema.
  \<^item> \<open>GithubWriter\<close>, \<open>Executor\<close>: internal/executor. \<open>Upgrade\<close>: internal/upgrade (diff of a worktree, grant, transaction,
    scheduler). \<open>Runtime\<close>: internal/runtime (tasks, prompts, registry).
  \<^item> \<open>Diff\<close>, \<open>Review\<close>: internal/review, the parser of diffs and the deterministic checks of a pull request.
  \<^item> \<open>Runpipe\<close>: internal/runpipe, the security, issue and review runs over their seams.
  \<^item> \<open>Verifier\<close>: internal/verifier. \<open>Agent\<close>: internal/agent, the conversation with the agent's process line by line, the
    rounds with the verifier, the envelopes. \<open>Scanjob\<close>: internal/scanjob, internal/scan/renovate\_run.go, cmd/scan,
    cmd/upgrade. \<open>Worker\<close>: cmd/worker, the checkouts and the handler of a job.
  \<^item> \<open>Dispatch\<close>: internal/dispatch and internal/queue. \<open>Gateway\<close>: cmd/gateway.
  \<^item> \<open>System\<close>: the processes together, as a step relation over the shared world. \<open>Queue\<close>: the pools of internal/ledger and
    the queue of internal/queue, opened and closed over a \<open>driver\<close> (pgx and River). \<open>Process\<close>: the four \<open>main\<close> functions
    from their flags to their exit, the routing of requests, internal/logx. \<open>Graphcache\<close>: internal/graphcache.

  \<^bold>\<open>How code and model correspond.\<close> A struct is a record, a closed set of errors a datatype with one constructor per
  failure the code tells apart, a pointer that may be nil an option, a slice that may be nil a \<open>slice\<close>. An interface is a record
  of functions (\<open>github_writer\<close>, \<open>exec_ledger\<close>, \<open>store\<close>, \<open>pipeline\<close>, \<open>dispatcher\<close>), what its users rely on a locale
  (\<open>github_writer_laws\<close>, \<open>run_seams\<close>, \<open>review_seams\<close>, \<open>dispatcher_seams\<close>, \<open>keyed_table\<close>, \<open>process_relation\<close> and others), and each locale is
  interpreted on the model of the code that is plugged in. A method that performs effects is an \<open>eff\<close> with the code's
  order of calls and early returns. A statement that is refused has no effect; an unacknowledged one has its effect but
  reports an error. A transaction works on a copy that the commit puts in place.

  \<^bold>\<open>What the theorems show.\<close> For every component its contract: what \<open>Validate\<close> lets through and that texts it passes
  cannot close foreign issues or notify anyone; that \<open>Decide\<close> gives no more than its trigger needs; that
  \<open>Execute\<close> refines an abstract contract (refuse, answer from the record, or write once) and writes only at the
  target of the grant; that the checks report what they are for; that the agent's results are drafts graded by
  the verifier; that a handled job ends its run and leaves all others alone. Over all processes (\<open>System\<close>): in every
  reachable state every write is licensed by an allowed run whose grant the policy or the scheduler issued, and from every
  reachable state a worker whose database answers brings every queued run to its end (\<open>worker_drains_queue\<close>); what the \<open>main\<close> functions do from start to end
  (\<open>deployed\<close>) is made of those steps, so the same holds of the programs as they are started. Some theorems state what the code does and its
  authors did not mean; each is named in the text before it.

  \<^bold>\<open>Bounds and fuel.\<close> Integers are mathematical where the code cannot overflow, \<open>wrap64\<close> and the range checks of
  the database's columns are written out where it can. All loops are structural but two: the pages of GitHub's listing
  are followed \<open>o_pages\<close> times, and \<open>find_owned_returns\<close> shows that for a listing that ends some number of pages
  is enough and more change nothing; JSON values nest to \<open>max_nesting_depth\<close>, the limit of encoding/json itself. The lines a process
  writes are a finite list, after which its pipe ends.

  \<^bold>\<open>Not modelled.\<close> River's worker loop and net/http's server beyond what they hand to the program: jobs and requests come
  as a list, one at a time (a step of \<open>System\<close> is a whole event, command or job, in any order and again at will; two jobs
  at once are not interleaved). Signals and the wall clock of an agent (an exit with an error), log lines, headers of
  responses, the removal of temporary files, the texts of errors (\<open>ho_message\<close>, \<open>pl_render\<close>). Floating point: the cost of
  a run is an integer of its smallest unit. The database's refusal of NUL bytes and of invalid UTF-8 in text
  columns, and the statements of the schema and of River's migrations, whose result is the record \<open>db\<close>. internal/testdb,
  which makes a database for tests. GitHub, git, the scanners, Renovate and the agent are the oracles above.
\<close>

end
